(* ===== verification/Cmb_Prelude.thy ===== *)
theory Cmb_Prelude imports Main "HOL-Library.Word" begin

text \<open>
  The prelude of the development: the names of the machine types that the acquisition code
  uses, the collections of rewrite rules that the component theories extend, and the generic
  facts on lists, folds and words that more than one component needs.

  A \<open>std::byte\<close> is an 8-bit word, \<open>std::uint16_t\<close>, \<open>std::uint32_t\<close> and
  \<open>std::uint64_t\<close> are words of their width (so \<open>+\<close> wraps as it does in the code), and
  \<open>std::int32_t\<close> is a 32-bit word read with \<open>sint\<close>.  Containers are lists; a
  \<open>std::size_t\<close> that only measures or indexes a container is a \<open>nat\<close>, and one whose
  arithmetic can wrap is a 64-bit word.
\<close>

unbundle bit_operations_syntax

section \<open>Machine types\<close>

type_synonym byte = "8 word"
type_synonym u8 = "8 word"
type_synonym u16 = "16 word"
type_synonym u32 = "32 word"
type_synonym u64 = "64 word"
type_synonym bytes = "byte list"

section \<open>Collections of rewrite rules\<close>

named_theorems consts_defs "the numeric constants of the protocol"
named_theorems wire_simps "lengths and slices of encoded data"

section \<open>Slices of lists\<close>

text \<open>\<open>span.subspan(off, n)\<close>, and the \<open>n\<close> elements that a cursor reads from \<open>off\<close>.\<close>

definition slice :: "nat \<Rightarrow> nat \<Rightarrow> 'a list \<Rightarrow> 'a list" where
  "slice off n xs = take n (drop off xs)"

lemma length_slice [simp]: "length (slice off n xs) = min n (length xs - off)"
  by (simp add: slice_def)

lemma nth_slice [simp]: "i < n \<Longrightarrow> off + i < length xs \<Longrightarrow> slice off n xs ! i = xs ! (off + i)"
  by (simp add: slice_def)

lemma slice_0_all [simp]: "length xs = n \<Longrightarrow> slice 0 n xs = xs"
  by (simp add: slice_def)

lemma slice_append_left: "off + n \<le> length xs \<Longrightarrow> slice off n (xs @ ys) = slice off n xs"
  by (simp add: slice_def)

lemma slice_append_right: "length xs \<le> off \<Longrightarrow> slice off n (xs @ ys) = slice (off - length xs) n ys"
  by (simp add: slice_def)

lemma slice_slice: "a + n \<le> m \<Longrightarrow> slice a n (slice off m xs) = slice (off + a) n xs"
  by (simp add: slice_def take_drop min_def add.commute add.left_commute)

lemma slice_Suc: "off < length xs \<Longrightarrow> slice off (Suc n) xs = xs ! off # slice (Suc off) n xs"
  by (simp add: slice_def Cons_nth_drop_Suc [symmetric])

lemma slice_add: "slice off (m + n) xs = slice off m xs @ slice (off + m) n xs"
  by (simp add: slice_def take_add add.commute)

lemma slice_split_at:
  "off + n \<le> length xs \<Longrightarrow> xs = slice 0 off xs @ slice off n xs @ drop (off + n) xs"
  by (simp add: slice_def) (metis append_take_drop_id drop_drop add.commute)

lemma slice_eq_iff:
  assumes "off + n \<le> length xs" "off + n \<le> length ys"
  shows "slice off n xs = slice off n ys \<longleftrightarrow> (\<forall>i<n. xs ! (off + i) = ys ! (off + i))"
  using assms by (auto simp: list_eq_iff_nth_eq)

lemma slice_update_other:
  "i < off \<or> off + n \<le> i \<Longrightarrow> slice off n (xs[i := v]) = slice off n xs"
  by (auto simp: slice_def drop_update_swap take_update_cancel drop_update_cancel)

lemma list_update_neq: "i < length xs \<Longrightarrow> xs ! i \<noteq> v \<Longrightarrow> xs[i := v] \<noteq> xs"
  by (metis nth_list_update_eq)

section \<open>Folds over an index range\<close>

text \<open>A counting loop that only appends is a \<open>map\<close> over its range.\<close>

lemma fold_append_map: "fold (\<lambda>i ys. ys @ [f i]) is ys = ys @ map f is"
  by (induction "is" arbitrary: ys) auto

lemma fold_upt_Suc: "fold f [0..<Suc n] s = f n (fold f [0..<n] s)"
  by simp

section \<open>Words\<close>

lemma mask_byte: "(255 :: 'a::len word) = mask 8"
  by (simp add: mask_eq_exp_minus_1)

lemma bit_byte_less: "bit (b :: byte) n \<Longrightarrow> n < 8"
  using bit_imp_le_length [of b n] by simp

lemma bit_byte_ge [simp]: "8 \<le> n \<Longrightarrow> \<not> bit (b :: byte) n"
  using bit_byte_less [of b n] by auto

lemma unat_byte_less [simp]: "unat (b :: byte) < 256"
  using unsigned_less [of b] by simp

lemma ucast_byte_inj: "(ucast (a :: byte) :: 'a::len word) = ucast b \<longleftrightarrow> a = b" if "8 \<le> LENGTH('a)"
proof
  assume *: "(ucast a :: 'a word) = ucast b"
  show "a = b"
  proof (rule bit_word_eqI)
    fix k :: nat
    assume "k < LENGTH(8)"
    then show "bit a k = bit b k"
      using that arg_cong [OF *, of "\<lambda>w. bit w k"] by (simp add: bit_simps)
  qed
qed simp

lemma unat_less_exp: "unat (w :: 'a::len word) < 2 ^ LENGTH('a)"
  by (rule unsigned_less)

lemma unat_u64_less: "unat (w :: u64) < 18446744073709551616"
  using unat_less_exp [of w] by simp

lemma unat_Suc_le: "unat (w + 1 :: 'a::len word) \<le> unat w + 1"
  by (simp add: unat_word_ariths)

lemma word_less_of_nat: "n < 2 ^ LENGTH('a) \<Longrightarrow> unat (of_nat n :: 'a::len word) = n"
  by (simp add: unat_of_nat)

lemma word_Suc_less: "(i :: u64) < n \<Longrightarrow> unat (i + 1) = Suc (unat i) \<and> i + 1 \<le> n"
  using unat_less_exp [of n]
  by (simp add: word_less_nat_alt word_le_nat_alt unat_word_ariths unat_add_lem)

lemma word_xor_right_cancel [simp]:
  "(a :: 'a::len word) XOR c = b XOR c \<longleftrightarrow> a = b"
  by (metis xor.assoc xor_self_eq xor.right_neutral)

lemma word_xor_left_cancel [simp]:
  "(c :: 'a::len word) XOR a = c XOR b \<longleftrightarrow> a = b"
  by (metis xor.assoc xor_self_eq xor.left_neutral)

lemma of_nat_u64_eq_iff:
  assumes "j < 2 ^ 64" "k < 2 ^ 64"
  shows "(of_nat j :: u64) = of_nat k \<longleftrightarrow> j = k"
  using assms by (auto simp: word_unat_eq_iff unat_of_nat)

end
