(* ===== verification/Decimal.thy ===== *)
theory Decimal
  imports Cmb_Prelude "HOL-Library.Char_ord" "HOL-Library.List_Lexorder"
begin

text \<open>
  Decimal numerals as the program prints and reads them: \<open>std::to_string\<close> and \<open>operator<<\<close> on
  unsigned integers, padding with \<open>std::setw\<close>/\<open>std::setfill\<close>, and the value of a run of digits
  (the core of \<open>std::stoul\<close> and its siblings).  Padded numerals of equal width are ordered as
  strings like the numbers they denote.
\<close>

definition digit_char :: "nat \<Rightarrow> char" where
  "digit_char d = char_of (48 + d)"

definition is_digit :: "char \<Rightarrow> bool" where
  "is_digit c \<longleftrightarrow> 48 \<le> (of_char c :: nat) \<and> (of_char c :: nat) \<le> 57"

definition digit_value :: "char \<Rightarrow> nat" where
  "digit_value c = of_char c - 48"

fun to_string :: "nat \<Rightarrow> string" where
  "to_string n = (if n < 10 then [digit_char n] else to_string (n div 10) @ [digit_char (n mod 10)])"

declare to_string.simps [simp del]

definition decimal_value :: "string \<Rightarrow> nat" where
  "decimal_value cs = fold (\<lambda>c v. v * 10 + digit_value c) cs 0"

text \<open>\<open>std::setw(w) << std::setfill('0')\<close>: shorter texts are padded on the left, longer ones kept.\<close>

definition pad_zeros :: "nat \<Rightarrow> string \<Rightarrow> string" where
  "pad_zeros w cs = replicate (w - length cs) (CHR ''0'') @ cs"

section \<open>Digits\<close>

lemma digit_char_facts [simp]:
  assumes "d < 10"
  shows "is_digit (digit_char d)" "digit_value (digit_char d) = d"
  using assms by (simp_all add: is_digit_def digit_value_def digit_char_def)

lemma zero_digit [simp]: "is_digit (CHR ''0'')" "digit_value (CHR ''0'') = 0"
  by (simp_all add: is_digit_def digit_value_def)

lemma digit_value_less: "is_digit c \<Longrightarrow> digit_value c < 10"
  unfolding is_digit_def digit_value_def by linarith

lemma digit_less_iff:
  "is_digit c \<Longrightarrow> is_digit d \<Longrightarrow> c < d \<longleftrightarrow> digit_value c < digit_value d"
  by (auto simp: is_digit_def digit_value_def less_char_def)

lemma digit_eq_iff:
  assumes "is_digit c" "is_digit d"
  shows "c = d \<longleftrightarrow> digit_value c = digit_value d"
proof
  assume "digit_value c = digit_value d"
  then have "(of_char c :: nat) = of_char d"
    using assms unfolding is_digit_def digit_value_def by linarith
  then show "c = d" by simp
qed simp

section \<open>Values\<close>

lemma decimal_value_snoc [simp]: "decimal_value (cs @ [c]) = decimal_value cs * 10 + digit_value c"
  by (simp add: decimal_value_def)

lemma decimal_value_append:
  "decimal_value (cs @ ds) = decimal_value cs * 10 ^ length ds + decimal_value ds"
proof (induction ds rule: rev_induct)
  case (snoc d ds)
  have "decimal_value ((cs @ ds) @ [d]) = decimal_value (cs @ ds) * 10 + digit_value d"
    by (rule decimal_value_snoc)
  with snoc show ?case by (simp add: algebra_simps)
qed (simp add: decimal_value_def)

lemma decimal_value_Cons:
  "decimal_value (c # cs) = digit_value c * 10 ^ length cs + decimal_value cs"
  using decimal_value_append [of "[c]" cs] by (simp add: decimal_value_def)

lemma decimal_value_bound:
  assumes "list_all is_digit cs"
  shows "decimal_value cs < 10 ^ length cs"
  using assms
proof (induction cs)
  case (Cons c cs)
  then have "digit_value c + 1 \<le> 10" "decimal_value cs + 1 \<le> 10 ^ length cs"
    using digit_value_less [of c] by auto
  then have "(digit_value c + 1) * 10 ^ length cs \<le> 10 * 10 ^ length cs" by (intro mult_right_mono) auto
  then have "digit_value c * 10 ^ length cs + 10 ^ length cs \<le> 10 * 10 ^ length cs" by (simp add: distrib_right)
  then show ?case using \<open>decimal_value cs + 1 \<le> _\<close>
    unfolding decimal_value_Cons length_Cons power_Suc by linarith
qed (simp add: decimal_value_def)

lemma to_string_digits: "list_all is_digit (to_string n)"
  by (induction n rule: to_string.induct) (subst to_string.simps, simp)

lemma decimal_value_to_string [simp]: "decimal_value (to_string n) = n"
proof (induction n rule: to_string.induct)
  case (1 n)
  show ?case
  proof (cases "n < 10")
    case True
    then show ?thesis by (subst to_string.simps) (simp add: decimal_value_def)
  next
    case False
    then show ?thesis using 1 by (subst to_string.simps) simp
  qed
qed

lemma to_string_inj [simp]: "to_string m = to_string n \<longleftrightarrow> m = n"
  by (metis decimal_value_to_string)

lemma to_string_nonempty [simp]: "to_string n \<noteq> []"
  by (subst to_string.simps) simp

lemma length_to_string: "0 < k \<Longrightarrow> n < 10 ^ k \<Longrightarrow> length (to_string n) \<le> k"
proof (induction k arbitrary: n)
  case (Suc k)
  show ?case
  proof (cases "n < 10")
    case True
    then show ?thesis by (subst to_string.simps) simp
  next
    case False
    then have "n div 10 < 10 ^ k" "0 < k" using Suc.prems by (auto intro!: Suc_leI split: nat.splits) (cases k; simp)
    then show ?thesis using Suc.IH False by (subst to_string.simps) simp
  qed
qed simp

section \<open>Padded numerals\<close>

lemma decimal_value_zeros: "decimal_value (replicate k (CHR ''0'') @ cs) = decimal_value cs"
  by (induction k) (simp_all add: decimal_value_Cons)

lemma pad_zeros_value [simp]: "decimal_value (pad_zeros w (to_string n)) = n"
  by (simp add: pad_zeros_def decimal_value_zeros)

lemma pad_zeros_digits: "list_all is_digit (pad_zeros w (to_string n))"
  by (simp add: pad_zeros_def to_string_digits list_all_iff) (use to_string_digits [of n] in \<open>auto simp: list_all_iff\<close>)

lemma pad_zeros_length: "0 < w \<Longrightarrow> n < 10 ^ w \<Longrightarrow> length (pad_zeros w (to_string n)) = w"
  using length_to_string [of w n] by (simp add: pad_zeros_def)

lemma list_less_append_left: "xs @ ys < xs @ zs \<longleftrightarrow> ys < (zs :: 'a :: linorder list)"
  by (induction xs) simp_all

lemma list_less_append_right:
  "length xs = length ys \<Longrightarrow> xs < ys \<Longrightarrow> xs @ us < ys @ (vs :: 'a :: linorder list)"
  by (induction xs ys rule: list_induct2) auto

lemma digits_less:
  assumes "length cs = length ds" "list_all is_digit cs" "list_all is_digit ds"
    and "decimal_value cs < decimal_value ds"
  shows "cs < ds"
  using assms
proof (induction cs ds rule: list_induct2)
  case (Cons c cs d ds)
  let ?e = "10 ^ length ds"
  have bounds: "decimal_value cs < ?e" "decimal_value ds < ?e"
    using Cons decimal_value_bound [of cs] decimal_value_bound [of ds] by auto
  have "digit_value c * ?e + decimal_value cs < digit_value d * ?e + decimal_value ds"
    using Cons.prems Cons.hyps by (simp add: decimal_value_Cons)
  then have "digit_value c * ?e < digit_value d * ?e + ?e" using bounds by linarith
  then have "digit_value c * ?e < (digit_value d + 1) * ?e" by (simp add: distrib_right)
  then have "digit_value c < digit_value d + 1" by (rule mult_less_cancel2 [THEN iffD1, THEN conjunct2])
  then have "digit_value c \<le> digit_value d" by simp
  then show ?case
    using Cons by (auto simp: decimal_value_Cons digit_less_iff digit_eq_iff order.order_iff_strict)
qed simp

lemma pad_zeros_less:
  assumes "m < n" "n < 10 ^ w" "0 < w"
  shows "pad_zeros w (to_string m) < pad_zeros w (to_string n)"
  using assms by (intro digits_less) (simp_all add: pad_zeros_length pad_zeros_digits)

end
