(* ===== verification/Options.thy ===== *)
theory Options
  imports Decimal
begin

text \<open>
  Command lines.  The number parsers of the standard library (\<open>std::stol\<close>, \<open>std::stoul\<close>,
  \<open>std::stoull\<close>, base 10): leading white space, an optional sign, the longest run of digits, anything
  behind it ignored.  A negative number is accepted by the unsigned ones and wraps.  Exceptions are
  values of \<open>error\<close>; what the library's own exceptions say is the name of the function, as in
  libstdc++.
\<close>

section \<open>Errors\<close>

datatype error = Invalid_argument string | Out_of_range string

fun what :: "error \<Rightarrow> string" where
  "what (Invalid_argument msg) = msg"
| "what (Out_of_range msg) = msg"

fun and_then :: "error + 'a \<Rightarrow> ('a \<Rightarrow> error + 'b) \<Rightarrow> error + 'b" where
  "and_then (Inl e) f = Inl e"
| "and_then (Inr a) f = f a"

lemma and_then_Inr_iff: "and_then m f = Inr b \<longleftrightarrow> (\<exists>a. m = Inr a \<and> f a = Inr b)"
  by (cases m) auto

section \<open>Numbers\<close>

definition is_space :: "char \<Rightarrow> bool" where
  "is_space c \<longleftrightarrow> (of_char c :: nat) = 32 \<or> (9 \<le> (of_char c :: nat) \<and> (of_char c :: nat) \<le> 13)"

definition scan_sign :: "string \<Rightarrow> bool \<times> string" where
  "scan_sign cs =
     (case cs of
        c # rest \<Rightarrow> if c = CHR ''-'' then (True, rest) else if c = CHR ''+'' then (False, rest) else (False, cs)
      | [] \<Rightarrow> (False, []))"

definition scan_integer :: "string \<Rightarrow> (bool \<times> nat) option" where
  "scan_integer cs =
     (case scan_sign (dropWhile is_space cs) of
        (negative, rest) \<Rightarrow>
          let digits = takeWhile is_digit rest
          in if digits = [] then None else Some (negative, decimal_value digits))"

definition std_unsigned :: "string \<Rightarrow> string \<Rightarrow> error + u64" where
  "std_unsigned name cs =
     (case scan_integer cs of
        None \<Rightarrow> Inl (Invalid_argument name)
      | Some (negative, v) \<Rightarrow>
          if 2 ^ 64 \<le> v then Inl (Out_of_range name)
          else Inr (if negative then - of_nat v else of_nat v))"

definition std_stoul :: "string \<Rightarrow> error + u64" where
  "std_stoul = std_unsigned ''stoul''"

definition std_stoull :: "string \<Rightarrow> error + u64" where
  "std_stoull = std_unsigned ''stoull''"

definition std_stol :: "string \<Rightarrow> error + int" where
  "std_stol cs =
     (case scan_integer cs of
        None \<Rightarrow> Inl (Invalid_argument ''stol'')
      | Some (negative, v) \<Rightarrow>
          let i = (if negative then - int v else int v)
          in if i < - (2 ^ 63) \<or> 2 ^ 63 \<le> i then Inl (Out_of_range ''stol'') else Inr i)"

definition starts_with :: "string \<Rightarrow> string \<Rightarrow> bool" where
  "starts_with p s \<longleftrightarrow> take (length p) s = p"

subsection \<open>Printed numbers are read back\<close>

lemma digit_not_space: "is_digit c \<Longrightarrow> \<not> is_space c"
  by (auto simp: is_digit_def is_space_def)

lemma digit_not_sign: "is_digit c \<Longrightarrow> c \<noteq> CHR ''-''" "is_digit c \<Longrightarrow> c \<noteq> CHR ''+''"
  by (auto simp: is_digit_def)

lemma scan_digits:
  assumes "list_all is_digit ds" "ds \<noteq> []"
  shows "scan_integer ds = Some (False, decimal_value ds)"
proof -
  obtain c cs where ds: "ds = c # cs" using assms(2) by (cases ds) auto
  have "dropWhile is_space ds = ds" using assms(1) by (simp add: ds digit_not_space)
  moreover have "scan_sign ds = (False, ds)" using assms(1) by (simp add: ds scan_sign_def digit_not_sign)
  ultimately show ?thesis
    using assms by (simp add: scan_integer_def Let_def takeWhile_eq_all_conv [THEN iffD2] list_all_iff)
qed

lemma scan_to_string [simp]: "scan_integer (to_string n) = Some (False, n)"
  by (simp add: scan_digits to_string_digits)

lemma std_unsigned_to_string [simp]: "std_unsigned name (to_string (unat v)) = Inr v"
  using unat_less_exp [of v] by (simp add: std_unsigned_def)

lemma std_unsigned_nat: "n < 2 ^ 64 \<Longrightarrow> std_unsigned name (to_string n) = Inr (of_nat n)"
  by (simp add: std_unsigned_def)

lemma std_stol_to_string: "n < 2 ^ 63 \<Longrightarrow> std_stol (to_string n) = Inr (int n)"
  by (simp add: std_stol_def Let_def)

lemma std_unsigned_minus_one: "std_unsigned name ''-1'' = Inr (- 1)"
  by (simp add: std_unsigned_def scan_integer_def scan_sign_def is_space_def is_digit_def decimal_value_def digit_value_def)

lemma sign_not_digit [simp]: "\<not> is_digit (CHR ''-'')"
  by (simp add: is_digit_def)

lemma to_string_first: "\<exists>c cs. to_string n = c # cs \<and> is_digit c"
  using to_string_digits [of n] by (cases "to_string n") auto

lemma to_string_no_option [simp]: "\<not> starts_with ''--'' (to_string n)" "to_string n \<noteq> CHR ''-'' # cs"
  using to_string_first [of n] by (auto simp: starts_with_def digit_not_sign)

lemma not_option: "\<not> starts_with ''--'' arg \<Longrightarrow> arg \<noteq> CHR ''-'' # CHR ''-'' # cs"
  by (auto simp: starts_with_def)

end
