(* ===== verification/Little_Endian.thy ===== *)
theory Little_Endian imports Cmb_Prelude begin

text \<open>
  The three little-endian templates of \<open>common/frame.cpp\<close>: \<open>put_le\<close> on a growing vector,
  \<open>put_le\<close> on the header array with a cursor, and \<open>get_le\<close> with a cursor.  A cursor that
  the code passes by reference is returned with the result.  The interface \<open>codec\<close> states
  what a fixed-width encoding promises; it is interpreted on the three widths the protocol uses.
\<close>

unbundle bit_operations_syntax

section \<open>The templates\<close>

text \<open>\<open>static_cast<std::byte>((value >> (8 * i)) & 0xFF)\<close>.\<close>

definition le_byte :: "'a::len word \<Rightarrow> nat \<Rightarrow> byte" where
  "le_byte value i = ucast (drop_bit (8 * i) value AND 0xFF)"

definition put_le :: "bytes \<Rightarrow> 'a::len word \<Rightarrow> bytes" where
  "put_le bytes value = fold (\<lambda>i bytes. bytes @ [le_byte value i]) [0..<LENGTH('a) div 8] bytes"

definition put_le_at :: "'a::len word \<Rightarrow> bytes \<times> nat \<Rightarrow> bytes \<times> nat" where
  "put_le_at value s =
     fold (\<lambda>i (bytes, offset). (bytes[offset := le_byte value i], Suc offset)) [0..<LENGTH('a) div 8] s"

definition get_le :: "bytes \<Rightarrow> nat \<Rightarrow> 'a::len word \<times> nat" where
  "get_le bytes offset =
     fold (\<lambda>i (value, offset). (value OR push_bit (8 * i) (ucast (bytes ! offset)), Suc offset))
       [0..<LENGTH('a) div 8] (0, offset)"

section \<open>What they compute\<close>

text \<open>The bytes of a value, low byte first, and the value of such bytes.\<close>

definition le_bytes :: "'a::len word \<Rightarrow> bytes" where
  "le_bytes value = map (le_byte value) [0..<LENGTH('a) div 8]"

definition le_word :: "bytes \<Rightarrow> 'a::len word" where
  "le_word bs =
     fold (\<lambda>i value. value OR push_bit (8 * i) (ucast (bs ! i))) [0..<LENGTH('a) div 8] 0"

lemma bit_le_byte: "bit (le_byte (v :: 'a::len word) i) k \<longleftrightarrow> k < 8 \<and> bit v (8 * i + k)"
  by (auto simp: le_byte_def mask_byte bit_simps add.commute dest: bit_imp_le_length)

lemma length_le_bytes [wire_simps]: "length (le_bytes (v :: 'a::len word)) = LENGTH('a) div 8"
  by (simp add: le_bytes_def)

lemma bit_fold_or: "bit (fold (\<lambda>i value. value OR push_bit (8 * i) (ucast (bs ! i))) [0..<n] (0 :: 'a::len word)) k
    \<longleftrightarrow> k < LENGTH('a) \<and> k div 8 < n \<and> bit (bs ! (k div 8) :: byte) (k mod 8)"
proof (induction n)
  case 0
  show ?case by simp
next
  case (Suc n)
  have at: "(8 * n \<le> k \<and> bit (bs ! n :: byte) (k - 8 * n)) \<longleftrightarrow> (k div 8 = n \<and> bit (bs ! (k div 8)) (k mod 8))"
  proof (cases "8 * n \<le> k \<and> k - 8 * n < 8")
    case True
    then have "k div 8 = n" by (intro div_nat_eqI) auto
    then have "k div 8 = n" "k mod 8 = k - 8 * n" by (auto simp: minus_div_mult_eq_mod [symmetric])
    with True show ?thesis by simp
  next
    case False
    then have "k div 8 \<noteq> n" using div_mult_mod_eq [of k 8] by auto
    with False show ?thesis using bit_byte_less [of "bs ! n" "k - 8 * n"] by auto
  qed
  show ?case
    by (simp add: Suc.IH bit_simps) (use at in \<open>auto simp: less_Suc_eq\<close>)
qed

lemma bit_le_word: "bit (le_word bs :: 'a::len word) k
    \<longleftrightarrow> k < LENGTH('a) \<and> k div 8 < LENGTH('a) div 8 \<and> bit (bs ! (k div 8)) (k mod 8)"
  unfolding le_word_def by (rule bit_fold_or)

lemma le_word_le_bytes:
  assumes "8 dvd LENGTH('a)"
  shows "le_word (le_bytes (v :: 'a::len word)) = v"
proof (rule bit_word_eqI)
  fix k :: nat
  assume "k < LENGTH('a)"
  moreover from this assms have "k div 8 < LENGTH('a) div 8"
    by (auto simp: dvd_def)
  ultimately show "bit (le_word (le_bytes v) :: 'a word) k = bit v k"
    by (simp add: bit_le_word le_bytes_def bit_le_byte)
qed

lemma le_bytes_le_word:
  assumes "length bs = LENGTH('a) div 8"
  shows "le_bytes (le_word bs :: 'a::len word) = bs"
proof (rule nth_equalityI)
  show "length (le_bytes (le_word bs :: 'a word)) = length bs"
    by (simp add: length_le_bytes assms)
next
  fix i
  assume "i < length (le_bytes (le_word bs :: 'a word))"
  then have i: "i < LENGTH('a) div 8" by (simp add: length_le_bytes)
  show "le_bytes (le_word bs :: 'a word) ! i = bs ! i"
  proof (rule bit_word_eqI)
    fix k :: nat
    assume "k < LENGTH(8)"
    then show "bit (le_bytes (le_word bs :: 'a word) ! i) k = bit (bs ! i) k"
      using i by (auto simp: le_bytes_def bit_le_byte bit_le_word)
  qed
qed

lemma put_le_eq [wire_simps]: "put_le bytes v = bytes @ le_bytes v"
  by (simp add: put_le_def le_bytes_def fold_append_map)

lemma put_le_at_fold: "n \<le> m \<Longrightarrow>
    fold (\<lambda>i (bytes, offset). (bytes[offset := f i], Suc offset)) [0..<n] (xs @ replicate m 0, length xs)
    = (xs @ map f [0..<n] @ replicate (m - n) (0 :: byte), length xs + n)"
proof (induction n)
  case (Suc n)
  then have "replicate (m - n) (0 :: byte) = 0 # replicate (m - Suc n) 0"
    by (cases "m - n") (auto simp: Suc_diff_Suc)
  with Suc show ?case by (simp add: list_update_append)
qed simp

lemma put_le_at_eq:
  "LENGTH('a) div 8 \<le> m \<Longrightarrow> put_le_at (v :: 'a::len word) (xs @ replicate m 0, length xs)
    = ((xs @ le_bytes v) @ replicate (m - LENGTH('a) div 8) 0, length (xs @ le_bytes v))"
  unfolding put_le_at_def le_bytes_def by (subst put_le_at_fold) auto

lemma get_le_fold: "off + n \<le> length bytes \<Longrightarrow>
    fold (\<lambda>i (value, offset). (value OR push_bit (8 * i) (ucast (bytes ! offset)), Suc offset)) [0..<n] (0, off)
    = (fold (\<lambda>i value. value OR push_bit (8 * i) (ucast (slice off N bytes ! i))) [0..<n] (0 :: 'a::len word), off + n)"
  if "n \<le> N" for bytes :: bytes
  using that by (induction n) auto

lemma get_le_eq [wire_simps]:
  "off + LENGTH('a) div 8 \<le> length bytes \<Longrightarrow>
    get_le bytes off = (le_word (slice off (LENGTH('a) div 8) bytes) :: 'a::len word, off + LENGTH('a) div 8)"
  unfolding get_le_def le_word_def by (rule get_le_fold) auto

section \<open>Fixed-width encodings\<close>

text \<open>
  A fixed-width encoding: every value takes \<open>w\<close> bytes, decoding undoes encoding, and every
  \<open>w\<close> bytes are the encoding of what they decode to.
\<close>

locale codec =
  fixes enc :: "'a \<Rightarrow> bytes"
    and dec :: "bytes \<Rightarrow> 'a"
    and w :: nat
  assumes length_enc: "length (enc v) = w"
    and dec_enc: "dec (enc v) = v"
    and enc_dec: "length bs = w \<Longrightarrow> enc (dec bs) = bs"
begin

lemma dec_inj: "length bs = w \<Longrightarrow> length bs' = w \<Longrightarrow> dec bs = dec bs' \<Longrightarrow> bs = bs'"
  by (metis enc_dec)

lemma enc_eq_iff: "length bs = w \<Longrightarrow> dec bs = v \<longleftrightarrow> bs = enc v"
  by (metis dec_enc enc_dec)

lemma length_concat_enc: "length (concat (map enc vs)) = w * length vs"
  by (induction vs) (simp_all add: length_enc)

text \<open>An array is its elements' encodings one after the other.\<close>

lemma dec_slice_concat:
  "i < length vs \<Longrightarrow> dec (slice (w * i) w (concat (map enc vs))) = vs ! i"
proof (induction vs arbitrary: i)
  case Nil
  then show ?case by simp
next
  case (Cons v vs)
  show ?case
  proof (cases i)
    case 0
    then show ?thesis by (simp add: slice_append_left length_enc dec_enc)
  next
    case (Suc j)
    with Cons have "dec (slice (w * j) w (concat (map enc vs))) = vs ! j" by simp
    with Suc show ?thesis by (simp add: slice_append_right length_enc)
  qed
qed

lemma map_dec_concat: "map (\<lambda>i. dec (slice (w * i) w (concat (map enc vs)))) [0..<length vs] = vs"
  by (rule nth_equalityI) (simp_all add: dec_slice_concat)

lemma concat_enc_dec:
  "length bs = w * n \<Longrightarrow> concat (map (\<lambda>i. enc (dec (slice (w * i) w bs))) [0..<n]) = bs"
proof (induction n arbitrary: bs)
  case 0
  then show ?case by simp
next
  case (Suc n)
  have IH: "concat (map (\<lambda>i. enc (dec (slice (w * i) w (take (w * n) bs)))) [0..<n]) = take (w * n) bs"
    using Suc by simp
  have "slice (w * i) w (take (w * n) bs) = slice (w * i) w bs" if "i < n" for i
  proof -
    have "w * i + w \<le> w * n" using that mult_le_mono2 [of "Suc i" n w] by simp
    then show ?thesis by (simp add: slice_def min_def drop_take)
  qed
  then have front: "concat (map (\<lambda>i. enc (dec (slice (w * i) w bs))) [0..<n]) = take (w * n) bs"
    using IH by (metis (no_types, lifting) atLeastLessThan_iff list.map_cong0 set_upt)
  have "enc (dec (slice (w * n) w bs)) = drop (w * n) bs"
    using Suc.prems by (simp add: enc_dec slice_def)
  with front show ?case by simp
qed

end

interpretation le16: codec le_bytes "le_word :: bytes \<Rightarrow> u16" 2
  by unfold_locales (simp_all add: length_le_bytes le_word_le_bytes le_bytes_le_word)

interpretation le32: codec le_bytes "le_word :: bytes \<Rightarrow> u32" 4
  by unfold_locales (simp_all add: length_le_bytes le_word_le_bytes le_bytes_le_word)

interpretation le64: codec le_bytes "le_word :: bytes \<Rightarrow> u64" 8
  by unfold_locales (simp_all add: length_le_bytes le_word_le_bytes le_bytes_le_word)

lemmas le_dec_enc [wire_simps] = le16.dec_enc le32.dec_enc le64.dec_enc
lemmas le_enc_dec [wire_simps] = le16.enc_dec le32.enc_dec le64.enc_dec

end
