(* ===== verification/Crc32.thy ===== *)
theory Crc32 imports Cmb_Prelude begin

text \<open>
  \<open>common/crc32.cpp\<close>: the reflected CRC-32, computed eight bytes at a time from tables.
  The tables and the two loops are modelled as the code has them; \<open>crc32_bitwise\<close> is the
  textbook definition they are proved equal to.  The second half shows what the checksum is
  there for: a change confined to four consecutive bytes always changes it.
\<close>

unbundle bit_operations_syntax

section \<open>The tables\<close>

definition crc32_polynomial :: u32 where
  "crc32_polynomial = 0xEDB88320"

text \<open>One round of the inner loop of \<open>make_tables\<close>, and \<open>n\<close> rounds.\<close>

definition crc_shift :: "u32 \<Rightarrow> u32" where
  "crc_shift crc = drop_bit 1 crc XOR (if crc AND 1 \<noteq> 0 then crc32_polynomial else 0)"

primrec crc_bits :: "nat \<Rightarrow> u32 \<Rightarrow> u32" where
  "crc_bits 0 crc = crc"
| "crc_bits (Suc n) crc = crc_bits n (crc_shift crc)"

lemma crc_bits_numeral:
  "crc_bits (numeral n) crc = crc_bits (pred_numeral n) (crc_shift crc)"
  by (simp add: numeral_eq_Suc)

definition table0 :: "u32 list" where
  "table0 = map (\<lambda>i. crc_bits 8 (of_nat i)) [0..<256]"

text \<open>\<open>t[k][i]\<close> of the second pair of loops, from \<open>t[k - 1][i]\<close>.\<close>

primrec table_entry :: "nat \<Rightarrow> nat \<Rightarrow> u32" where
  "table_entry 0 i = table0 ! i"
| "table_entry (Suc k) i =
     drop_bit 8 (table_entry k i) XOR table0 ! unat (table_entry k i AND 0xFF)"

definition make_tables :: "u32 list list" where
  "make_tables = map (\<lambda>k. map (table_entry k) [0..<256]) [0..<8]"

definition kTables :: "u32 list list" where
  "kTables = make_tables"

section \<open>The checksum\<close>

text \<open>\<open>while (n >= 8)\<close>: the state after the loop is the checksum and the bytes not yet read.\<close>

fun crc_slices :: "u32 \<Rightarrow> bytes \<Rightarrow> u32 \<times> bytes" where
  "crc_slices crc (p0 # p1 # p2 # p3 # p4 # p5 # p6 # p7 # p) =
     (let lo = crc XOR (ucast p0 OR push_bit 8 (ucast p1) OR push_bit 16 (ucast p2)
                        OR push_bit 24 (ucast p3))
      in crc_slices
           (kTables ! 7 ! unat (lo AND 0xFF) XOR kTables ! 6 ! unat (drop_bit 8 lo AND 0xFF)
            XOR kTables ! 5 ! unat (drop_bit 16 lo AND 0xFF) XOR kTables ! 4 ! unat (drop_bit 24 lo)
            XOR kTables ! 3 ! unat p4 XOR kTables ! 2 ! unat p5
            XOR kTables ! 1 ! unat p6 XOR kTables ! 0 ! unat p7)
           p)"
| "crc_slices crc p = (crc, p)"

text \<open>\<open>while (n-- > 0)\<close>.\<close>

fun crc_tail :: "u32 \<Rightarrow> bytes \<Rightarrow> u32" where
  "crc_tail crc [] = crc"
| "crc_tail crc (b # p) =
     crc_tail (drop_bit 8 crc XOR kTables ! 0 ! unat ((crc XOR ucast b) AND 0xFF)) p"

definition crc32 :: "bytes \<Rightarrow> u32" where
  "crc32 bs = (case crc_slices 0xFFFFFFFF bs of (crc, p) \<Rightarrow> NOT (crc_tail crc p))"

section \<open>The reference definition\<close>

text \<open>One byte at a time, one bit at a time: the form that the unit test compares with.\<close>

definition crc_byte :: "byte \<Rightarrow> u32 \<Rightarrow> u32" where
  "crc_byte b crc = crc_bits 8 (crc XOR ucast b)"

definition crc32_bitwise :: "bytes \<Rightarrow> u32" where
  "crc32_bitwise bs = NOT (fold crc_byte bs 0xFFFFFFFF)"

section \<open>The shift register is linear\<close>

lemma and_1_iff_bit: "(w :: 'a::len word) AND 1 \<noteq> 0 \<longleftrightarrow> bit w 0"
  by (simp add: and_one_eq bit_0 odd_iff_mod_2_eq_one)

lemma crc_shift_bit:
  "bit (crc_shift c) k \<longleftrightarrow> (bit c (Suc k) \<noteq> (bit c 0 \<and> bit crc32_polynomial k))"
  by (auto simp: crc_shift_def and_1_iff_bit bit_simps)

lemma crc_shift_xor: "crc_shift (a XOR b) = crc_shift a XOR crc_shift b"
  by (rule bit_word_eqI) (auto simp: crc_shift_bit bit_simps)

lemma crc_bits_xor: "crc_bits n (a XOR b) = crc_bits n a XOR crc_bits n b"
  by (induction n arbitrary: a b) (simp_all add: crc_shift_xor)

lemma crc_bits_add: "crc_bits (m + n) c = crc_bits n (crc_bits m c)"
  by (induction m arbitrary: c) simp_all

lemma crc_bits_0_right [simp]: "crc_bits n 0 = 0"
  by (induction n) (simp_all add: crc_shift_def)

text \<open>While the low bits are 0 the register only shifts.\<close>

lemma crc_bits_drop:
  "(\<forall>k<n. \<not> bit c k) \<Longrightarrow> crc_bits n c = drop_bit n c"
proof (induction n arbitrary: c)
  case 0
  show ?case by simp
next
  case (Suc n)
  then have b0: "\<not> bit c 0" by simp
  have shift: "crc_shift c = drop_bit 1 c"
    using b0 by (simp add: crc_shift_def and_1_iff_bit)
  have "\<forall>k<n. \<not> bit (drop_bit 1 c) k"
    using Suc.prems by (auto simp: bit_simps)
  then have "crc_bits n (drop_bit 1 c) = drop_bit n (drop_bit 1 c)" by (rule Suc.IH)
  then show ?case by (simp add: shift drop_bit_drop_bit)
qed

lemma crc_bits_push: "m \<le> n \<Longrightarrow> m + 8 \<le> 32 \<Longrightarrow>
    crc_bits n (push_bit m (ucast (b :: byte))) = crc_bits (n - m) (ucast b)"
proof -
  assume mn: "m \<le> n" and m: "m + 8 \<le> 32"
  have "crc_bits (m + (n - m)) (push_bit m (ucast b)) = crc_bits (n - m) (crc_bits m (push_bit m (ucast b)))"
    by (rule crc_bits_add)
  moreover have "crc_bits m (push_bit m (ucast b :: u32)) = ucast b"
    using m by (subst crc_bits_drop)
      (auto simp: bit_simps intro!: bit_word_eqI dest!: bit_byte_less)
  ultimately show ?thesis using mn by simp
qed

section \<open>The tables hold runs of the register\<close>

lemma length_table0 [simp]: "length table0 = 256"
  by (simp add: table0_def)

lemma unat_low_byte: "unat ((w :: u32) AND 255) = unat (ucast w :: byte)"
  by (simp add: mask_byte unsigned_ucast_eq unsigned_take_bit_eq flip: take_bit_eq_mask)

lemma ucast_low_byte: "(ucast (ucast (w :: u32) :: byte) :: u32) = w AND 255"
  by (rule bit_word_eqI) (auto simp: bit_simps mask_byte)

lemma table0_nth: "table0 ! unat (b :: byte) = crc_bits 8 (ucast b)"
  by (simp add: table0_def unat_byte_less)

text \<open>Eight rounds are one table step: the low byte selects an entry, the rest shifts.\<close>

lemma crc_bits_8_table:
  "crc_bits 8 c = drop_bit 8 c XOR table0 ! unat (c AND 0xFF)"
proof -
  have split: "c = push_bit 8 (drop_bit 8 c) XOR (c AND 255)"
    by (rule bit_word_eqI) (auto simp: bit_simps mask_byte)
  have hi: "crc_bits 8 (push_bit 8 (drop_bit 8 c)) = drop_bit 8 c"
    by (subst crc_bits_drop)
      (auto simp: bit_simps intro!: bit_word_eqI, fastforce dest: bit_imp_le_length)
  have lo: "crc_bits 8 (c AND 255) = table0 ! unat (c AND 255)"
    by (simp add: unat_low_byte table0_nth ucast_low_byte)
  show ?thesis
    by (subst split) (simp only: crc_bits_xor hi lo)
qed

lemma table_entry_crc_bits:
  "table_entry k (unat (b :: byte)) = crc_bits (8 * Suc k) (ucast b)"
proof (induction k)
  case 0
  show ?case by (simp add: table0_nth)
next
  case (Suc k)
  have "table_entry (Suc k) (unat b) = crc_bits 8 (crc_bits (8 * Suc k) (ucast b))"
    by (simp only: table_entry.simps Suc.IH crc_bits_8_table)
  also have "\<dots> = crc_bits (8 * Suc (Suc k)) (ucast b)"
    by (simp only: crc_bits_add [symmetric]) simp
  finally show ?case .
qed

lemma kTables_nth: "k < 8 \<Longrightarrow> kTables ! k ! unat (b :: byte) = crc_bits (8 * Suc k) (ucast b)"
  by (simp add: kTables_def make_tables_def unat_byte_less table_entry_crc_bits del: table_entry.simps)

section \<open>The table loops compute the reference definition\<close>

lemma crc_tail_step:
  "drop_bit 8 crc XOR kTables ! 0 ! unat ((crc XOR ucast b) AND 0xFF) = crc_byte b crc"
proof -
  have shift: "drop_bit 8 (crc XOR ucast b :: u32) = drop_bit 8 crc"
    by (rule bit_word_eqI) (auto simp: bit_simps)
  have "kTables ! 0 ! unat ((crc XOR ucast b) AND 255) = table0 ! unat ((crc XOR ucast b) AND 255)"
    by (simp add: unat_low_byte kTables_nth table0_nth)
  then show ?thesis
    by (simp only: crc_byte_def crc_bits_8_table [of "crc XOR ucast b"] shift)
qed

lemma crc_tail_fold: "crc_tail crc p = fold crc_byte p crc"
  by (induction crc p rule: crc_tail.induct) (simp_all add: crc_tail_step del: One_nat_def)

text \<open>The little-endian word of four bytes, as \<open>lo\<close> is assembled.\<close>

definition le4 :: "byte \<Rightarrow> byte \<Rightarrow> byte \<Rightarrow> byte \<Rightarrow> u32" where
  "le4 p0 p1 p2 p3 =
     ucast p0 OR push_bit 8 (ucast p1) OR push_bit 16 (ucast p2) OR push_bit 24 (ucast p3)"

lemma bit_le4: "bit (le4 p0 p1 p2 p3) k \<longleftrightarrow>
    (if k < 8 then bit p0 k else if k < 16 then bit p1 (k - 8)
     else if k < 24 then bit p2 (k - 16) else k < 32 \<and> bit p3 (k - 24))"
  by (auto simp: le4_def bit_simps)

lemma le4_xor: "le4 p0 p1 p2 p3 =
    ucast p0 XOR push_bit 8 (ucast p1) XOR push_bit 16 (ucast p2) XOR push_bit 24 (ucast p3)"
  by (rule bit_word_eqI) (auto simp: bit_le4 bit_simps)

text \<open>Four bytes fed one by one are 32 rounds from the register with the word added.\<close>

lemma crc_bits_le4: "32 \<le> n \<Longrightarrow> crc_bits n (le4 p0 p1 p2 p3) =
    crc_bits n (ucast p0) XOR crc_bits (n - 8) (ucast p1)
    XOR crc_bits (n - 16) (ucast p2) XOR crc_bits (n - 24) (ucast p3)"
  by (simp add: le4_xor crc_bits_xor crc_bits_push)

lemma fold_crc_byte4:
  "fold crc_byte [p0, p1, p2, p3] crc = crc_bits 32 (crc XOR le4 p0 p1 p2 p3)"
proof -
  have add: "crc_bits 8 (crc_bits m c XOR x) = crc_bits (m + 8) c XOR crc_bits 8 x" for m c x
    by (simp add: crc_bits_xor crc_bits_add)
  have "fold crc_byte [p0, p1, p2, p3] crc =
      crc_bits 32 crc XOR crc_bits 32 (ucast p0) XOR crc_bits 24 (ucast p1)
      XOR crc_bits 16 (ucast p2) XOR crc_bits 8 (ucast p3)"
    by (simp add: crc_byte_def crc_bits_xor xor.assoc crc_bits_add [symmetric])
  then show ?thesis
    by (simp add: crc_bits_xor crc_bits_le4 xor.assoc)
qed

lemma le4_bytes:
  "ucast (le4 p0 p1 p2 p3) = p0" "ucast (drop_bit 8 (le4 p0 p1 p2 p3)) = p1"
  "ucast (drop_bit 16 (le4 p0 p1 p2 p3)) = p2" "ucast (drop_bit 24 (le4 p0 p1 p2 p3)) = p3"
  by (rule bit_word_eqI; auto simp: bit_simps bit_le4)+

lemma kTables_slice:
  assumes "lo = le4 q0 q1 q2 q3"
  shows "kTables ! 7 ! unat (lo AND 0xFF) XOR kTables ! 6 ! unat (drop_bit 8 lo AND 0xFF)
      XOR kTables ! 5 ! unat (drop_bit 16 lo AND 0xFF) XOR kTables ! 4 ! unat (drop_bit 24 lo)
    = crc_bits 64 lo"
proof -
  have top: "unat (drop_bit 24 lo) = unat q3"
  proof -
    have "drop_bit 24 lo = ucast q3"
      unfolding assms by (rule bit_word_eqI) (auto simp: bit_simps bit_le4, use bit_byte_less in blast)
    then show ?thesis
      using less_trans [OF unat_byte_less [of q3], of "4294967296"]
      by (simp add: unsigned_ucast_eq take_bit_nat_eq_self_iff)
  qed
  show ?thesis
    unfolding unat_low_byte top
    by (simp add: assms le4_bytes kTables_nth crc_bits_le4)
qed

text \<open>One round of the eight-byte loop feeds its eight bytes to the register.\<close>

lemma word_eq_le4: "\<exists>q0 q1 q2 q3. (w :: u32) = le4 q0 q1 q2 q3"
proof (intro exI)
  show "w = le4 (ucast w) (ucast (drop_bit 8 w)) (ucast (drop_bit 16 w)) (ucast (drop_bit 24 w))"
    by (rule bit_word_eqI) (auto simp: bit_le4 bit_simps)
qed

lemma crc_slices_step:
  "(let lo = crc XOR (ucast p0 OR push_bit 8 (ucast p1) OR push_bit 16 (ucast p2)
                        OR push_bit 24 (ucast p3))
    in kTables ! 7 ! unat (lo AND 0xFF) XOR kTables ! 6 ! unat (drop_bit 8 lo AND 0xFF)
       XOR kTables ! 5 ! unat (drop_bit 16 lo AND 0xFF) XOR kTables ! 4 ! unat (drop_bit 24 lo)
       XOR kTables ! 3 ! unat p4 XOR kTables ! 2 ! unat p5
       XOR kTables ! 1 ! unat p6 XOR kTables ! 0 ! unat p7)
   = fold crc_byte [p0, p1, p2, p3, p4, p5, p6, p7] crc"
proof -
  define lo where "lo = crc XOR le4 p0 p1 p2 p3"
  obtain q0 q1 q2 q3 where lo: "lo = le4 q0 q1 q2 q3"
    using word_eq_le4 by blast
  have "fold crc_byte [p0, p1, p2, p3, p4, p5, p6, p7] crc
      = fold crc_byte [p4, p5, p6, p7] (fold crc_byte [p0, p1, p2, p3] crc)"
    by simp
  also have "\<dots> = crc_bits 32 (crc_bits 32 lo) XOR crc_bits 32 (le4 p4 p5 p6 p7)"
    by (simp only: fold_crc_byte4 crc_bits_xor lo_def)
  also have "\<dots> = crc_bits 64 lo XOR (kTables ! 3 ! unat p4 XOR kTables ! 2 ! unat p5
       XOR kTables ! 1 ! unat p6 XOR kTables ! 0 ! unat p7)"
    by (simp add: crc_bits_add [symmetric] crc_bits_le4 kTables_nth xor.assoc)
  finally have "fold crc_byte [p0, p1, p2, p3, p4, p5, p6, p7] crc = crc_bits 64 lo XOR
      (kTables ! 3 ! unat p4 XOR kTables ! 2 ! unat p5 XOR kTables ! 1 ! unat p6 XOR kTables ! 0 ! unat p7)" .
  then show ?thesis
    unfolding kTables_slice [OF lo, symmetric] le4_def [symmetric] Let_def
    unfolding lo_def [symmetric] by (simp only: xor.assoc)
qed

lemma crc_slices_fold:
  "crc_slices crc p = (crc', rest) \<Longrightarrow> fold crc_byte rest crc' = fold crc_byte p crc"
proof (induction crc p arbitrary: crc' rest rule: crc_slices.induct)
  case (1 crc p0 p1 p2 p3 p4 p5 p6 p7 p)
  show ?case
    using "1.IH" [OF refl, of crc' rest] "1.prems" crc_slices_step [of crc p0 p1 p2 p3 p4 p5 p6 p7]
    by (simp add: Let_def)
qed simp_all

lemma crc32_eq_fold: "crc32 bs = NOT (fold crc_byte bs 0xFFFFFFFF)"
  by (cases "crc_slices 0xFFFFFFFF bs") (simp add: crc32_def crc_tail_fold crc_slices_fold)

text \<open>
  C22: the table-driven CRC-32 of \<open>crc32.cpp\<close>, eight bytes per round and then one byte per
  round, returns on every input what the bit-by-bit definition returns.
\<close>

theorem crc32_slices_correct: "crc32 bs = crc32_bitwise bs"
  by (simp add: crc32_eq_fold crc32_bitwise_def)

section \<open>What the checksum detects\<close>

text \<open>
  The interface that an error-detecting register offers its clients: feeding a byte can be
  undone, and any \<open>w\<close> bytes fed from one state can be told apart from their result.
\<close>

locale burst_register =
  fixes feed :: "'b \<Rightarrow> 's \<Rightarrow> 's"
    and w :: nat
  assumes feed_inj: "feed b c = feed b c' \<Longrightarrow> c = c'"
    and window_inj: "length xs = w \<Longrightarrow> length ys = w \<Longrightarrow>
      fold feed xs c = fold feed ys c \<Longrightarrow> xs = ys"
begin

lemma fold_feed_inj: "fold feed p c = fold feed p c' \<Longrightarrow> c = c'"
  by (induction p arbitrary: c c') (auto dest: feed_inj)

lemma short_window_inj:
  assumes "length xs = length ys" "length ys \<le> w" "fold feed xs c = fold feed ys c"
  shows "xs = ys"
proof -
  define pad :: "'b list" where "pad = replicate (w - length ys) undefined"
  have "fold feed (xs @ pad) c = fold feed (ys @ pad) c"
    using assms(3) by simp
  then have "xs @ pad = ys @ pad"
    using assms(1,2) by (intro window_inj) (auto simp: pad_def)
  then show ?thesis by simp
qed

lemma burst_detected:
  assumes "length xs = length ys" "length ys \<le> w" "xs \<noteq> ys"
  shows "fold feed (pre @ xs @ post) c \<noteq> fold feed (pre @ ys @ post) c"
  using assms short_window_inj [of xs ys "fold feed pre c"] by (auto dest: fold_feed_inj)

text \<open>The same for two inputs that agree outside a window of \<open>w\<close> positions.\<close>

lemma agree_outside_window:
  assumes len: "length xs = length ys"
    and agree: "\<And>i. i < length ys \<Longrightarrow> i < a \<or> a + w \<le> i \<Longrightarrow> xs ! i = ys ! i"
    and eq: "fold feed xs c = fold feed ys c"
  shows "xs = ys"
proof -
  have before: "take a xs = take a ys"
    by (rule nth_equalityI) (use len agree in auto)
  have after: "drop (a + w) xs = drop (a + w) ys"
    by (rule nth_equalityI) (use len agree in auto)
  have parts: "zs = take a zs @ take w (drop a zs) @ drop (a + w) zs" for zs :: "'b list"
    by (metis append_take_drop_id drop_drop add.commute)
  have "take w (drop a xs) = take w (drop a ys)"
  proof (rule ccontr)
    assume "take w (drop a xs) \<noteq> take w (drop a ys)"
    then have "fold feed (take a ys @ take w (drop a xs) @ drop (a + w) ys) c
        \<noteq> fold feed (take a ys @ take w (drop a ys) @ drop (a + w) ys) c"
      by (intro burst_detected) (use len in auto)
    then show False
      using eq parts [of xs] parts [of ys] before after by metis
  qed
  then show ?thesis using parts [of xs] parts [of ys] before after by metis
qed

end

text \<open>A round of the register can be undone, because the polynomial has its top bit set.\<close>

lemma crc_shift_inj: "crc_shift a = crc_shift b \<Longrightarrow> a = b"
proof -
  assume eq: "crc_shift a = crc_shift b"
  have top: "bit (crc_shift c) 31 \<longleftrightarrow> bit c 0" for c
    using bit_imp_le_length [of c 32] by (auto simp: crc_shift_bit crc32_polynomial_def)
  have b0: "bit a 0 = bit b 0"
    using top [of a] top [of b] eq by simp
  have "bit a (Suc k) = bit b (Suc k)" for k
    using arg_cong [OF eq, of "\<lambda>w. bit w k"] b0 by (auto simp: crc_shift_bit)
  with b0 show "a = b"
    by (intro bit_word_eqI) (metis not0_implies_Suc)
qed

lemma crc_bits_inj [simp]: "crc_bits n a = crc_bits n b \<longleftrightarrow> a = b"
  by (induction n arbitrary: a b) (auto dest: crc_shift_inj)

text \<open>
  The register fed bit by bit, and the bits of a message in the order in which they are fed: byte by
  byte, the lowest bit of a byte first.
\<close>

definition crc_feed :: "bool \<Rightarrow> u32 \<Rightarrow> u32" where
  "crc_feed b c = crc_shift (c XOR of_bool b)"

definition message_bits :: "bytes \<Rightarrow> bool list" where
  "message_bits bs = concat (map (\<lambda>b. map (bit b) [0..<8]) bs)"

lemma message_bits_simps [simp]:
  "message_bits [] = []" "message_bits (b # bs) = map (bit b) [0..<8] @ message_bits bs"
  "message_bits (bs @ cs) = message_bits bs @ message_bits cs"
  by (simp_all add: message_bits_def)

lemma length_message_bits [simp]: "length (message_bits bs) = 8 * length bs"
  by (induction bs) simp_all

lemma nth_message_bits: "i < 8 * length bs \<Longrightarrow> message_bits bs ! i = bit (bs ! (i div 8)) (i mod 8)"
proof (induction bs arbitrary: i)
  case (Cons b bs)
  show ?case
  proof (cases "i < 8")
    case False
    then have "message_bits (b # bs) ! i = message_bits bs ! (i - 8)" by (simp add: nth_append)
    moreover have "i div 8 = Suc ((i - 8) div 8)" "i mod 8 = (i - 8) mod 8"
      using False by (simp_all add: le_div_geq le_mod_geq)
    ultimately show ?thesis using Cons.IH [of "i - 8"] Cons.prems False by simp
  qed (simp add: nth_append del: upt_Suc)
qed simp

lemma message_bits_inj: "message_bits xs = message_bits ys \<Longrightarrow> xs = ys"
proof -
  assume eq: "message_bits xs = message_bits ys"
  have "8 * length xs = 8 * length ys" by (metis eq length_message_bits)
  then have len: "length xs = length ys" by simp
  show ?thesis
  proof (rule nth_equalityI [OF len])
    fix i
    assume i: "i < length xs"
    show "xs ! i = ys ! i"
    proof (rule bit_word_eqI)
      fix k
      assume k: "k < LENGTH(8)"
      then have "(8 * i + k) div 8 = i" "(8 * i + k) mod 8 = k" "8 * i + k < 8 * length xs" using i by auto
      then show "bit (xs ! i) k \<longleftrightarrow> bit (ys ! i) k"
        using nth_message_bits [of "8 * i + k" xs] nth_message_bits [of "8 * i + k" ys] eq len by simp
    qed
  qed
qed

text \<open>A word fed bit by bit is the word added and then shifted.\<close>

lemma crc_bits_single: "n < 32 \<Longrightarrow> crc_bits n (push_bit n 1) = 1"
  by (subst crc_bits_drop) (auto simp: bit_simps intro!: bit_word_eqI)

lemma fold_crc_feed: "n \<le> 32 \<Longrightarrow> fold crc_feed (map (bit (w :: u32)) [0..<n]) c = crc_bits n (c XOR take_bit n w)"
proof (induction n)
  case (Suc n)
  let ?t = "push_bit n (of_bool (bit w n)) :: u32"
  have split: "take_bit (Suc n) w = take_bit n w XOR ?t"
    using Suc.prems by (intro bit_word_eqI) (auto simp: bit_simps less_Suc_eq)
  have "crc_bits n ?t = of_bool (bit w n)" using Suc.prems crc_bits_single [of n] by (cases "bit w n") simp_all
  then have "crc_bits n (c XOR take_bit (Suc n) w) = crc_bits n (c XOR take_bit n w) XOR of_bool (bit w n)"
    unfolding split by (simp only: crc_bits_xor xor.assoc)
  moreover have "crc_bits (Suc n) x = crc_shift (crc_bits n x)" for x
    using crc_bits_add [of n 1 x] by simp
  ultimately show ?case using Suc by (simp add: crc_feed_def)
qed simp

lemma fold_crc_byte_bits: "fold crc_byte bs c = fold crc_feed (message_bits bs) c"
proof (induction bs arbitrary: c)
  case (Cons b bs)
  have "map (bit b) [0..<8] = map (bit (ucast b :: u32)) [0..<8]"
    by (rule map_cong) (simp_all add: bit_simps del: upt_Suc)
  moreover have "take_bit 8 (ucast b :: u32) = ucast b" by (rule bit_word_eqI) (auto simp: bit_simps dest: bit_byte_less)
  ultimately have "fold crc_feed (map (bit b) [0..<8]) c = crc_byte b c"
    using fold_crc_feed [of 8 "ucast b" c] by (simp only: crc_byte_def)
  then show ?case using Cons.IH by (simp del: upt_Suc)
qed simp

lemma bits_of_word: "length bs = 32 \<Longrightarrow> \<exists>w :: u32. bs = map (bit w) [0..<32]"
  by (rule exI [of _ "horner_sum of_bool 2 bs"], rule nth_equalityI)
    (simp_all add: bit_horner_sum_bit_word_iff del: upt_Suc)

interpretation crc: burst_register crc_feed 32
proof (unfold_locales, goal_cases)
  case (1 b c c')
  then have "c XOR of_bool b = c' XOR of_bool b" unfolding crc_feed_def by (rule crc_shift_inj)
  then show ?case by simp
next
  case (2 xs ys c)
  obtain v w :: u32 where vw: "xs = map (bit v) [0..<32]" "ys = map (bit w) [0..<32]"
    using bits_of_word 2(1,2) by metis
  have "take_bit 32 x = x" for x :: u32 by (rule bit_word_eqI) (simp add: bit_simps)
  then have "v = w" using 2(3) unfolding vw by (simp add: fold_crc_feed del: upt_Suc)
  then show ?case using vw by simp
qed

text \<open>
  Two inputs of the same length that differ only in a window of at most 32 consecutive bits, which
  may begin anywhere in a byte, never have the same CRC-32: every such error burst is detected.
\<close>

theorem crc32_detects_burst:
  assumes "length xs = length ys" and "xs \<noteq> ys"
    and "\<forall>i < 8 * length ys. i < a \<or> a + 32 \<le> i \<longrightarrow> message_bits xs ! i = message_bits ys ! i"
  shows "crc32 xs \<noteq> crc32 ys"
proof
  assume "crc32 xs = crc32 ys"
  then have "fold crc_feed (message_bits xs) 0xFFFFFFFF = fold crc_feed (message_bits ys) 0xFFFFFFFF"
    by (simp add: crc32_eq_fold fold_crc_byte_bits)
  then have "message_bits xs = message_bits ys"
    using crc.agree_outside_window [of "message_bits xs" "message_bits ys" a] assms(1,3) by simp
  with assms(2) message_bits_inj show False by blast
qed

theorem crc32_detects_burst_witness: "crc32 [7, 0x10, 0, 0, 0, 6] \<noteq> crc32 [7, 0, 0, 0, 0xF, 6]"
proof (rule crc32_detects_burst [where a = 12])
  show "\<forall>i < 8 * length [7, 0, 0, 0, 0xF, 6 :: byte]. i < 12 \<or> 12 + 32 \<le> i \<longrightarrow>
      message_bits [7, 0x10, 0, 0, 0, 6] ! i = message_bits [7, 0, 0, 0, 0xF, 6] ! i"
    by (simp add: message_bits_def All_less_Suc numeral_eq_Suc)
qed simp_all

text \<open>The check value that the CRC catalogues list for the ASCII string \<open>123456789\<close>.\<close>

lemma crc32_check_value:
  "crc32 [0x31, 0x32, 0x33, 0x34, 0x35, 0x36, 0x37, 0x38, 0x39] = 0xCBF43926"
  by (simp add: crc32_eq_fold crc_byte_def crc_bits_numeral crc_shift_def crc32_polynomial_def)

end
