(* ===== verification/Frame.thy ===== *)
theory Frame imports Little_Endian Crc32 begin

text \<open>
  \<open>common/frame.h\<close> and \<open>common/frame.cpp\<close>: the wire frame of protocol version 2, its
  serialisation, its deserialisation and its validation.  A thrown \<open>std::runtime_error\<close> is
  \<open>Inl\<close> of its message.  \<open>deserialize_frame_into\<close> also returns the frame object it was
  given by reference, because the code assigns the header before it can still throw.
\<close>

unbundle bit_operations_syntax

section \<open>Constants and data\<close>

definition kFrameMagic :: u32 where "kFrameMagic = 0x434D4231"
definition kProtocolVersion :: u16 where "kProtocolVersion = 2"
definition kChannelCount :: u16 where "kChannelCount = 1704"
definition kSampleRateHz :: u16 where "kSampleRateHz = 200"
definition kMaxSampleRateHz :: u16 where "kMaxSampleRateHz = 1000"
definition kSampleFormatComplexInt32 :: u16 where "kSampleFormatComplexInt32 = 1"
definition kSampleBytes :: nat where "kSampleBytes = 2 * 4"
definition kPayloadBytes :: nat where "kPayloadBytes = unat kChannelCount * kSampleBytes"
definition kHeaderSize :: nat where "kHeaderSize = 44"
definition kFramePrefixSize :: nat where "kFramePrefixSize = 4"
definition kFrameCrcSize :: nat where "kFrameCrcSize = 4"
definition kWireFrameSize :: nat where
  "kWireFrameSize = kFramePrefixSize + kHeaderSize + kPayloadBytes + kFrameCrcSize"
definition kFrameIdWireOffset :: nat where "kFrameIdWireOffset = kFramePrefixSize + 12"

record frame_header =
  hdr_magic :: u32
  hdr_version :: u16
  hdr_header_size :: u16
  hdr_module_id :: u16
  hdr_flags :: u16
  hdr_frame_id :: u64
  hdr_timestamp_ns :: u64
  hdr_channel_count :: u16
  hdr_sample_rate_hz :: u16
  hdr_sample_format :: u16
  hdr_reserved :: u16
  hdr_payload_len :: u32
  hdr_header_crc :: u32

text \<open>The default member initialisers: \<open>FrameHeader{}\<close>.\<close>

definition default_header :: frame_header where
  "default_header =
     \<lparr>hdr_magic = kFrameMagic, hdr_version = kProtocolVersion, hdr_header_size = of_nat kHeaderSize,
      hdr_module_id = 0, hdr_flags = 0, hdr_frame_id = 0, hdr_timestamp_ns = 0,
      hdr_channel_count = kChannelCount, hdr_sample_rate_hz = kSampleRateHz,
      hdr_sample_format = kSampleFormatComplexInt32, hdr_reserved = 0,
      hdr_payload_len = of_nat kPayloadBytes, hdr_header_crc = 0\<rparr>"

text \<open>The two \<open>int32_t\<close> parts are 32-bit words; \<open>sint\<close> reads them.\<close>

record complex_sample =
  re :: u32
  im :: u32

definition default_sample :: complex_sample where
  "default_sample = \<lparr>re = 0, im = 0\<rparr>"

record frame =
  fr_header :: frame_header
  fr_payload :: "complex_sample list"
  fr_payload_crc :: u32

definition default_frame :: frame where
  "default_frame = \<lparr>fr_header = default_header, fr_payload = [], fr_payload_crc = 0\<rparr>"

section \<open>The header\<close>

definition encode_header :: "frame_header \<Rightarrow> bytes" where
  "encode_header header =
     (let s = (replicate kHeaderSize 0, 0);
          s = put_le_at (hdr_magic header) s;
          s = put_le_at (hdr_version header) s;
          s = put_le_at (hdr_header_size header) s;
          s = put_le_at (hdr_module_id header) s;
          s = put_le_at (hdr_flags header) s;
          s = put_le_at (hdr_frame_id header) s;
          s = put_le_at (hdr_timestamp_ns header) s;
          s = put_le_at (hdr_channel_count header) s;
          s = put_le_at (hdr_sample_rate_hz header) s;
          s = put_le_at (hdr_sample_format header) s;
          s = put_le_at (hdr_reserved header) s;
          s = put_le_at (hdr_payload_len header) s;
          s = put_le_at (hdr_header_crc header) s
      in fst s)"

definition decode_header :: "bytes \<Rightarrow> string + frame_header" where
  "decode_header bytes =
     (if length bytes < kHeaderSize then Inl ''header too short''
      else
        let (f_magic, offset) = get_le bytes 0;
            (f_version, offset) = get_le bytes offset;
            (f_header_size, offset) = get_le bytes offset;
            (f_module_id, offset) = get_le bytes offset;
            (f_flags, offset) = get_le bytes offset;
            (f_frame_id, offset) = get_le bytes offset;
            (f_timestamp_ns, offset) = get_le bytes offset;
            (f_channel_count, offset) = get_le bytes offset;
            (f_sample_rate_hz, offset) = get_le bytes offset;
            (f_sample_format, offset) = get_le bytes offset;
            (f_reserved, offset) = get_le bytes offset;
            (f_payload_len, offset) = get_le bytes offset;
            (f_header_crc, offset) = get_le bytes offset
        in Inr \<lparr>hdr_magic = f_magic, hdr_version = f_version, hdr_header_size = f_header_size,
                hdr_module_id = f_module_id, hdr_flags = f_flags, hdr_frame_id = f_frame_id,
                hdr_timestamp_ns = f_timestamp_ns, hdr_channel_count = f_channel_count,
                hdr_sample_rate_hz = f_sample_rate_hz, hdr_sample_format = f_sample_format,
                hdr_reserved = f_reserved, hdr_payload_len = f_payload_len,
                hdr_header_crc = f_header_crc\<rparr>)"

section \<open>The payload\<close>

text \<open>
  \<open>encode_payload\<close> writes through a pointer into a buffer that its callers have sized; the
  pointer is the index \<open>out\<close>.  A write past the buffer is undefined in the code and lost in
  the model; \<open>serialize_frame_into\<close> sizes the buffer by \<open>payload_len\<close>, which is the
  encoded size of every payload of fewer than \<open>2 ^ 29\<close> samples.
\<close>

definition encode_part :: "u32 \<Rightarrow> bytes \<times> nat \<Rightarrow> bytes \<times> nat" where
  "encode_part value s =
     fold (\<lambda>i (buf, out). (buf[out := le_byte value i], Suc out)) [0..<4] s"

definition encode_payload :: "complex_sample list \<Rightarrow> bytes \<Rightarrow> nat \<Rightarrow> bytes" where
  "encode_payload samples buf out =
     fst (fold (\<lambda>sample s. fold encode_part [re sample, im sample] s) samples (buf, out))"

definition payload_crc :: "complex_sample list \<Rightarrow> u32" where
  "payload_crc samples =
     crc32 (encode_payload samples (replicate (length samples * kSampleBytes) 0) 0)"

section \<open>Frames\<close>

definition serialize_frame_into :: "frame \<Rightarrow> bytes \<Rightarrow> bytes" where
  "serialize_frame_into frame result =
     (let header = fr_header frame;
          header = header\<lparr>hdr_payload_len := of_nat (length (fr_payload frame) * kSampleBytes)\<rparr>;
          header = header\<lparr>hdr_header_crc := 0\<rparr>;
          header_bytes = encode_header header;
          header = header\<lparr>hdr_header_crc := crc32 header_bytes\<rparr>;
          header_bytes = encode_header header;
          result = [];
          header_len = (of_nat (length header_bytes) :: u32);
          result = put_le result header_len;
          result = result @ header_bytes;
          payload_offset = length result;
          result = result @ replicate (unat (hdr_payload_len header)) 0;
          result = encode_payload (fr_payload frame) result payload_offset;
          payload_crc_value = crc32 (slice payload_offset (unat (hdr_payload_len header)) result)
      in put_le result payload_crc_value)"

definition serialize_frame :: "frame \<Rightarrow> bytes" where
  "serialize_frame frame = serialize_frame_into frame []"

text \<open>The loop over the resized payload: every element is overwritten.\<close>

primrec decode_samples :: "bytes \<Rightarrow> nat \<Rightarrow> nat \<Rightarrow> complex_sample list \<times> nat" where
  "decode_samples bytes 0 cursor = ([], cursor)"
| "decode_samples bytes (Suc n) cursor =
     (let (re_value, cursor) = get_le bytes cursor;
          (im_value, cursor) = get_le bytes cursor;
          (samples, cursor) = decode_samples bytes n cursor
      in (\<lparr>re = re_value, im = im_value\<rparr> # samples, cursor))"

definition deserialize_frame_into :: "bytes \<Rightarrow> frame \<Rightarrow> (string + unit) \<times> frame" where
  "deserialize_frame_into bytes frame =
     (if length bytes < kFramePrefixSize + kHeaderSize + kFrameCrcSize
      then (Inl ''frame too short'', frame)
      else
        let (header_len, prefix_offset) = (get_le bytes 0 :: u32 \<times> nat)
        in if unat header_len \<noteq> kHeaderSize then (Inl ''unexpected header length'', frame)
        else
          case decode_header (slice kFramePrefixSize (unat header_len) bytes) of
            Inl message \<Rightarrow> (Inl message, frame)
          | Inr header \<Rightarrow>
              let frame = frame\<lparr>fr_header := header\<rparr>;
                  payload_len = unat (hdr_payload_len header)
              in if payload_len mod kSampleBytes \<noteq> 0
                 then (Inl ''payload length is not a whole number of complex samples'', frame)
                 else if payload_len \<noteq> kPayloadBytes then (Inl ''unexpected payload length'', frame)
                 else if length bytes \<noteq> kFramePrefixSize + unat header_len + payload_len + kFrameCrcSize
                 then (Inl ''frame length mismatch'', frame)
                 else
                   let (samples, payload_cursor) =
                         decode_samples bytes (payload_len div kSampleBytes)
                           (kFramePrefixSize + unat header_len);
                       (crc, payload_cursor) = get_le bytes payload_cursor
                   in (Inr (), frame\<lparr>fr_payload := samples, fr_payload_crc := crc\<rparr>))"

definition deserialize_frame :: "bytes \<Rightarrow> string + frame" where
  "deserialize_frame bytes =
     (case deserialize_frame_into bytes default_frame of
        (Inl message, frame) \<Rightarrow> Inl message
      | (Inr _, frame) \<Rightarrow> Inr frame)"

definition validate_frame :: "frame \<Rightarrow> string" where
  "validate_frame frame =
     (if hdr_magic (fr_header frame) \<noteq> kFrameMagic then ''bad magic''
      else if hdr_version (fr_header frame) \<noteq> kProtocolVersion then ''unsupported version''
      else if unat (hdr_header_size (fr_header frame)) \<noteq> kHeaderSize then ''bad header size''
      else if hdr_channel_count (fr_header frame) \<noteq> kChannelCount then ''unexpected channel count''
      else if hdr_sample_rate_hz (fr_header frame) = 0 \<or> hdr_sample_rate_hz (fr_header frame) > kMaxSampleRateHz
      then ''unexpected sample rate''
      else if hdr_sample_format (fr_header frame) \<noteq> kSampleFormatComplexInt32
      then ''unexpected sample format''
      else if unat (hdr_payload_len (fr_header frame)) \<noteq> length (fr_payload frame) * kSampleBytes
      then ''payload length mismatch''
      else
        let stored_crc = hdr_header_crc (fr_header frame);
            header = (fr_header frame)\<lparr>hdr_header_crc := 0\<rparr>;
            expected_header_crc = crc32 (encode_header header)
        in if stored_crc \<noteq> expected_header_crc then ''header crc mismatch''
           else if fr_payload_crc frame \<noteq> payload_crc (fr_payload frame) then ''payload crc mismatch''
           else '''')"

section \<open>Sizes\<close>

lemma kHeaderSize_eq [simp]: "kHeaderSize = 44"
  by (simp add: kHeaderSize_def)

lemma kFramePrefixSize_eq [simp]: "kFramePrefixSize = 4"
  by (simp add: kFramePrefixSize_def)

lemma kFrameCrcSize_eq [simp]: "kFrameCrcSize = 4"
  by (simp add: kFrameCrcSize_def)

lemma kSampleBytes_eq [simp]: "kSampleBytes = 8"
  by (simp add: kSampleBytes_def)

lemma unat_kChannelCount [simp]: "unat kChannelCount = 1704"
  by (simp add: kChannelCount_def)

lemma kPayloadBytes_eq [simp]: "kPayloadBytes = 13632"
  by (simp add: kPayloadBytes_def)

lemma kWireFrameSize_eq [simp]: "kWireFrameSize = 13684"
  by (simp add: kWireFrameSize_def)

lemma kFrameIdWireOffset_eq [simp]: "kFrameIdWireOffset = 16"
  by (simp add: kFrameIdWireOffset_def)

section \<open>The header is a fixed-width encoding\<close>

text \<open>The layout: the fields one after the other, each little-endian, with no padding.\<close>

definition header_layout :: "frame_header \<Rightarrow> bytes" where
  "header_layout h =
     le_bytes (hdr_magic h) @ le_bytes (hdr_version h) @ le_bytes (hdr_header_size h)
     @ le_bytes (hdr_module_id h) @ le_bytes (hdr_flags h) @ le_bytes (hdr_frame_id h)
     @ le_bytes (hdr_timestamp_ns h) @ le_bytes (hdr_channel_count h)
     @ le_bytes (hdr_sample_rate_hz h) @ le_bytes (hdr_sample_format h)
     @ le_bytes (hdr_reserved h) @ le_bytes (hdr_payload_len h) @ le_bytes (hdr_header_crc h)"

definition header_at :: "bytes \<Rightarrow> frame_header" where
  "header_at bs =
     \<lparr>hdr_magic = le_word (slice 0 4 bs), hdr_version = le_word (slice 4 2 bs),
      hdr_header_size = le_word (slice 6 2 bs), hdr_module_id = le_word (slice 8 2 bs),
      hdr_flags = le_word (slice 10 2 bs), hdr_frame_id = le_word (slice 12 8 bs),
      hdr_timestamp_ns = le_word (slice 20 8 bs), hdr_channel_count = le_word (slice 28 2 bs),
      hdr_sample_rate_hz = le_word (slice 30 2 bs), hdr_sample_format = le_word (slice 32 2 bs),
      hdr_reserved = le_word (slice 34 2 bs), hdr_payload_len = le_word (slice 36 4 bs),
      hdr_header_crc = le_word (slice 40 4 bs)\<rparr>"

lemma put_le_at_start:
  "LENGTH('a) div 8 \<le> m \<Longrightarrow> put_le_at (v :: 'a::len word) (replicate m 0, 0)
    = (le_bytes v @ replicate (m - LENGTH('a) div 8) 0, LENGTH('a) div 8)"
  using put_le_at_eq [of m v "[]"] by (simp add: length_le_bytes)

lemma put_le_at_next:
  "length xs = n \<Longrightarrow> LENGTH('a) div 8 \<le> m \<Longrightarrow> put_le_at (v :: 'a::len word) (xs @ replicate m 0, n)
    = ((xs @ le_bytes v) @ replicate (m - LENGTH('a) div 8) 0, n + LENGTH('a) div 8)"
  using put_le_at_eq [of m v xs] by (simp add: length_le_bytes)

lemma encode_header_layout: "encode_header h = header_layout h"
  by (simp add: encode_header_def header_layout_def put_le_at_start put_le_at_next length_le_bytes
      append_assoc [symmetric] del: append_assoc)

lemma decode_header_at: "44 \<le> length bs \<Longrightarrow> decode_header bs = Inr (header_at bs)"
  by (simp add: decode_header_def header_at_def get_le_eq Let_def)

lemma length_header_layout: "length (header_layout h) = 44"
  by (simp add: header_layout_def length_le_bytes)

lemma header_at_layout: "header_at (header_layout h) = h"
  by (simp add: header_at_def header_layout_def slice_append_left slice_append_right
      length_le_bytes le_dec_enc)

lemma header_layout_at: "length bs = 44 \<Longrightarrow> header_layout (header_at bs) = bs"
proof -
  assume len: "length bs = 44"
  have "bs = slice 0 (4+2+2+2+2+8+8+2+2+2+2+4+4) bs"
    using len by simp
  also have "\<dots> = header_layout (header_at bs)"
    using len by (simp only: slice_add) (simp add: header_layout_def header_at_def le_enc_dec)
  finally show ?thesis by simp
qed

interpretation hdr: codec header_layout header_at 44
  by unfold_locales (simp_all add: length_header_layout header_at_layout header_layout_at)

text \<open>The checksum field is the last one.\<close>

lemma header_layout_crc:
  "header_layout (h\<lparr>hdr_header_crc := c\<rparr>) = take 40 (header_layout h) @ le_bytes c"
  by (simp add: header_layout_def length_le_bytes)

section \<open>The payload is an array of fixed-width samples\<close>

definition sample_layout :: "complex_sample \<Rightarrow> bytes" where
  "sample_layout s = le_bytes (re s) @ le_bytes (im s)"

definition sample_at :: "bytes \<Rightarrow> complex_sample" where
  "sample_at bs = \<lparr>re = le_word (slice 0 4 bs), im = le_word (slice 4 4 bs)\<rparr>"

interpretation smp: codec sample_layout sample_at 8
proof (unfold_locales, goal_cases)
  case (1 v)
  show ?case by (simp add: sample_layout_def length_le_bytes)
next
  case (2 v)
  show ?case
    by (simp add: sample_layout_def sample_at_def slice_append_left slice_append_right
        length_le_bytes le_dec_enc)
next
  case (3 bs)
  then have "bs = slice 0 (4 + 4) bs" by simp
  also have "\<dots> = sample_layout (sample_at bs)"
    using 3 by (simp only: slice_add) (simp add: sample_layout_def sample_at_def le_enc_dec)
  finally show ?case by simp
qed

definition payload_layout :: "complex_sample list \<Rightarrow> bytes" where
  "payload_layout samples = concat (map sample_layout samples)"

lemma length_payload_layout [simp]: "length (payload_layout samples) = 8 * length samples"
  by (simp add: payload_layout_def smp.length_concat_enc)

lemma encode_part_at:
  "4 \<le> m \<Longrightarrow> encode_part v (xs @ replicate m 0, length xs)
    = ((xs @ le_bytes v) @ replicate (m - 4) 0, length (xs @ le_bytes v))"
  using put_le_at_eq [of m v xs] by (simp add: encode_part_def put_le_at_def)

lemma encode_payload_fold:
  "8 * length samples \<le> m \<Longrightarrow>
    fold (\<lambda>sample s. encode_part (im sample) (encode_part (re sample) s)) samples (xs @ replicate m 0, length xs)
    = ((xs @ payload_layout samples) @ replicate (m - 8 * length samples) 0,
       length (xs @ payload_layout samples))"
proof (induction samples arbitrary: xs m)
  case Nil
  then show ?case by (simp add: payload_layout_def)
next
  case (Cons s samples)
  have step: "encode_part (im s) (encode_part (re s) (xs @ replicate m 0, length xs))
      = ((xs @ sample_layout s) @ replicate (m - 8) 0, length (xs @ sample_layout s))"
    using Cons.prems encode_part_at [of m "re s" xs] encode_part_at [of "m - 4" "im s" "xs @ le_bytes (re s)"]
    by (simp add: sample_layout_def)
  have "8 * length samples \<le> m - 8" using Cons.prems by simp
  from Cons.IH [OF this, of "xs @ sample_layout s"] show ?case
    by (simp only: fold_Cons o_def step) (simp add: payload_layout_def)
qed

lemma encode_payload_layout:
  "8 * length samples \<le> m \<Longrightarrow> encode_payload samples (xs @ replicate m 0) (length xs)
    = xs @ payload_layout samples @ replicate (m - 8 * length samples) 0"
  by (simp add: encode_payload_def encode_payload_fold)

lemma payload_crc_layout: "payload_crc samples = crc32 (payload_layout samples)"
  using encode_payload_layout [of samples "length samples * 8" "[]"]
  by (simp add: payload_crc_def mult.commute)

lemma decode_samples_at:
  "cursor + 8 * n \<le> length bs \<Longrightarrow> decode_samples bs n cursor
    = (map (\<lambda>i. sample_at (slice (8 * i) 8 (slice cursor (8 * n) bs))) [0..<n], cursor + 8 * n)"
proof (induction n arbitrary: cursor)
  case 0
  show ?case by simp
next
  case (Suc n)
  have head: "sample_at (slice 0 8 (slice cursor (8 * Suc n) bs))
      = \<lparr>re = le_word (slice cursor 4 bs), im = le_word (slice (cursor + 4) 4 bs)\<rparr>"
    by (simp add: sample_at_def slice_slice)
  have tail: "slice (8 * Suc i) 8 (slice cursor (8 * Suc n) bs) = slice (8 * i) 8 (slice (cursor + 8) (8 * n) bs)"
    if "i < n" for i
    using that by (simp add: slice_slice add.assoc)
  have "map (\<lambda>i. sample_at (slice (8 * i) 8 (slice cursor (8 * Suc n) bs))) [0..<Suc n]
      = sample_at (slice 0 8 (slice cursor (8 * Suc n) bs))
        # map (\<lambda>i. sample_at (slice (8 * Suc i) 8 (slice cursor (8 * Suc n) bs))) [0..<n]"
    by (simp add: upt_rec [of 0 "Suc n"] map_Suc_upt [symmetric] del: upt_Suc)
  also have "\<dots> = \<lparr>re = le_word (slice cursor 4 bs), im = le_word (slice (cursor + 4) 4 bs)\<rparr>
        # map (\<lambda>i. sample_at (slice (8 * i) 8 (slice (cursor + 8) (8 * n) bs))) [0..<n]"
    unfolding head by (simp only: list.inject simp_thms) (rule map_cong, auto simp: tail simp del: mult_Suc_right)
  finally show ?case
    using Suc.prems Suc.IH [of "cursor + 8"] by (simp add: get_le_eq add.commute [of 8 cursor] del: upt_Suc)
qed

definition payload_at :: "bytes \<Rightarrow> complex_sample list" where
  "payload_at bs = map (\<lambda>i. sample_at (slice (8 * i) 8 bs)) [0..<length bs div 8]"

lemma payload_at_layout [simp]: "payload_at (payload_layout samples) = samples"
  using smp.map_dec_concat [of samples] by (simp add: payload_at_def payload_layout_def smp.length_concat_enc)

lemma payload_layout_at: "8 dvd length bs \<Longrightarrow> payload_layout (payload_at bs) = bs"
  using smp.concat_enc_dec [of bs "length bs div 8"]
  by (simp add: payload_at_def payload_layout_def comp_def)

lemma length_payload_at [simp]: "length (payload_at bs) = length bs div 8"
  by (simp add: payload_at_def)

section \<open>Serialised frames\<close>

text \<open>The header as it is written: its length and checksum fields are always recomputed.\<close>

definition sealed_header :: "frame \<Rightarrow> frame_header" where
  "sealed_header f =
     (let h = (fr_header f)\<lparr>hdr_payload_len := of_nat (8 * length (fr_payload f)), hdr_header_crc := 0\<rparr>
      in h\<lparr>hdr_header_crc := crc32 (header_layout h)\<rparr>)"

text \<open>What the receiver finds in the bytes of a serialised frame.\<close>

definition sealed_frame :: "frame \<Rightarrow> frame" where
  "sealed_frame f =
     \<lparr>fr_header = sealed_header f, fr_payload = fr_payload f,
      fr_payload_crc = payload_crc (fr_payload f)\<rparr>"

definition wire_layout :: "frame \<Rightarrow> bytes" where
  "wire_layout f =
     le_bytes (44 :: u32) @ header_layout (fr_header f)
     @ payload_layout (fr_payload f) @ le_bytes (fr_payload_crc f)"

lemma serialize_frame_into_ignores: "serialize_frame_into f result = serialize_frame f"
  by (simp add: serialize_frame_into_def serialize_frame_def)

lemma length_wire_layout [simp]: "length (wire_layout f) = 52 + 8 * length (fr_payload f)"
  by (simp add: wire_layout_def length_le_bytes length_header_layout)

lemma serialize_frame_layout:
  assumes "8 * length (fr_payload f) < 2 ^ 32"
  shows "serialize_frame f = wire_layout (sealed_frame f)"
proof -
  let ?n = "8 * length (fr_payload f)"
  have n: "unat (of_nat ?n :: u32) = ?n"
    using assms by (intro word_less_of_nat) simp
  have pos: "length (le_bytes (44 :: u32) @ header_layout (sealed_header f)) = 48"
    by (simp add: length_le_bytes length_header_layout)
  have enc: "encode_payload (fr_payload f)
        ((le_bytes (44 :: u32) @ header_layout (sealed_header f)) @ replicate ?n 0) 48
      = (le_bytes (44 :: u32) @ header_layout (sealed_header f)) @ payload_layout (fr_payload f)"
    using encode_payload_layout [of "fr_payload f" ?n "le_bytes (44 :: u32) @ header_layout (sealed_header f)"]
    by (simp add: pos [simplified])
  have crc: "slice 48 ?n ((le_bytes (44 :: u32) @ header_layout (sealed_header f)) @ payload_layout (fr_payload f))
      = payload_layout (fr_payload f)"
    using pos by (simp add: slice_append_right)
  show ?thesis
    using enc crc n
    by (simp add: serialize_frame_def serialize_frame_into_def wire_layout_def sealed_frame_def Let_def
        encode_header_layout length_header_layout length_le_bytes put_le_eq payload_crc_layout
        sealed_header_def mult.commute [of _ 8])
qed

section \<open>Deserialised frames\<close>

text \<open>The frame that a wire image of the expected size holds.\<close>

definition frame_at :: "bytes \<Rightarrow> frame" where
  "frame_at bs =
     \<lparr>fr_header = header_at (slice 4 44 bs), fr_payload = payload_at (slice 48 13632 bs),
      fr_payload_crc = le_word (slice 13680 4 bs)\<rparr>"

definition well_sized :: "bytes \<Rightarrow> bool" where
  "well_sized bs \<longleftrightarrow> length bs = kWireFrameSize \<and> (le_word (slice 0 4 bs) :: u32) = 44
     \<and> unat (hdr_payload_len (header_at (slice 4 44 bs))) = kPayloadBytes"

lemma decode_header_span:
  "52 \<le> length bs \<Longrightarrow> decode_header (slice 4 44 bs) = Inr (header_at (slice 4 44 bs))"
  by (rule decode_header_at) simp

lemma unat_44_iff: "unat (w :: u32) = 44 \<longleftrightarrow> w = 44"
  using word_unat_eq_iff [of w 44] by simp

lemma deserialize_well_sized:
  assumes "well_sized bs"
  shows "deserialize_frame_into bs f0 = (Inr (), frame_at bs)"
  using assms
  by (simp add: well_sized_def deserialize_frame_into_def decode_header_span get_le_eq
      decode_samples_at payload_at_def frame_at_def del: upt_Suc)

lemma deserialize_ok_iff: "fst (deserialize_frame_into bs f0) = Inr () \<longleftrightarrow> well_sized bs"
proof
  assume "well_sized bs"
  then show "fst (deserialize_frame_into bs f0) = Inr ()" by (simp add: deserialize_well_sized)
next
  assume "fst (deserialize_frame_into bs f0) = Inr ()"
  then show "well_sized bs"
    by (auto simp: well_sized_def deserialize_frame_into_def get_le_eq decode_header_span
        unat_44_iff Let_def split: if_splits prod.splits)
qed

lemma deserialize_frame_iff:
  "deserialize_frame bs = Inr f \<longleftrightarrow> well_sized bs \<and> f = frame_at bs"
proof (cases "well_sized bs")
  case True
  then show ?thesis by (auto simp: deserialize_frame_def deserialize_well_sized)
next
  case False
  then have "fst (deserialize_frame_into bs default_frame) \<noteq> Inr ()"
    by (simp add: deserialize_ok_iff)
  with False show ?thesis
    by (auto simp: deserialize_frame_def split: prod.splits sum.splits)
qed

text \<open>Bytes and frames of full size determine each other.\<close>

lemma frame_at_wire_layout:
  "length (fr_payload f) = 1704 \<Longrightarrow> frame_at (wire_layout f) = f"
  by (simp add: frame_at_def wire_layout_def slice_append_left slice_append_right
      length_le_bytes length_header_layout header_at_layout le_dec_enc)

lemma wire_layout_frame_at:
  assumes "well_sized bs"
  shows "wire_layout (frame_at bs) = bs"
proof -
  have len: "length bs = 13684" and prefix: "(le_word (slice 0 4 bs) :: u32) = 44"
    using assms by (simp_all add: well_sized_def)
  have "le_bytes (44 :: u32) = slice 0 4 bs"
    using len prefix le32.enc_dec [of "slice 0 4 bs"] by simp
  then have "wire_layout (frame_at bs) = slice 0 4 bs @ slice (0 + 4) 44 bs @ slice (0 + 4 + 44) 13632 bs
      @ slice (0 + 4 + 44 + 13632) 4 bs"
    using len by (simp add: wire_layout_def frame_at_def header_layout_at payload_layout_at le_enc_dec)
  also have "\<dots> = slice 0 (4 + 44 + 13632 + 4) bs"
    by (simp only: slice_add append_assoc add.assoc)
  finally show ?thesis using len by simp
qed

lemma length_fr_payload_at [simp]: "length bs = 13684 \<Longrightarrow> length (fr_payload (frame_at bs)) = 1704"
  by (simp add: frame_at_def)

lemma well_sized_wire_layout:
  "length (fr_payload f) = 1704 \<Longrightarrow> well_sized (wire_layout f) \<longleftrightarrow> hdr_payload_len (fr_header f) = 13632"
proof -
  assume len: "length (fr_payload f) = 1704"
  have "header_at (slice 4 44 (wire_layout f)) = fr_header f"
    using arg_cong [OF frame_at_wire_layout [OF len], of fr_header] by (simp add: frame_at_def)
  moreover have "unat (w :: u32) = 13632 \<longleftrightarrow> w = 13632" for w
    using word_unat_eq_iff [of w 13632] by simp
  moreover have "(le_word (slice 0 4 (wire_layout f)) :: u32) = 44"
    by (simp add: wire_layout_def slice_append_left length_le_bytes le_dec_enc)
  ultimately show ?thesis using len by (simp add: well_sized_def)
qed

section \<open>Validation\<close>

text \<open>The fields whose values the protocol fixes.\<close>

definition header_fields_ok :: "frame_header \<Rightarrow> bool" where
  "header_fields_ok h \<longleftrightarrow> hdr_magic h = kFrameMagic \<and> hdr_version h = kProtocolVersion
     \<and> unat (hdr_header_size h) = kHeaderSize \<and> hdr_channel_count h = kChannelCount
     \<and> 0 < hdr_sample_rate_hz h \<and> hdr_sample_rate_hz h \<le> kMaxSampleRateHz
     \<and> hdr_sample_format h = kSampleFormatComplexInt32"

text \<open>A header is sealed when it stores the checksum of itself with a zero checksum field.\<close>

definition header_sealed :: "frame_header \<Rightarrow> bool" where
  "header_sealed h \<longleftrightarrow> hdr_header_crc h = crc32 (header_layout (h\<lparr>hdr_header_crc := 0\<rparr>))"

lemma validate_frame_ok_iff:
  "validate_frame f = '''' \<longleftrightarrow> header_fields_ok (fr_header f) \<and> header_sealed (fr_header f)
     \<and> unat (hdr_payload_len (fr_header f)) = 8 * length (fr_payload f)
     \<and> fr_payload_crc f = crc32 (payload_layout (fr_payload f))"
  by (auto simp: validate_frame_def header_fields_ok_def header_sealed_def Let_def
      encode_header_layout payload_crc_layout word_gt_0 not_le)

lemma header_sealed_sealed [simp]: "header_sealed (sealed_header f)"
  by (simp add: header_sealed_def sealed_header_def Let_def)

lemma sealed_frame_fields [simp]:
  "fr_payload (sealed_frame f) = fr_payload f" "fr_header (sealed_frame f) = sealed_header f"
  "fr_payload_crc (sealed_frame f) = payload_crc (fr_payload f)"
  by (simp_all add: sealed_frame_def)

lemma sealed_header_fields [simp]:
  "hdr_payload_len (sealed_header f) = of_nat (8 * length (fr_payload f))"
  "hdr_frame_id (sealed_header f) = hdr_frame_id (fr_header f)"
  "hdr_module_id (sealed_header f) = hdr_module_id (fr_header f)"
  "hdr_sample_rate_hz (sealed_header f) = hdr_sample_rate_hz (fr_header f)"
  "hdr_timestamp_ns (sealed_header f) = hdr_timestamp_ns (fr_header f)"
  "header_fields_ok (sealed_header f) = header_fields_ok (fr_header f)"
  by (simp_all add: sealed_header_def header_fields_ok_def Let_def)

lemma sealed_frame_of_valid:
  assumes "validate_frame f = ''''"
  shows "sealed_frame f = f"
proof -
  have *: "header_sealed (fr_header f)" "unat (hdr_payload_len (fr_header f)) = 8 * length (fr_payload f)"
    "fr_payload_crc f = crc32 (payload_layout (fr_payload f))"
    using assms(1) by (simp_all add: validate_frame_ok_iff)
  have "of_nat (8 * length (fr_payload f)) = hdr_payload_len (fr_header f)"
    by (simp only: *(2) [symmetric] of_nat_unat ucast_id)
  then have "sealed_header f = fr_header f"
    using *(1) by (simp add: sealed_header_def header_sealed_def Let_def)
  then show ?thesis
    using *(3) by (simp add: sealed_frame_def payload_crc_layout)
qed

section \<open>Properties\<close>

text \<open>A frame of full size with the default header, at which the properties are instantiated.\<close>

definition example_frame :: frame where
  "example_frame = default_frame\<lparr>fr_payload := replicate 1704 \<lparr>re = 7, im = 8\<rparr>\<rparr>"

lemma example_frame_payload [simp]: "length (fr_payload example_frame) = 1704"
  by (simp add: example_frame_def)

lemma header_fields_ok_default [simp]: "header_fields_ok default_header"
  by (simp add: header_fields_ok_def default_header_def kMaxSampleRateHz_def kSampleRateHz_def)

lemma example_frame_header [simp]: "fr_header example_frame = default_header"
  by (simp add: example_frame_def default_frame_def)

text \<open>
  C8: a frame with all its 1704 channels survives the wire: deserialising its serialisation
  gives the frame back, with the length and the two checksums that serialisation computes.
\<close>

theorem frame_roundtrip:
  assumes "length (fr_payload f) = unat kChannelCount"
  shows "deserialize_frame (serialize_frame f) = Inr (sealed_frame f)"
  using assms by (simp add: serialize_frame_layout deserialize_frame_iff well_sized_wire_layout
      frame_at_wire_layout)

theorem frame_roundtrip_witness:
  "deserialize_frame (serialize_frame example_frame)
    = Inr (sealed_frame example_frame)"
  by (rule frame_roundtrip) simp

text \<open>
  A serialised frame passes validation exactly when the fields that the protocol fixes have
  their values: serialisation itself always leaves correct lengths and checksums.
\<close>

theorem serialized_frame_valid_iff:
  assumes "length (fr_payload f) = unat kChannelCount"
  shows "(\<exists>g. deserialize_frame (serialize_frame f) = Inr g \<and> validate_frame g = '''')
    \<longleftrightarrow> header_fields_ok (fr_header f)"
  using assms by (simp add: serialize_frame_layout deserialize_frame_iff well_sized_wire_layout
      frame_at_wire_layout validate_frame_ok_iff payload_crc_layout)

theorem serialized_frame_valid_iff_witness:
  "\<exists>g. deserialize_frame (serialize_frame example_frame) = Inr g
     \<and> validate_frame g = ''''"
  by (subst serialized_frame_valid_iff) simp_all

text \<open>
  C9: the encoding is canonical.  Bytes that deserialise to a valid frame are exactly the bytes
  that serialising that frame gives, so the receiver may store what it received unchanged.
\<close>

theorem valid_bytes_canonical:
  assumes "deserialize_frame bs = Inr f" and "validate_frame f = ''''"
  shows "serialize_frame f = bs"
proof -
  have ws: "well_sized bs" and f: "f = frame_at bs"
    using assms(1) by (simp_all add: deserialize_frame_iff)
  then have len: "length (fr_payload f) = 1704" by (simp add: well_sized_def)
  then show ?thesis
    using assms(2) f wire_layout_frame_at [OF ws]
    by (simp add: serialize_frame_layout sealed_frame_of_valid)
qed

theorem valid_bytes_canonical_witness:
  "let f = sealed_frame example_frame
   in serialize_frame f = serialize_frame example_frame"
  unfolding Let_def
  by (rule valid_bytes_canonical)
    (simp_all add: serialize_frame_layout deserialize_frame_iff well_sized_wire_layout
      frame_at_wire_layout validate_frame_ok_iff payload_crc_layout)

end
