(* ===== verification/Capture_Queue.thy ===== *)
theory Capture_Queue imports Frame begin

text \<open>
  \<open>receiver/capture_queue.h\<close> and \<open>receiver/capture_queue.cpp\<close>: the ring buffer between the
  receiving thread and the capture worker.  This theory has the operations one after the other,
  the abstract bounded queue they implement, and what a client may rely on; the two threads
  that share the buffer are in \<open>Capture_Pipeline\<close>.
\<close>

section \<open>The ring buffer\<close>

record captured_frame =
  cf_wire :: bytes
  cf_frame_id :: u64
  cf_wire_complete_steady_ns :: u64

text \<open>The two indices are the atomics; slots outside the published range keep stale frames.\<close>

record capture_queue =
  cq_slots :: "captured_frame list"
  cq_capacity :: u64
  cq_producer_index :: nat
  cq_consumer_index :: nat

definition blank_slot :: captured_frame where
  "blank_slot = \<lparr>cf_wire = replicate kWireFrameSize 0, cf_frame_id = 0, cf_wire_complete_steady_ns = 0\<rparr>"

text \<open>The constructor: \<open>slots_(capacity + 1)\<close> adds in \<open>std::size_t\<close>, which is 64 bits wide.\<close>

definition new_capture_queue :: "u64 \<Rightarrow> string + capture_queue" where
  "new_capture_queue capacity =
     (if capacity = 0 then Inl ''capture queue capacity must be positive''
      else Inr \<lparr>cq_slots = replicate (unat (capacity + 1)) blank_slot, cq_capacity = capacity,
                cq_producer_index = 0, cq_consumer_index = 0\<rparr>)"

text \<open>\<open>next\<close> divides by the number of slots, which is positive in every usable queue.\<close>

definition next_index :: "capture_queue \<Rightarrow> nat \<Rightarrow> nat" where
  "next_index q index = (index + 1) mod length (cq_slots q)"

definition has_space :: "capture_queue \<Rightarrow> bool" where
  "has_space q \<longleftrightarrow> next_index q (cq_producer_index q) \<noteq> cq_consumer_index q"

text \<open>\<open>producer_slot\<close> returns a reference: the slot read, and a write through it.\<close>

definition producer_slot :: "capture_queue \<Rightarrow> captured_frame" where
  "producer_slot q = cq_slots q ! cq_producer_index q"

definition set_producer_slot :: "captured_frame \<Rightarrow> capture_queue \<Rightarrow> capture_queue" where
  "set_producer_slot c q = q\<lparr>cq_slots := (cq_slots q)[cq_producer_index q := c]\<rparr>"

definition publish :: "capture_queue \<Rightarrow> capture_queue" where
  "publish q = q\<lparr>cq_producer_index := next_index q (cq_producer_index q)\<rparr>"

definition consumer_slot :: "capture_queue \<Rightarrow> captured_frame option" where
  "consumer_slot q =
     (if cq_consumer_index q = cq_producer_index q then None
      else Some (cq_slots q ! cq_consumer_index q))"

definition release :: "capture_queue \<Rightarrow> capture_queue" where
  "release q = q\<lparr>cq_consumer_index := next_index q (cq_consumer_index q)\<rparr>"

definition queue_empty :: "capture_queue \<Rightarrow> bool" where
  "queue_empty q \<longleftrightarrow> cq_consumer_index q = cq_producer_index q"

definition queue_size :: "capture_queue \<Rightarrow> nat" where
  "queue_size q =
     (if cq_consumer_index q \<le> cq_producer_index q
      then cq_producer_index q - cq_consumer_index q
      else length (cq_slots q) - cq_consumer_index q + cq_producer_index q)"

section \<open>The abstract queue\<close>

definition queue_inv :: "capture_queue \<Rightarrow> bool" where
  "queue_inv q \<longleftrightarrow> 2 \<le> length (cq_slots q) \<and> length (cq_slots q) = unat (cq_capacity q) + 1
     \<and> cq_producer_index q < length (cq_slots q) \<and> cq_consumer_index q < length (cq_slots q)"

text \<open>The published frames, oldest first: the slots from the consumer to the producer index.\<close>

definition queue_items :: "capture_queue \<Rightarrow> captured_frame list" where
  "queue_items q =
     map (\<lambda>i. cq_slots q ! ((cq_consumer_index q + i) mod length (cq_slots q))) [0..<queue_size q]"

text \<open>What the receiving thread does with a slot once a frame is complete.\<close>

definition put_frame :: "captured_frame \<Rightarrow> capture_queue \<Rightarrow> capture_queue" where
  "put_frame c q = publish (set_producer_slot c q)"

lemma length_queue_items [simp]: "length (queue_items q) = queue_size q"
  by (simp add: queue_items_def)

lemma mod_if_nat: "(a :: nat) < 2 * n \<Longrightarrow> a mod n = (if a < n then a else a - n)"
  by (simp add: mod_if)

lemma queue_size_bound: "queue_inv q \<Longrightarrow> queue_size q \<le> unat (cq_capacity q)"
  by (auto simp: queue_inv_def queue_size_def)

text \<open>The two indices and the number of frames between them.\<close>

lemma producer_from_size:
  "queue_inv q \<Longrightarrow> cq_producer_index q = (cq_consumer_index q + queue_size q) mod length (cq_slots q)"
  by (auto simp: queue_inv_def queue_size_def mod_if_nat)

lemma queue_size_unique:
  "queue_inv q \<Longrightarrow> n < length (cq_slots q) \<Longrightarrow>
    cq_producer_index q = (cq_consumer_index q + n) mod length (cq_slots q) \<Longrightarrow> queue_size q = n"
  by (auto simp: queue_inv_def queue_size_def mod_if_nat split: if_splits)

lemma has_space_iff: "queue_inv q \<Longrightarrow> has_space q \<longleftrightarrow> queue_size q < unat (cq_capacity q)"
  by (auto simp: queue_inv_def has_space_def next_index_def queue_size_def mod_if_nat)

lemma queue_empty_iff: "queue_inv q \<Longrightarrow> queue_empty q \<longleftrightarrow> queue_items q = []"
  by (auto simp: queue_inv_def queue_empty_def queue_items_def queue_size_def)

lemma put_frame_inv: "queue_inv q \<Longrightarrow> queue_inv (put_frame c q)"
  by (simp add: queue_inv_def put_frame_def publish_def set_producer_slot_def next_index_def)

lemma release_inv: "queue_inv q \<Longrightarrow> queue_inv (release q)"
  by (simp add: queue_inv_def release_def next_index_def)

lemma queue_size_put:
  assumes "queue_inv q" and "has_space q"
  shows "queue_size (put_frame c q) = Suc (queue_size q)"
proof (rule queue_size_unique)
  show "queue_inv (put_frame c q)" using assms(1) by (rule put_frame_inv)
  show "Suc (queue_size q) < length (cq_slots (put_frame c q))"
    using assms by (simp add: has_space_iff put_frame_def publish_def set_producer_slot_def queue_inv_def)
  show "cq_producer_index (put_frame c q)
      = (cq_consumer_index (put_frame c q) + Suc (queue_size q)) mod length (cq_slots (put_frame c q))"
    using producer_from_size [OF assms(1)]
    by (simp add: put_frame_def publish_def set_producer_slot_def next_index_def mod_Suc_eq)
qed

lemma queue_size_release:
  assumes "queue_inv q" and "\<not> queue_empty q"
  shows "queue_size (release q) = queue_size q - 1"
proof (rule queue_size_unique)
  have "0 < queue_size q"
    using assms queue_empty_iff [of q] by (simp add: length_greater_0_conv [symmetric])
  then obtain n where n: "queue_size q = Suc n" by (cases "queue_size q") auto
  show "queue_inv (release q)" using assms(1) by (rule release_inv)
  show "queue_size q - 1 < length (cq_slots (release q))"
    using queue_size_bound [OF assms(1)] assms(1) by (simp add: release_def queue_inv_def)
  show "cq_producer_index (release q)
      = (cq_consumer_index (release q) + (queue_size q - 1)) mod length (cq_slots (release q))"
    using producer_from_size [OF assms(1)] n
    by (simp add: release_def next_index_def mod_add_left_eq)
qed

lemma ring_index_inj:
  "i < n \<Longrightarrow> j < n \<Longrightarrow> (a + i) mod n = (a + j) mod n \<Longrightarrow> a < n \<Longrightarrow> i = (j :: nat)"
  by (auto simp: mod_if_nat split: if_splits)

lemma queue_items_put:
  assumes "queue_inv q" and "has_space q"
  shows "queue_items (put_frame c q) = queue_items q @ [c]"
proof -
  let ?n = "length (cq_slots q)" and ?c = "cq_consumer_index q" and ?p = "cq_producer_index q"
  have size: "queue_size q < ?n" and c: "?c < ?n" and p: "?p < ?n"
    using assms queue_size_bound [OF assms(1)] by (simp_all add: queue_inv_def)
  have p_eq: "?p = (?c + queue_size q) mod ?n" by (rule producer_from_size) (rule assms(1))
  have old: "(cq_slots q)[?p := c] ! ((?c + i) mod ?n) = cq_slots q ! ((?c + i) mod ?n)"
    if "i < queue_size q" for i
  proof -
    have "(?c + i) mod ?n \<noteq> ?p"
      using that size c ring_index_inj [of i ?n "queue_size q" ?c] unfolding p_eq by auto
    then show ?thesis by simp
  qed
  have new: "(cq_slots q)[?p := c] ! ((?c + queue_size q) mod ?n) = c"
    using p p_eq by simp
  have "queue_items (put_frame c q)
      = map (\<lambda>i. (cq_slots q)[?p := c] ! ((?c + i) mod ?n)) [0..<Suc (queue_size q)]"
    using queue_size_put [OF assms, of c]
    by (simp add: queue_items_def put_frame_def publish_def set_producer_slot_def)
  then show ?thesis using old new by (simp add: queue_items_def)
qed

lemma queue_items_release:
  assumes "queue_inv q" and "\<not> queue_empty q"
  shows "queue_items (release q) = tl (queue_items q)"
proof -
  let ?n = "length (cq_slots q)" and ?c = "cq_consumer_index q"
  have shift: "(Suc ?c mod ?n + i) mod ?n = (?c + Suc i) mod ?n" for i
    by (simp add: mod_add_left_eq)
  have "queue_items (release q)
      = map (\<lambda>i. cq_slots q ! ((?c + Suc i) mod ?n)) [0..<queue_size q - 1]"
    using queue_size_release [OF assms] shift by (simp add: queue_items_def release_def next_index_def)
  also have "\<dots> = tl (queue_items q)"
    by (rule nth_equalityI) (simp_all add: queue_items_def nth_tl)
  finally show ?thesis .
qed

lemma consumer_slot_items:
  assumes "queue_inv q"
  shows "consumer_slot q = (if queue_items q = [] then None else Some (hd (queue_items q)))"
proof (cases "queue_empty q")
  case True
  with assms queue_empty_iff [of q] show ?thesis by (simp add: consumer_slot_def queue_empty_def)
next
  case False
  with assms have "0 < queue_size q" by (simp add: queue_empty_iff length_greater_0_conv [symmetric])
  then have "hd (queue_items q) = cq_slots q ! (cq_consumer_index q mod length (cq_slots q))"
    by (simp add: queue_items_def hd_map)
  with False assms queue_empty_iff [of q] show ?thesis
    by (simp add: consumer_slot_def queue_empty_def queue_inv_def)
qed

lemma put_release_fields [simp]:
  "cq_capacity (put_frame c q) = cq_capacity q" "cq_capacity (release q) = cq_capacity q"
  by (simp_all add: put_frame_def publish_def set_producer_slot_def release_def)

section \<open>The contract of a bounded queue\<close>

text \<open>
  What a client of the queue relies on: the held items as a list, an invariant that every
  operation keeps, room for exactly \<open>room\<close> items, and first in, first out.
\<close>

locale bounded_queue =
  fixes inv :: "'q \<Rightarrow> bool"
    and items :: "'q \<Rightarrow> 'a list"
    and room :: "'q \<Rightarrow> nat"
    and space :: "'q \<Rightarrow> bool"
    and put :: "'a \<Rightarrow> 'q \<Rightarrow> 'q"
    and front :: "'q \<Rightarrow> 'a option"
    and pop :: "'q \<Rightarrow> 'q"
  assumes space_iff: "inv q \<Longrightarrow> space q \<longleftrightarrow> length (items q) < room q"
    and put_inv: "inv q \<Longrightarrow> space q \<Longrightarrow> inv (put x q)"
    and put_items: "inv q \<Longrightarrow> space q \<Longrightarrow> items (put x q) = items q @ [x]"
    and put_room: "inv q \<Longrightarrow> space q \<Longrightarrow> room (put x q) = room q"
    and front_items: "inv q \<Longrightarrow> front q = (if items q = [] then None else Some (hd (items q)))"
    and pop_inv: "inv q \<Longrightarrow> items q \<noteq> [] \<Longrightarrow> inv (pop q)"
    and pop_items: "inv q \<Longrightarrow> items q \<noteq> [] \<Longrightarrow> items (pop q) = tl (items q)"
    and pop_room: "inv q \<Longrightarrow> items q \<noteq> [] \<Longrightarrow> room (pop q) = room q"
    and room_bound: "inv q \<Longrightarrow> length (items q) \<le> room q"
begin

lemmas queue_specs = space_iff put_inv put_items put_room front_items pop_inv pop_items pop_room

end

text \<open>
  A client's run: it tries to put a frame (which a full queue refuses) or to take the oldest one
  (which an empty queue has not).  The result is the queue, the frames accepted and the frames
  taken, each in order.
\<close>

datatype 'a queue_op = Offer 'a | Take

fun queue_run :: "('q \<Rightarrow> bool) \<Rightarrow> ('a \<Rightarrow> 'q \<Rightarrow> 'q) \<Rightarrow> ('q \<Rightarrow> 'a option) \<Rightarrow> ('q \<Rightarrow> 'q)
    \<Rightarrow> 'a queue_op list \<Rightarrow> 'q \<Rightarrow> 'q \<times> 'a list \<times> 'a list" where
  "queue_run space put front pop [] q = (q, [], [])"
| "queue_run space put front pop (Offer x # ops) q =
     (if space q
      then case queue_run space put front pop ops (put x q) of
             (q', accepted, taken) \<Rightarrow> (q', x # accepted, taken)
      else queue_run space put front pop ops q)"
| "queue_run space put front pop (Take # ops) q =
     (case front q of
        None \<Rightarrow> queue_run space put front pop ops q
      | Some x \<Rightarrow>
          (case queue_run space put front pop ops (pop q) of
             (q', accepted, taken) \<Rightarrow> (q', accepted, x # taken)))"

context bounded_queue
begin

lemma run_fifo:
  "inv q \<Longrightarrow> queue_run space put front pop ops q = (q', accepted, taken) \<Longrightarrow>
    inv q' \<and> items q @ accepted = taken @ items q' \<and> length (items q') \<le> room q"
proof (induction ops arbitrary: q accepted taken)
  case Nil
  then show ?case by (simp add: room_bound)
next
  case (Cons op ops)
  show ?case
  proof (cases op)
    case (Offer x)
    then show ?thesis
      using Cons.prems Cons.IH [of "put x q"] Cons.IH [of q]
      by (auto simp: put_inv put_items put_room split: if_splits prod.splits)
  next
    case Take
    show ?thesis
    proof (cases "items q")
      case Nil
      then show ?thesis using Cons.prems Cons.IH [of q] Take by (auto simp: front_items)
    next
      case (Cons y ys)
      then show ?thesis
        using Cons.prems Cons.IH [of "pop q"] Take
        by (auto simp: front_items pop_inv pop_items pop_room split: prod.splits)
    qed
  qed
qed

end

interpretation cq: bounded_queue queue_inv queue_items "\<lambda>q. unat (cq_capacity q)" has_space
  put_frame consumer_slot release
  by unfold_locales
    (simp_all add: has_space_iff put_frame_inv queue_items_put consumer_slot_items release_inv
      queue_items_release queue_empty_iff queue_size_bound)

section \<open>Properties\<close>

text \<open>Frames and a queue at which the properties are instantiated.\<close>

definition slot_of :: "u64 \<Rightarrow> captured_frame" where
  "slot_of n = blank_slot\<lparr>cf_frame_id := n\<rparr>"

definition two_frame_queue :: capture_queue where
  "two_frame_queue =
     \<lparr>cq_slots = replicate 3 blank_slot, cq_capacity = 2, cq_producer_index = 0, cq_consumer_index = 0\<rparr>"

lemma new_capture_queue_inv:
  "new_capture_queue capacity = Inr q \<Longrightarrow> capacity \<noteq> - 1 \<Longrightarrow>
    queue_inv q \<and> queue_items q = [] \<and> cq_capacity q = capacity"
proof -
  assume new: "new_capture_queue capacity = Inr q" and "capacity \<noteq> - 1"
  then have "capacity + 1 \<noteq> 0" by (metis add_eq_0_iff2)
  then have "unat (capacity + 1) = unat capacity + 1"
    using unatSuc [of capacity] by (simp add: add.commute)
  moreover have "0 < unat capacity"
    using new by (auto simp: new_capture_queue_def unat_gt_0 split: if_splits)
  ultimately show ?thesis
    using new by (auto simp: new_capture_queue_def queue_inv_def queue_items_def queue_size_def split: if_splits)
qed

text \<open>
  C11: the ring buffer is a bounded first-in first-out queue.  From a new queue of any capacity
  below the largest \<open>std::size_t\<close>, whatever the producer offers and the consumer takes, in any
  order, the frames taken followed by the frames still held are exactly the frames accepted, in
  order, and never more than \<open>capacity\<close> frames are held.
\<close>

theorem capture_queue_fifo:
  assumes "new_capture_queue capacity = Inr q" and "capacity \<noteq> - 1"
    and "queue_run has_space put_frame consumer_slot release ops q = (q', accepted, taken)"
  shows "accepted = taken @ queue_items q' \<and> length (queue_items q') \<le> unat capacity"
  using new_capture_queue_inv [OF assms(1,2)] cq.run_fifo [OF _ assms(3)] by auto

lemma replicate_3: "replicate 3 x = [x, x, x]"
  by (simp add: numeral_eq_Suc)

theorem capture_queue_fifo_witness:
  "\<exists>q'. queue_run has_space put_frame consumer_slot release
         [Offer (slot_of 1), Offer (slot_of 2), Offer (slot_of 3), Take, Offer (slot_of 4), Take] two_frame_queue
         = (q', [slot_of 1, slot_of 2, slot_of 4], [slot_of 1, slot_of 2])
     \<and> [slot_of 1, slot_of 2, slot_of 4] = [slot_of 1, slot_of 2] @ queue_items q'
     \<and> length (queue_items q') \<le> unat (2 :: u64)"
proof -
  have new: "new_capture_queue 2 = Inr two_frame_queue"
    by (simp add: new_capture_queue_def two_frame_queue_def)
  have "\<exists>q'. queue_run has_space put_frame consumer_slot release
         [Offer (slot_of 1), Offer (slot_of 2), Offer (slot_of 3), Take, Offer (slot_of 4), Take] two_frame_queue
         = (q', [slot_of 1, slot_of 2, slot_of 4], [slot_of 1, slot_of 2])"
    by (simp add: two_frame_queue_def has_space_def put_frame_def set_producer_slot_def publish_def
        next_index_def consumer_slot_def release_def replicate_3)
  then obtain q' where run: "queue_run has_space put_frame consumer_slot release
         [Offer (slot_of 1), Offer (slot_of 2), Offer (slot_of 3), Take, Offer (slot_of 4), Take] two_frame_queue
         = (q', [slot_of 1, slot_of 2, slot_of 4], [slot_of 1, slot_of 2])" ..
  show ?thesis
    using run capture_queue_fifo [OF new _ run] by (intro exI [of _ q'] conjI) simp_all
qed

end
