(* ===== verification/Receiver_Options.thy ===== *)
theory Receiver_Options
  imports Options Frame Capture_Queue
begin

text \<open>
  The command line of the receiver, \<open>parse_options\<close> and the value parsers of \<open>receiver/main.cpp\<close>.
  Paths are kept as the strings given.
\<close>

definition kDefaultCaptureQueueFrames :: u64 where "kDefaultCaptureQueueFrames = 1024"

record receiver_options =
  ro_rate_hz :: u16
  ro_port :: u16
  ro_expected_frames :: u64
  ro_bind_host :: string
  ro_expected_module_id :: u16
  ro_validate_module_id :: bool
  ro_timing_log :: string
  ro_capture_queue_frames :: u64

definition default_receiver_options :: receiver_options where
  "default_receiver_options =
     \<lparr>ro_rate_hz = kSampleRateHz, ro_port = 9000, ro_expected_frames = 1000, ro_bind_host = ''0.0.0.0'',
      ro_expected_module_id = 0, ro_validate_module_id = False, ro_timing_log = [],
      ro_capture_queue_frames = kDefaultCaptureQueueFrames\<rparr>"

definition parse_port :: "string \<Rightarrow> error + u16" where
  "parse_port text =
     and_then (std_stol text) (\<lambda>value.
       if value \<le> 0 \<or> 65535 < value then Inl (Out_of_range ''port must be in 1..65535'')
       else Inr (word_of_int value))"

definition parse_frame_count :: "string \<Rightarrow> error + u64" where
  "parse_frame_count text =
     and_then (std_stoull text) (\<lambda>value.
       if value = 0 then Inl (Out_of_range ''expected_frame_count must be positive'') else Inr value)"

definition parse_queue_frames :: "string \<Rightarrow> error + u64" where
  "parse_queue_frames text =
     and_then (std_stoull text) (\<lambda>value.
       if value = 0 \<or> 2 ^ 64 - 1 < unat value then Inl (Out_of_range ''capture queue frame count must be positive'')
       else Inr value)"

definition parse_rate_hz :: "string \<Rightarrow> error + u16" where
  "parse_rate_hz text =
     and_then (std_stoul text) (\<lambda>value.
       if value = 0 \<or> unat kMaxSampleRateHz < unat value
       then Inl (Out_of_range (''rate_hz must be in 1..'' @ to_string (unat kMaxSampleRateHz)))
       else Inr (ucast value))"

definition parse_module_id :: "string \<Rightarrow> error + u16" where
  "parse_module_id text =
     and_then (std_stoul text) (\<lambda>value.
       if 65535 < value then Inl (Out_of_range ''module_id must be in 0..65535'') else Inr (ucast value))"

text \<open>One turn of the loop of \<open>parse_options\<close> per element; \<open>n\<close> is \<open>positional_index\<close>.\<close>

fun parse_receiver_args :: "string list \<Rightarrow> nat \<Rightarrow> receiver_options \<Rightarrow> error + receiver_options" where
  "parse_receiver_args [] n opts = Inr opts"
| "parse_receiver_args (arg # rest) n opts =
     (if arg = ''--module-id'' then
        (case rest of
           [] \<Rightarrow> Inl (Invalid_argument ''--module-id requires a value'')
         | v # rest' \<Rightarrow> and_then (parse_module_id v) (\<lambda>x.
             parse_receiver_args rest' n (opts\<lparr>ro_expected_module_id := x, ro_validate_module_id := True\<rparr>)))
      else if arg = ''--timing-log'' then
        (case rest of
           [] \<Rightarrow> Inl (Invalid_argument ''--timing-log requires a path'')
         | v # rest' \<Rightarrow> parse_receiver_args rest' n (opts\<lparr>ro_timing_log := v\<rparr>))
      else if arg = ''--rate-hz'' then
        (case rest of
           [] \<Rightarrow> Inl (Invalid_argument ''--rate-hz requires a value'')
         | v # rest' \<Rightarrow> and_then (parse_rate_hz v) (\<lambda>x. parse_receiver_args rest' n (opts\<lparr>ro_rate_hz := x\<rparr>)))
      else if arg = ''--capture-queue-frames'' then
        (case rest of
           [] \<Rightarrow> Inl (Invalid_argument ''--capture-queue-frames requires a count'')
         | v # rest' \<Rightarrow> and_then (parse_queue_frames v) (\<lambda>x.
             parse_receiver_args rest' n (opts\<lparr>ro_capture_queue_frames := x\<rparr>)))
      else if starts_with ''--'' arg then Inl (Invalid_argument (''unknown option: '' @ arg))
      else if n = 0 then and_then (parse_port arg) (\<lambda>x. parse_receiver_args rest 1 (opts\<lparr>ro_port := x\<rparr>))
      else if n = 1 then and_then (parse_frame_count arg) (\<lambda>x. parse_receiver_args rest 2 (opts\<lparr>ro_expected_frames := x\<rparr>))
      else if n = 2 then parse_receiver_args rest 3 (opts\<lparr>ro_bind_host := arg\<rparr>)
      else Inl (Invalid_argument ''too many positional arguments''))"

definition parse_receiver_options :: "string list \<Rightarrow> error + receiver_options" where
  "parse_receiver_options args = parse_receiver_args args 0 default_receiver_options"

text \<open>One step per kind of argument.\<close>

lemma receiver_option_args:
  "parse_receiver_args (''--module-id'' # v # rest) n opts =
     and_then (parse_module_id v) (\<lambda>x.
       parse_receiver_args rest n (opts\<lparr>ro_expected_module_id := x, ro_validate_module_id := True\<rparr>))"
  "parse_receiver_args (''--timing-log'' # v # rest) n opts = parse_receiver_args rest n (opts\<lparr>ro_timing_log := v\<rparr>)"
  "parse_receiver_args (''--rate-hz'' # v # rest) n opts =
     and_then (parse_rate_hz v) (\<lambda>x. parse_receiver_args rest n (opts\<lparr>ro_rate_hz := x\<rparr>))"
  "parse_receiver_args (''--capture-queue-frames'' # v # rest) n opts =
     and_then (parse_queue_frames v) (\<lambda>x. parse_receiver_args rest n (opts\<lparr>ro_capture_queue_frames := x\<rparr>))"
  by simp_all

lemma receiver_positional_args:
  assumes "\<not> starts_with ''--'' arg"
  shows "parse_receiver_args (arg # rest) 0 opts =
      and_then (parse_port arg) (\<lambda>x. parse_receiver_args rest 1 (opts\<lparr>ro_port := x\<rparr>))"
    "parse_receiver_args (arg # rest) 1 opts =
      and_then (parse_frame_count arg) (\<lambda>x. parse_receiver_args rest 2 (opts\<lparr>ro_expected_frames := x\<rparr>))"
    "parse_receiver_args (arg # rest) 2 opts = parse_receiver_args rest 3 (opts\<lparr>ro_bind_host := arg\<rparr>)"
  using assms by (simp_all only: parse_receiver_args.simps not_option [OF assms] if_False) simp_all

section \<open>Ranges\<close>

definition receiver_options_ok :: "receiver_options \<Rightarrow> bool" where
  "receiver_options_ok opts \<longleftrightarrow>
     ro_port opts \<noteq> 0 \<and> 1 \<le> ro_rate_hz opts \<and> ro_rate_hz opts \<le> kMaxSampleRateHz \<and>
     ro_expected_frames opts \<noteq> 0 \<and> ro_capture_queue_frames opts \<noteq> 0"

lemma unat_kMaxSampleRateHz [simp]: "unat kMaxSampleRateHz = 1000"
  by (simp add: kMaxSampleRateHz_def)

lemma unat_ucast_u16: "unat (v :: u64) < 65536 \<Longrightarrow> unat (ucast v :: u16) = unat v"
  by (simp add: unsigned_ucast_eq take_bit_nat_eq_self)

lemma parse_port_ok: "parse_port text = Inr p \<Longrightarrow> p \<noteq> 0"
proof -
  assume "parse_port text = Inr p"
  then obtain a where "0 < a" "a \<le> 65535" "p = word_of_int a"
    by (auto simp: parse_port_def and_then_Inr_iff not_le not_less split: if_splits)
  then have "uint p = a" by (simp add: unsigned_of_int take_bit_int_eq_self)
  then show "p \<noteq> 0" using \<open>0 < a\<close> by auto
qed

lemma parse_rate_ok: "parse_rate_hz text = Inr p \<Longrightarrow> 1 \<le> p \<and> p \<le> kMaxSampleRateHz"
proof -
  assume "parse_rate_hz text = Inr p"
  then obtain v where "std_stoul text = Inr v" and
    r: "(if v = 0 \<or> unat kMaxSampleRateHz < unat v
         then Inl (Out_of_range (''rate_hz must be in 1..'' @ to_string (unat kMaxSampleRateHz)))
         else Inr (ucast v)) = Inr p"
    unfolding parse_rate_hz_def and_then_Inr_iff by blast
  from r have v: "v \<noteq> 0" "unat v \<le> 1000" "p = ucast v" by (simp_all split: if_splits)
  then have "unat p = unat v" by (simp add: unat_ucast_u16)
  then show "1 \<le> p \<and> p \<le> kMaxSampleRateHz"
    using v by (simp add: word_le_nat_alt Suc_le_eq unat_gt_0)
qed

lemma parse_receiver_args_ok:
  "parse_receiver_args args n opts = Inr opts' \<Longrightarrow> receiver_options_ok opts \<Longrightarrow> receiver_options_ok opts'"
proof (induction "length args" arbitrary: args n opts rule: less_induct)
  case less
  show ?case
  proof (cases args)
    case Nil
    then show ?thesis using less.prems by simp
  next
    case (Cons arg rest)
    have long: "rest = v # rest' \<Longrightarrow> length rest' < length args" for v rest' by (simp add: Cons)
    consider "arg = ''--module-id''" | "arg = ''--timing-log''" | "arg = ''--rate-hz''" | "arg = ''--capture-queue-frames''"
      | "arg \<noteq> ''--module-id''" "arg \<noteq> ''--timing-log''" "arg \<noteq> ''--rate-hz''" "arg \<noteq> ''--capture-queue-frames''"
      by blast
    then show ?thesis
    proof cases
      case 1
      then obtain v rest' x where "rest = v # rest'"
          "parse_receiver_args rest' n (opts\<lparr>ro_expected_module_id := x, ro_validate_module_id := True\<rparr>) = Inr opts'"
        using less.prems(1) by (cases rest) (auto simp: Cons and_then_Inr_iff)
      then show ?thesis using less.hyps [OF long] less.prems(2) by (simp add: receiver_options_ok_def)
    next
      case 2
      then obtain v rest' where "rest = v # rest'" "parse_receiver_args rest' n (opts\<lparr>ro_timing_log := v\<rparr>) = Inr opts'"
        using less.prems(1) by (cases rest) (auto simp: Cons)
      then show ?thesis using less.hyps [OF long] less.prems(2) by (simp add: receiver_options_ok_def)
    next
      case 3
      then obtain v rest' x where "rest = v # rest'" "parse_rate_hz v = Inr x"
          "parse_receiver_args rest' n (opts\<lparr>ro_rate_hz := x\<rparr>) = Inr opts'"
        using less.prems(1) by (cases rest) (auto simp: Cons and_then_Inr_iff)
      then show ?thesis using less.hyps [OF long] less.prems(2) parse_rate_ok by (simp add: receiver_options_ok_def)
    next
      case 4
      then obtain v rest' x where "rest = v # rest'" "parse_queue_frames v = Inr x"
          "parse_receiver_args rest' n (opts\<lparr>ro_capture_queue_frames := x\<rparr>) = Inr opts'"
        using less.prems(1) by (cases rest) (auto simp: Cons and_then_Inr_iff)
      moreover from this(2) have "x \<noteq> 0" by (auto simp: parse_queue_frames_def and_then_Inr_iff split: if_splits)
      ultimately show ?thesis using less.hyps [OF long] less.prems(2) by (simp add: receiver_options_ok_def)
    next
      case 5
      have shorter: "length rest < length args" by (simp add: Cons)
      from 5 less.prems(1) consider
          x where "parse_port arg = Inr x" "parse_receiver_args rest 1 (opts\<lparr>ro_port := x\<rparr>) = Inr opts'"
        | x where "parse_frame_count arg = Inr x" "parse_receiver_args rest 2 (opts\<lparr>ro_expected_frames := x\<rparr>) = Inr opts'"
        | "parse_receiver_args rest 3 (opts\<lparr>ro_bind_host := arg\<rparr>) = Inr opts'"
        by (auto simp only: Cons parse_receiver_args.simps and_then_Inr_iff if_False split: if_split_asm)
      then show ?thesis
      proof cases
        case (1 x)
        then show ?thesis using less.hyps [OF shorter 1(2)] less.prems(2) parse_port_ok by (simp add: receiver_options_ok_def)
      next
        case (2 x)
        then have "x \<noteq> 0" by (auto simp: parse_frame_count_def and_then_Inr_iff split: if_splits)
        then show ?thesis using less.hyps [OF shorter 2(2)] less.prems(2) by (simp add: receiver_options_ok_def)
      next
        case 3
        then show ?thesis using less.hyps [OF shorter 3] less.prems(2) by (simp add: receiver_options_ok_def)
      qed
    qed
  qed
qed

lemma default_receiver_options_ok: "receiver_options_ok default_receiver_options"
  by (simp add: receiver_options_ok_def default_receiver_options_def kSampleRateHz_def kMaxSampleRateHz_def
      kDefaultCaptureQueueFrames_def)

section \<open>Correctness\<close>

text \<open>
  Whatever the command line, options that are accepted are in range: a usable port, a frame rate
  between 1 and 1000, a positive number of expected frames and a positive queue capacity.
\<close>

theorem receiver_options_in_range:
  assumes "parse_receiver_options args = Inr opts"
  shows "ro_port opts \<noteq> 0 \<and> 1 \<le> ro_rate_hz opts \<and> ro_rate_hz opts \<le> kMaxSampleRateHz \<and>
    ro_expected_frames opts \<noteq> 0 \<and> ro_capture_queue_frames opts \<noteq> 0"
  using parse_receiver_args_ok [OF assms [unfolded parse_receiver_options_def] default_receiver_options_ok]
  unfolding receiver_options_ok_def .

text \<open>A command line that sets every option.\<close>

definition receiver_command_line :: "receiver_options \<Rightarrow> string list" where
  "receiver_command_line opts =
     [to_string (unat (ro_port opts)), to_string (unat (ro_expected_frames opts)), ro_bind_host opts,
      ''--rate-hz'', to_string (unat (ro_rate_hz opts)),
      ''--timing-log'', ro_timing_log opts,
      ''--capture-queue-frames'', to_string (unat (ro_capture_queue_frames opts))]
     @ (if ro_validate_module_id opts then [''--module-id'', to_string (unat (ro_expected_module_id opts))] else [])"

lemma parse_port_to_string: "p \<noteq> 0 \<Longrightarrow> parse_port (to_string (unat p)) = Inr p"
proof -
  assume "p \<noteq> 0"
  have "uint p < 2 ^ LENGTH(16)" by (rule unsigned_less)
  moreover have "0 < uint p" using \<open>p \<noteq> 0\<close> unsigned_greater_eq [of p] by (metis less_le unsigned_eq_0_iff)
  moreover have "std_stol (to_string (unat p)) = Inr (uint p)"
    using std_stol_to_string [of "unat p"] unat_less_exp [of p] by simp
  ultimately show ?thesis by (simp add: parse_port_def)
qed

lemma parse_rate_to_string:
  "1 \<le> p \<Longrightarrow> p \<le> kMaxSampleRateHz \<Longrightarrow> parse_rate_hz (to_string (unat p)) = Inr p"
proof -
  assume "1 \<le> p" "p \<le> kMaxSampleRateHz"
  then have "0 < unat p" "unat p \<le> 1000" by (simp_all add: word_le_nat_alt)
  then have "unat (of_nat (unat p) :: u64) = unat p" "(of_nat (unat p) :: u64) \<noteq> 0"
    by (simp_all add: word_less_of_nat word_unat_eq_iff del: of_nat_unat)
  then show ?thesis using \<open>unat p \<le> 1000\<close>
    by (simp add: parse_rate_hz_def std_stoul_def std_unsigned_nat unsigned_ucast_eq word_unat_eq_iff
        take_bit_nat_eq_self del: of_nat_unat)
qed

lemma parse_module_to_string: "parse_module_id (to_string (unat p)) = Inr p"
proof -
  have "unat p < 65536" using unat_less_exp [of p] by simp
  then have "unat (of_nat (unat p) :: u64) = unat p" by (simp add: word_less_of_nat del: of_nat_unat)
  then show ?thesis using \<open>unat p < 65536\<close>
    by (simp add: parse_module_id_def std_stoul_def std_unsigned_nat unsigned_ucast_eq word_unat_eq_iff
        word_less_nat_alt take_bit_nat_eq_self del: of_nat_unat)
qed

lemma parse_frame_count_to_string: "v \<noteq> 0 \<Longrightarrow> parse_frame_count (to_string (unat v)) = Inr v"
  by (simp add: parse_frame_count_def std_stoull_def)

lemma parse_queue_frames_to_string: "v \<noteq> 0 \<Longrightarrow> parse_queue_frames (to_string (unat v)) = Inr v"
  using unat_less_exp [of v] by (simp add: parse_queue_frames_def std_stoull_def)

lemma parse_receiver_command_line:
  assumes "receiver_options_ok opts" and "\<not> starts_with ''--'' (ro_bind_host opts)"
    and "ro_validate_module_id opts \<or> ro_expected_module_id opts = 0"
  shows "parse_receiver_options (receiver_command_line opts) = Inr opts"
proof -
  obtain rate port frames host module_id check timing queue
    where o: "opts = \<lparr>ro_rate_hz = rate, ro_port = port, ro_expected_frames = frames, ro_bind_host = host,
      ro_expected_module_id = module_id, ro_validate_module_id = check, ro_timing_log = timing,
      ro_capture_queue_frames = queue\<rparr>"
    by (cases opts) auto
  have ok: "port \<noteq> 0" "1 \<le> rate" "rate \<le> kMaxSampleRateHz" "frames \<noteq> 0" "queue \<noteq> 0" "\<not> starts_with ''--'' host"
      "\<not> check \<Longrightarrow> module_id = 0"
    using assms by (auto simp: o receiver_options_ok_def)
  note vals = parse_port_to_string [OF ok(1)] parse_rate_to_string [OF ok(2,3)]
    parse_frame_count_to_string [OF ok(4)] parse_queue_frames_to_string [OF ok(5)] parse_module_to_string
  show ?thesis
    unfolding parse_receiver_options_def receiver_command_line_def o default_receiver_options_def
      receiver_options.simps append_Cons append_Nil
    using ok(7) by (simp only: receiver_option_args receiver_positional_args to_string_no_option ok(6) vals and_then.simps not_False_eq_True
        receiver_options.simps) (cases check; simp only: if_True if_False receiver_option_args receiver_positional_args vals and_then.simps
        parse_receiver_args.simps(1) receiver_options.simps sum.inject append_Nil; simp)
qed

text \<open>
  C39: every configuration in range can be given on the command line, and is read back unchanged; the
  bind address must not look like an option, and a module id is only kept when it is checked.
\<close>

theorem receiver_command_line_roundtrip:
  assumes "receiver_options_ok opts" and "\<not> starts_with ''--'' (ro_bind_host opts)"
    and "ro_validate_module_id opts \<or> ro_expected_module_id opts = 0"
  shows "parse_receiver_options (receiver_command_line opts) = Inr opts"
  using assms by (rule parse_receiver_command_line)

definition example_receiver_options :: receiver_options where
  "example_receiver_options =
     \<lparr>ro_rate_hz = 240, ro_port = 9001, ro_expected_frames = 5, ro_bind_host = ''127.0.0.1'',
      ro_expected_module_id = 3, ro_validate_module_id = True, ro_timing_log = ''t.csv'',
      ro_capture_queue_frames = 16\<rparr>"

lemma example_receiver_command_line:
  "parse_receiver_options (receiver_command_line example_receiver_options) = Inr example_receiver_options"
  by (rule parse_receiver_command_line)
    (simp_all add: example_receiver_options_def receiver_options_ok_def starts_with_def kMaxSampleRateHz_def)

theorem receiver_options_in_range_witness:
  "(9001 :: u16) \<noteq> 0 \<and> (240 :: u16) \<le> kMaxSampleRateHz"
  using receiver_options_in_range [OF example_receiver_command_line] by (simp add: example_receiver_options_def)

theorem receiver_command_line_roundtrip_witness:
  "parse_receiver_options (receiver_command_line example_receiver_options) = Inr example_receiver_options"
  by (rule receiver_command_line_roundtrip)
    (simp_all add: example_receiver_options_def receiver_options_ok_def starts_with_def kMaxSampleRateHz_def)

text \<open>
  The queue size \<open>-1\<close> is accepted.  \<open>std::stoull\<close> wraps it to the largest capacity, for which the
  queue is built without a single slot.
\<close>

theorem negative_queue_size_accepted:
  "\<exists>opts q. parse_receiver_options [''--capture-queue-frames'', ''-1''] = Inr opts \<and>
     new_capture_queue (ro_capture_queue_frames opts) = Inr q \<and> cq_slots q = []"
proof -
  have "parse_receiver_options [''--capture-queue-frames'', ''-1'']
      = Inr (default_receiver_options\<lparr>ro_capture_queue_frames := - 1\<rparr>)"
    unfolding parse_receiver_options_def receiver_option_args
    using unat_less_exp [of "- 1 :: u64"] by (simp add: parse_queue_frames_def std_stoull_def std_unsigned_minus_one)
  then show ?thesis by (simp add: new_capture_queue_def)
qed

end
