(* ===== verification/Sender_Options.thy ===== *)
theory Sender_Options
  imports Receiver_Options
begin

text \<open>
  The command line of the sender, \<open>parse_options\<close> and the value parsers of \<open>sender/main.cpp\<close>.  The
  value parsers repeat those of the receiver; they are translated from the sender's text and shown
  to be the same functions.
\<close>

definition kDeadlineSlackUs :: u64 where "kDeadlineSlackUs = 500"

record sender_options =
  so_host :: string
  so_bind_host :: string
  so_port :: u16
  so_frame_count :: u64
  so_module_id :: u16
  so_timing_log :: string
  so_save_sent_dir :: string
  so_input_path :: string
  so_validate_input_module :: bool
  so_rate_hz :: u16
  so_deadline_us :: u64

definition default_sender_options :: sender_options where
  "default_sender_options =
     \<lparr>so_host = ''127.0.0.1'', so_bind_host = [], so_port = 9000, so_frame_count = 10, so_module_id = 0,
      so_timing_log = [], so_save_sent_dir = [], so_input_path = [], so_validate_input_module = False,
      so_rate_hz = kSampleRateHz, so_deadline_us = 0\<rparr>"

definition sender_parse_port :: "string \<Rightarrow> error + u16" where
  "sender_parse_port text =
     and_then (std_stol text) (\<lambda>value.
       if value \<le> 0 \<or> 65535 < value then Inl (Out_of_range ''port must be in 1..65535'')
       else Inr (word_of_int value))"

definition parse_positive_u64 :: "string \<Rightarrow> string \<Rightarrow> error + u64" where
  "parse_positive_u64 text description =
     and_then (std_stoull text) (\<lambda>value.
       if value = 0 then Inl (Out_of_range (description @ '' must be positive'')) else Inr value)"

definition sender_parse_rate_hz :: "string \<Rightarrow> error + u16" where
  "sender_parse_rate_hz text =
     and_then (std_stoul text) (\<lambda>value.
       if value = 0 \<or> unat kMaxSampleRateHz < unat value
       then Inl (Out_of_range (''rate_hz must be in 1..'' @ to_string (unat kMaxSampleRateHz)))
       else Inr (ucast value))"

definition sender_parse_module_id :: "string \<Rightarrow> error + u16" where
  "sender_parse_module_id text =
     and_then (std_stoul text) (\<lambda>value.
       if 65535 < value then Inl (Out_of_range ''module_id must be in 0..65535'') else Inr (ucast value))"

text \<open>One turn of the loop of \<open>parse_options\<close> per element; \<open>n\<close> is \<open>positional_index\<close>.\<close>

fun parse_sender_args :: "string list \<Rightarrow> nat \<Rightarrow> sender_options \<Rightarrow> error + sender_options" where
  "parse_sender_args [] n opts = Inr opts"
| "parse_sender_args (arg # rest) n opts =
     (if arg = ''--module-id'' then
        (case rest of
           [] \<Rightarrow> Inl (Invalid_argument ''--module-id requires a value'')
         | v # rest' \<Rightarrow> and_then (sender_parse_module_id v) (\<lambda>x.
             parse_sender_args rest' n (opts\<lparr>so_module_id := x, so_validate_input_module := True\<rparr>)))
      else if arg = ''--bind-host'' then
        (case rest of
           [] \<Rightarrow> Inl (Invalid_argument ''--bind-host requires an address'')
         | v # rest' \<Rightarrow> parse_sender_args rest' n (opts\<lparr>so_bind_host := v\<rparr>))
      else if arg = ''--timing-log'' then
        (case rest of
           [] \<Rightarrow> Inl (Invalid_argument ''--timing-log requires a path'')
         | v # rest' \<Rightarrow> parse_sender_args rest' n (opts\<lparr>so_timing_log := v\<rparr>))
      else if arg = ''--save-sent'' then
        (case rest of
           [] \<Rightarrow> Inl (Invalid_argument ''--save-sent requires a directory'')
         | v # rest' \<Rightarrow> parse_sender_args rest' n (opts\<lparr>so_save_sent_dir := v\<rparr>))
      else if arg = ''--input'' then
        (case rest of
           [] \<Rightarrow> Inl (Invalid_argument ''--input requires a .bin file or directory'')
         | v # rest' \<Rightarrow> parse_sender_args rest' n (opts\<lparr>so_input_path := v\<rparr>))
      else if arg = ''--rate-hz'' then
        (case rest of
           [] \<Rightarrow> Inl (Invalid_argument ''--rate-hz requires a value'')
         | v # rest' \<Rightarrow> and_then (sender_parse_rate_hz v) (\<lambda>x.
             parse_sender_args rest' n (opts\<lparr>so_rate_hz := x\<rparr>)))
      else if arg = ''--deadline-us'' then
        (case rest of
           [] \<Rightarrow> Inl (Invalid_argument ''--deadline-us requires a count'')
         | v # rest' \<Rightarrow> and_then (parse_positive_u64 v ''send deadline'') (\<lambda>x.
             parse_sender_args rest' n (opts\<lparr>so_deadline_us := x\<rparr>)))
      else if starts_with ''--'' arg then Inl (Invalid_argument (''unknown option: '' @ arg))
      else if n = 0 then parse_sender_args rest 1 (opts\<lparr>so_host := arg\<rparr>)
      else if n = 1 then and_then (sender_parse_port arg) (\<lambda>x. parse_sender_args rest 2 (opts\<lparr>so_port := x\<rparr>))
      else if n = 2 then and_then (parse_positive_u64 arg ''frame_count'') (\<lambda>x.
             parse_sender_args rest 3 (opts\<lparr>so_frame_count := x\<rparr>))
      else Inl (Invalid_argument ''too many positional arguments''))"

definition parse_sender_options :: "string list \<Rightarrow> error + sender_options" where
  "parse_sender_options args =
     and_then (parse_sender_args args 0 default_sender_options) (\<lambda>opts.
       Inr (if so_deadline_us opts = 0
            then opts\<lparr>so_deadline_us := of_nat (1000000 div unat (so_rate_hz opts)) + kDeadlineSlackUs\<rparr>
            else opts))"

lemma sender_value_parsers:
  "sender_parse_port = parse_port" "sender_parse_rate_hz = parse_rate_hz" "sender_parse_module_id = parse_module_id"
  by (simp_all add: fun_eq_iff sender_parse_port_def parse_port_def sender_parse_rate_hz_def parse_rate_hz_def
      sender_parse_module_id_def parse_module_id_def)

lemma sender_option_args:
  "parse_sender_args (''--module-id'' # v # rest) n opts =
     and_then (sender_parse_module_id v) (\<lambda>x.
       parse_sender_args rest n (opts\<lparr>so_module_id := x, so_validate_input_module := True\<rparr>))"
  "parse_sender_args (''--bind-host'' # v # rest) n opts =
     parse_sender_args rest n (opts\<lparr>so_bind_host := v\<rparr>)"
  "parse_sender_args (''--timing-log'' # v # rest) n opts =
     parse_sender_args rest n (opts\<lparr>so_timing_log := v\<rparr>)"
  "parse_sender_args (''--save-sent'' # v # rest) n opts =
     parse_sender_args rest n (opts\<lparr>so_save_sent_dir := v\<rparr>)"
  "parse_sender_args (''--input'' # v # rest) n opts =
     parse_sender_args rest n (opts\<lparr>so_input_path := v\<rparr>)"
  "parse_sender_args (''--rate-hz'' # v # rest) n opts =
     and_then (sender_parse_rate_hz v) (\<lambda>x.
       parse_sender_args rest n (opts\<lparr>so_rate_hz := x\<rparr>))"
  "parse_sender_args (''--deadline-us'' # v # rest) n opts =
     and_then (parse_positive_u64 v ''send deadline'') (\<lambda>x.
       parse_sender_args rest n (opts\<lparr>so_deadline_us := x\<rparr>))"
  by simp_all

lemma sender_positional_args:
  assumes "\<not> starts_with ''--'' arg"
  shows "parse_sender_args (arg # rest) 0 opts = parse_sender_args rest 1 (opts\<lparr>so_host := arg\<rparr>)"
    "parse_sender_args (arg # rest) 1 opts =
      and_then (sender_parse_port arg) (\<lambda>x. parse_sender_args rest 2 (opts\<lparr>so_port := x\<rparr>))"
    "parse_sender_args (arg # rest) 2 opts =
      and_then (parse_positive_u64 arg ''frame_count'') (\<lambda>x. parse_sender_args rest 3 (opts\<lparr>so_frame_count := x\<rparr>))"
  using assms by (simp_all only: parse_sender_args.simps not_option [OF assms] if_False) simp_all

section \<open>Ranges\<close>

definition sender_options_ok :: "sender_options \<Rightarrow> bool" where
  "sender_options_ok opts \<longleftrightarrow>
     so_port opts \<noteq> 0 \<and> 1 \<le> so_rate_hz opts \<and> so_rate_hz opts \<le> kMaxSampleRateHz \<and> so_frame_count opts \<noteq> 0"

lemma parse_positive_ok: "parse_positive_u64 text d = Inr x \<Longrightarrow> x \<noteq> 0"
  by (auto simp: parse_positive_u64_def and_then_Inr_iff split: if_splits)

lemma parse_positive_to_string: "v \<noteq> 0 \<Longrightarrow> parse_positive_u64 (to_string (unat v)) d = Inr v"
  by (simp add: parse_positive_u64_def std_stoull_def)

text \<open>What one turn may change: an option sets at most the rate among the ranged values.\<close>

lemma sender_args_cases:
  assumes parsed: "parse_sender_args (arg # rest) n opts = Inr opts'"
  obtains (option) v rest' opts1 where "rest = v # rest'" "parse_sender_args rest' n opts1 = Inr opts'"
      "so_port opts1 = so_port opts" "so_frame_count opts1 = so_frame_count opts"
      "so_rate_hz opts1 = so_rate_hz opts \<or> parse_rate_hz v = Inr (so_rate_hz opts1)"
  | (host) "parse_sender_args rest 1 (opts\<lparr>so_host := arg\<rparr>) = Inr opts'"
  | (port) x where "parse_port arg = Inr x" "parse_sender_args rest 2 (opts\<lparr>so_port := x\<rparr>) = Inr opts'"
  | (frames) x where "parse_positive_u64 arg ''frame_count'' = Inr x"
      "parse_sender_args rest 3 (opts\<lparr>so_frame_count := x\<rparr>) = Inr opts'"
proof -
  consider "arg = ''--module-id''" | "arg = ''--bind-host''" | "arg = ''--timing-log''" | "arg = ''--save-sent''"
    | "arg = ''--input''" | "arg = ''--rate-hz''" | "arg = ''--deadline-us''"
    | (pos) "arg \<noteq> ''--module-id''" "arg \<noteq> ''--bind-host''" "arg \<noteq> ''--timing-log''" "arg \<noteq> ''--save-sent''" "arg \<noteq> ''--input''" "arg \<noteq> ''--rate-hz''" "arg \<noteq> ''--deadline-us''"
    by blast
  then show thesis
  proof cases
    case pos
    then show thesis
      using parsed host port frames
      by (auto simp only: parse_sender_args.simps and_then_Inr_iff if_False sender_value_parsers split: if_split_asm)
  qed (cases rest; use parsed in \<open>auto simp: and_then_Inr_iff sender_value_parsers intro: option\<close>)+
qed

lemma parse_sender_args_ok:
  "parse_sender_args args n opts = Inr opts' \<Longrightarrow> sender_options_ok opts \<Longrightarrow> sender_options_ok opts'"
proof (induction "length args" arbitrary: args n opts rule: less_induct)
  case less
  show ?case
  proof (cases args)
    case (Cons arg rest)
    have shorter: "length rest < length args" "rest = v # rest' \<Longrightarrow> length rest' < length args" for v rest'
      by (simp_all add: Cons)
    from less.prems(1) [unfolded Cons] show ?thesis
    proof (cases rule: sender_args_cases)
      case (option v rest' opts1)
      then have "sender_options_ok opts1"
        using less.prems(2) parse_rate_ok [of v] by (auto simp: sender_options_ok_def)
      then show ?thesis using less.hyps [OF shorter(2)] option by blast
    next
      case host
      then show ?thesis using less.hyps [OF shorter(1)] less.prems(2) by (simp add: sender_options_ok_def)
    next
      case (port x)
      then show ?thesis
        using less.hyps [OF shorter(1)] less.prems(2) parse_port_ok by (simp add: sender_options_ok_def)
    next
      case (frames x)
      then show ?thesis
        using less.hyps [OF shorter(1)] less.prems(2) parse_positive_ok by (simp add: sender_options_ok_def)
    qed
  qed (use less.prems in simp)
qed

lemma default_sender_options_ok: "sender_options_ok default_sender_options"
  by (simp add: sender_options_ok_def default_sender_options_def kSampleRateHz_def kMaxSampleRateHz_def)

section \<open>Correctness\<close>

lemma sender_deadline_default:
  "so_rate_hz opts \<noteq> 0 \<Longrightarrow> (of_nat (1000000 div unat (so_rate_hz opts)) + kDeadlineSlackUs :: u64) \<noteq> 0"
proof -
  let ?d = "1000000 div unat (so_rate_hz opts)"
  have "?d \<le> 1000000" by (rule div_le_dividend)
  then have "?d + 500 \<le> 1000500" by linarith
  also have "(1000500 :: nat) < 2 ^ LENGTH(64)" by simp
  finally have "unat (of_nat (?d + 500) :: u64) = ?d + 500" by (rule word_less_of_nat)
  then have "(of_nat (?d + 500) :: u64) \<noteq> 0" by (metis add_is_0 unat_0 zero_neq_numeral)
  then show ?thesis by (simp add: kDeadlineSlackUs_def)
qed

lemma parse_sender_options_range:
  assumes "parse_sender_options args = Inr opts"
  shows "so_port opts \<noteq> 0 \<and> 1 \<le> so_rate_hz opts \<and> so_rate_hz opts \<le> kMaxSampleRateHz \<and>
    so_frame_count opts \<noteq> 0 \<and> so_deadline_us opts \<noteq> 0"
proof -
  obtain o1 where o1: "parse_sender_args args 0 default_sender_options = Inr o1"
    and opts: "opts = (if so_deadline_us o1 = 0
        then o1\<lparr>so_deadline_us := of_nat (1000000 div unat (so_rate_hz o1)) + kDeadlineSlackUs\<rparr> else o1)"
    using assms by (auto simp: parse_sender_options_def and_then_Inr_iff)
  have "sender_options_ok o1" using parse_sender_args_ok [OF o1 default_sender_options_ok] .
  moreover from this have "so_rate_hz o1 \<noteq> 0" by (auto simp: sender_options_ok_def)
  ultimately show ?thesis using sender_deadline_default [of o1] by (auto simp: opts sender_options_ok_def)
qed

text \<open>
  Options that the sender accepts are in range: a usable port, a frame rate between 1 and 1000, a
  positive number of frames and a positive deadline, which is the frame period plus 500
  microseconds unless the command line gives another.
\<close>

theorem sender_options_in_range:
  assumes "parse_sender_options args = Inr opts"
  shows "so_port opts \<noteq> 0 \<and> 1 \<le> so_rate_hz opts \<and> so_rate_hz opts \<le> kMaxSampleRateHz \<and>
    so_frame_count opts \<noteq> 0 \<and> so_deadline_us opts \<noteq> 0"
  using parse_sender_options_range [OF assms] .

text \<open>A command line that sets every option.\<close>

definition sender_command_line :: "sender_options \<Rightarrow> string list" where
  "sender_command_line opts =
     [so_host opts, to_string (unat (so_port opts)), to_string (unat (so_frame_count opts)),
      ''--bind-host'', so_bind_host opts, ''--timing-log'', so_timing_log opts,
      ''--deadline-us'', to_string (unat (so_deadline_us opts)), ''--rate-hz'', to_string (unat (so_rate_hz opts)),
      ''--save-sent'', so_save_sent_dir opts, ''--input'', so_input_path opts]
     @ (if so_validate_input_module opts then [''--module-id'', to_string (unat (so_module_id opts))] else [])"

lemma parse_sender_command_line:
  assumes "sender_options_ok opts" and "so_deadline_us opts \<noteq> 0" and "\<not> starts_with ''--'' (so_host opts)"
    and "so_validate_input_module opts \<or> so_module_id opts = 0"
  shows "parse_sender_options (sender_command_line opts) = Inr opts"
proof -
  obtain host bind port frames module_id timing save input check rate deadline
    where o: "opts = \<lparr>so_host = host, so_bind_host = bind, so_port = port, so_frame_count = frames,
      so_module_id = module_id, so_timing_log = timing, so_save_sent_dir = save, so_input_path = input,
      so_validate_input_module = check, so_rate_hz = rate, so_deadline_us = deadline\<rparr>"
    by (cases opts) auto
  have ok: "port \<noteq> 0" "1 \<le> rate" "rate \<le> kMaxSampleRateHz" "frames \<noteq> 0" "deadline \<noteq> 0"
      "\<not> starts_with ''--'' host" "\<not> check \<Longrightarrow> module_id = 0"
    using assms by (auto simp: o sender_options_ok_def)
  note vals = parse_port_to_string [OF ok(1)] parse_rate_to_string [OF ok(2,3)] parse_module_to_string
    parse_positive_to_string [OF ok(4)] parse_positive_to_string [OF ok(5)]
  show ?thesis
    unfolding parse_sender_options_def sender_command_line_def o default_sender_options_def
      sender_options.simps append_Cons append_Nil
    using ok(7) by (simp only: sender_option_args sender_positional_args to_string_no_option ok(6) vals and_then.simps
        not_False_eq_True sender_options.simps sender_value_parsers) (cases check; simp only: if_True if_False
        sender_option_args sender_value_parsers vals and_then.simps parse_sender_args.simps(1) sender_options.simps
        append_Nil; simp add: ok(5))
qed

text \<open>
  Every sender configuration in range can be given on the command line and is read back
  unchanged; the host must not look like an option, and a module id is only kept when it is given.
\<close>

theorem sender_command_line_roundtrip:
  assumes "sender_options_ok opts" and "so_deadline_us opts \<noteq> 0" and "\<not> starts_with ''--'' (so_host opts)"
    and "so_validate_input_module opts \<or> so_module_id opts = 0"
  shows "parse_sender_options (sender_command_line opts) = Inr opts"
  using assms by (rule parse_sender_command_line)

definition example_sender_options :: sender_options where
  "example_sender_options =
     \<lparr>so_host = ''10.0.0.2'', so_bind_host = [], so_port = 9001, so_frame_count = 5, so_module_id = 3,
      so_timing_log = [], so_save_sent_dir = ''sent'', so_input_path = [], so_validate_input_module = True,
      so_rate_hz = 240, so_deadline_us = 900\<rparr>"

lemma example_sender_command_line:
  "parse_sender_options (sender_command_line example_sender_options) = Inr example_sender_options"
  by (rule parse_sender_command_line)
    (simp_all add: example_sender_options_def sender_options_ok_def starts_with_def kMaxSampleRateHz_def)

theorem sender_options_in_range_witness:
  "so_port example_sender_options \<noteq> 0 \<and> so_rate_hz example_sender_options \<le> kMaxSampleRateHz"
  using sender_options_in_range [OF example_sender_command_line] by blast

theorem sender_command_line_roundtrip_witness:
  "parse_sender_options (sender_command_line example_sender_options) = Inr example_sender_options"
  by (rule sender_command_line_roundtrip)
    (simp_all add: example_sender_options_def sender_options_ok_def starts_with_def kMaxSampleRateHz_def)

end
