(* ===== verification/Frame_Parser.thy ===== *)
theory Frame_Parser imports Frame begin

text \<open>
  \<open>receiver/frame_parser.h\<close> and \<open>receiver/frame_parser.cpp\<close>: the receiver's view of a
  frame's bytes.  Parsing deserialises, validates and classifies the outcome; an exception of
  the deserialiser becomes \<open>kMalformed\<close> with its message.
\<close>

unbundle bit_operations_syntax

datatype parse_error = kNone | kMalformed | kHeaderCrc | kPayloadCrc | kUnexpectedProtocol

record parse_result =
  pr_frame :: "frame option"
  pr_error :: parse_error
  pr_message :: string

definition parse_result_ok :: "parse_result \<Rightarrow> bool" where
  "parse_result_ok r \<longleftrightarrow> pr_frame r \<noteq> None \<and> pr_error r = kNone"

definition read_u32_le :: "bytes \<Rightarrow> nat \<Rightarrow> u32" where
  "read_u32_le bytes offset =
     fold (\<lambda>i value. value OR push_bit (8 * i) (ucast (bytes ! (offset + i)))) [0..<4] 0"

definition classify_validation_error :: "string \<Rightarrow> parse_error" where
  "classify_validation_error error =
     (if error = '''' then kNone
      else if error = ''header crc mismatch'' then kHeaderCrc
      else if error = ''payload crc mismatch'' then kPayloadCrc
      else kUnexpectedProtocol)"

text \<open>The frame and the message are out parameters; their new values are returned.\<close>

definition parse_frame_into :: "bytes \<Rightarrow> frame \<Rightarrow> parse_error \<times> frame \<times> string" where
  "parse_frame_into bytes frame =
     (case deserialize_frame_into bytes frame of
        (Inl what, frame) \<Rightarrow> (kMalformed, frame, what)
      | (Inr _, frame) \<Rightarrow>
          let message = validate_frame frame
          in (classify_validation_error message, frame, message))"

definition parse_frame :: "bytes \<Rightarrow> parse_result" where
  "parse_frame bytes =
     (case parse_frame_into bytes default_frame of
        (error, frame, message) \<Rightarrow>
          if error \<noteq> kNone then \<lparr>pr_frame = None, pr_error = error, pr_message = message\<rparr>
          else \<lparr>pr_frame = Some frame, pr_error = kNone, pr_message = ''''\<rparr>)"

definition parse_prefixed_frame :: "bytes \<Rightarrow> parse_result" where
  "parse_prefixed_frame header_and_payload = parse_frame header_and_payload"

definition peek_header_len :: "bytes \<Rightarrow> string + u32" where
  "peek_header_len prefix =
     (if length prefix \<noteq> 4 then Inl ''header length prefix must be 4 bytes''
      else
        let header_len = read_u32_le prefix 0
        in if unat header_len \<noteq> kHeaderSize then Inl ''unexpected header length''
           else Inr header_len)"

definition peek_payload_len :: "bytes \<Rightarrow> string + u32" where
  "peek_payload_len header_bytes =
     (if length header_bytes \<noteq> kHeaderSize then Inl ''unexpected header size''
      else Inr (read_u32_le header_bytes (4 + 2 + 2 + 2 + 2 + 8 + 8 + 2 + 2 + 2 + 2)))"

section \<open>What the parser accepts\<close>

lemma classify_kNone_iff: "classify_validation_error e = kNone \<longleftrightarrow> e = ''''"
  by (simp add: classify_validation_error_def)

lemma read_u32_le_word:
  "off + 4 \<le> length bs \<Longrightarrow> read_u32_le bs off = le_word (slice off 4 bs)"
  by (auto simp: read_u32_le_def le_word_def intro!: fold_cong)

lemma parse_frame_into_well_sized:
  "well_sized bs \<Longrightarrow> parse_frame_into bs f =
     (classify_validation_error (validate_frame (frame_at bs)), frame_at bs, validate_frame (frame_at bs))"
  by (simp add: parse_frame_into_def deserialize_well_sized Let_def)

lemma parse_frame_into_malformed_iff: "fst (parse_frame_into bs f) = kMalformed \<longleftrightarrow> \<not> well_sized bs"
proof (cases "well_sized bs")
  case True
  then show ?thesis
    by (simp add: parse_frame_into_well_sized classify_validation_error_def)
next
  case False
  then show ?thesis
    using deserialize_ok_iff [of bs f]
    by (auto simp: parse_frame_into_def split: prod.splits sum.splits)
qed

text \<open>The bytes that the parser accepts, whatever frame object it is given.\<close>

definition acceptable :: "bytes \<Rightarrow> bool" where
  "acceptable bs \<longleftrightarrow> well_sized bs \<and> validate_frame (frame_at bs) = ''''"

lemma parse_frame_into_kNone_iff: "fst (parse_frame_into bs f) = kNone \<longleftrightarrow> acceptable bs"
proof (cases "well_sized bs")
  case True
  then show ?thesis
    by (simp add: parse_frame_into_well_sized classify_kNone_iff acceptable_def)
next
  case False
  then show ?thesis
    using parse_frame_into_malformed_iff [of bs f] by (auto simp: acceptable_def)
qed

lemma parse_frame_into_kNone:
  "acceptable bs \<Longrightarrow> parse_frame_into bs f = (kNone, frame_at bs, '''')"
  by (simp add: acceptable_def parse_frame_into_well_sized classify_kNone_iff)

lemma parse_frame_ok_iff: "parse_result_ok (parse_frame bs) \<longleftrightarrow> acceptable bs"
  using parse_frame_into_kNone_iff [of bs default_frame]
  by (auto simp: parse_result_ok_def parse_frame_def split: prod.splits)

text \<open>An acceptable image, read region by region.\<close>

lemma acceptable_length: "acceptable bs \<Longrightarrow> length bs = 13684"
  by (simp add: acceptable_def well_sized_def)

lemma acceptable_prefix: "acceptable bs \<Longrightarrow> slice 0 4 bs = le_bytes (44 :: u32)"
  using le32.enc_dec [of "slice 0 4 bs"] by (simp add: acceptable_def well_sized_def)

lemma header_at_zero_crc:
  "length bs = 44 \<Longrightarrow> header_layout ((header_at bs)\<lparr>hdr_header_crc := 0\<rparr>) = take 40 bs @ le_bytes (0 :: u32)"
  by (simp add: header_layout_crc header_layout_at)

lemma acceptable_payload_len: "acceptable bs \<Longrightarrow> slice 40 4 bs = le_bytes (13632 :: u32)"
proof -
  assume acc: "acceptable bs"
  have "hdr_payload_len (header_at (slice 4 44 bs)) = 13632"
    using acc word_unat_eq_iff [of "hdr_payload_len (header_at (slice 4 44 bs))" 13632]
    by (simp add: acceptable_def well_sized_def)
  then have "le_word (slice 40 4 bs) = (13632 :: u32)"
    by (simp add: header_at_def slice_slice)
  then show ?thesis
    using le32.enc_dec [of "slice 40 4 bs"] acceptable_length [OF acc] by simp
qed

lemma acceptable_header_crc:
  "acceptable bs \<Longrightarrow> slice 44 4 bs = le_bytes (crc32 (slice 4 40 bs @ le_bytes (0 :: u32)))"
proof -
  assume acc: "acceptable bs"
  have sealed: "header_sealed (header_at (slice 4 44 bs))"
    using acc by (simp add: acceptable_def validate_frame_ok_iff frame_at_def)
  have field: "hdr_header_crc (header_at (slice 4 44 bs)) = le_word (slice 44 4 bs)"
    by (simp add: header_at_def slice_slice)
  have front: "take 40 (slice 4 44 bs) = slice 4 40 bs"
    by (simp add: slice_def)
  have "le_word (slice 44 4 bs) = crc32 (slice 4 40 bs @ le_bytes (0 :: u32))"
    using sealed header_at_zero_crc [of "slice 4 44 bs"] acceptable_length [OF acc]
    by (simp only: header_sealed_def field front) simp
  then show ?thesis
    using le32.enc_dec [of "slice 44 4 bs"] acceptable_length [OF acc] by simp
qed

lemma acceptable_payload_crc:
  "acceptable bs \<Longrightarrow> slice 13680 4 bs = le_bytes (crc32 (slice 48 13632 bs))"
proof -
  assume acc: "acceptable bs"
  have "le_word (slice 13680 4 bs) = crc32 (slice 48 13632 bs)"
    using acc acceptable_length [OF acc] payload_layout_at [of "slice 48 13632 bs"]
    by (simp add: acceptable_def validate_frame_ok_iff frame_at_def)
  then show ?thesis
    using le32.enc_dec [of "slice 13680 4 bs"] acceptable_length [OF acc] by simp
qed

section \<open>Corruption on the wire\<close>

text \<open>Data followed by its own checksum drives the register to a constant.\<close>

lemma fold_crc_byte_le32:
  "fold crc_byte (le_bytes (v :: u32)) c = crc_bits 32 (c XOR v)"
proof -
  have upt4: "[0..<4] = [0, 1, 2, 3 :: nat]"
    by (simp add: upt_conv_Cons)
  have bs: "le_bytes v = [le_byte v 0, le_byte v 1, le_byte v 2, le_byte v 3]"
    by (simp add: le_bytes_def upt4)
  have "le4 (le_byte v 0) (le_byte v 1) (le_byte v 2) (le_byte v 3) = v"
    by (rule bit_word_eqI) (auto simp: bit_le4 bit_le_byte)
  then show ?thesis
    by (simp only: bs fold_crc_byte4)
qed

lemma fold_crc_residue: "fold crc_byte (bs @ le_bytes (crc32 bs)) 0xFFFFFFFF = crc_bits 32 (- 1)"
  by (simp only: fold_append o_apply fold_crc_byte_le32) (simp add: crc32_eq_fold)

lemma acceptable_payload_residue:
  "acceptable bs \<Longrightarrow> fold crc_byte (slice 48 13636 bs) 0xFFFFFFFF = crc_bits 32 (- 1)"
proof -
  assume acc: "acceptable bs"
  have "slice 48 13636 bs = slice 48 13632 bs @ slice (48 + 13632) 4 bs"
    by (simp only: slice_add [symmetric]) simp
  also have "\<dots> = slice 48 13632 bs @ le_bytes (crc32 (slice 48 13632 bs))"
    using acceptable_payload_crc [OF acc] by simp
  finally show ?thesis by (simp only: fold_crc_residue)
qed

text \<open>
  Two images that agree outside a window of 32 consecutive bits, from bit number \<open>a\<close> on.  The bits are
  numbered byte by byte, the lowest bit of a byte first, as the checksum takes them.
\<close>

definition agree_outside :: "nat \<Rightarrow> bytes \<Rightarrow> bytes \<Rightarrow> bool" where
  "agree_outside a bs bs' \<longleftrightarrow> length bs' = length bs
     \<and> (\<forall>i < 8 * length bs. i < a \<or> a + 32 \<le> i \<longrightarrow> message_bits bs' ! i = message_bits bs ! i)"

lemma message_bits_slice:
  "off + n \<le> length bs \<Longrightarrow> i < 8 * n \<Longrightarrow> message_bits (slice off n bs) ! i = message_bits bs ! (8 * off + i)"
  by (simp add: nth_message_bits nth_slice)

lemma agree_outside_slice:
  assumes "agree_outside a bs bs'" "off + n \<le> length bs" "8 * (off + n) \<le> a \<or> a + 32 \<le> 8 * off"
  shows "slice off n bs' = slice off n bs"
proof -
  have "message_bits (slice off n bs') = message_bits (slice off n bs)"
    by (rule nth_equalityI) (use assms in \<open>auto simp: agree_outside_def message_bits_slice\<close>)
  then show ?thesis by (rule message_bits_inj)
qed

lemma agree_outside_crc:
  assumes "agree_outside a bs bs'" and "off + n \<le> length bs"
    and "fold crc_byte (slice off n bs' @ post) c = fold crc_byte (slice off n bs @ post) c"
  shows "slice off n bs' = slice off n bs"
proof -
  have "message_bits (slice off n bs' @ post) = message_bits (slice off n bs @ post)"
  proof (rule crc.agree_outside_window [OF _ _ assms(3) [unfolded fold_crc_byte_bits], of "a - 8 * off"])
    show "length (message_bits (slice off n bs' @ post)) = length (message_bits (slice off n bs @ post))"
      using assms(1) by (simp add: agree_outside_def)
  next
    fix i
    assume "i < length (message_bits (slice off n bs @ post))" "i < a - 8 * off \<or> a - 8 * off + 32 \<le> i"
    then show "message_bits (slice off n bs' @ post) ! i = message_bits (slice off n bs @ post) ! i"
      using assms(1,2) by (auto simp: nth_append message_bits_slice agree_outside_def)
  qed
  then show ?thesis using message_bits_inj by blast
qed

lemma acceptable_header_determined:
  assumes acc: "acceptable bs" "acceptable bs'" and agree: "agree_outside a bs bs'"
  shows "slice 4 40 bs' = slice 4 40 bs"
proof (cases "a + 32 \<le> 352")
  case True
  have "slice 44 4 bs' = slice 44 4 bs"
    using agree True acceptable_length [OF acc(1)] by (intro agree_outside_slice) auto
  then have "crc32 (slice 4 40 bs' @ le_bytes (0 :: u32)) = crc32 (slice 4 40 bs @ le_bytes (0 :: u32))"
    using acc acceptable_header_crc by (metis le32.dec_enc)
  then have "fold crc_byte (slice 4 40 bs' @ le_bytes (0 :: u32)) 0xFFFFFFFF
      = fold crc_byte (slice 4 40 bs @ le_bytes (0 :: u32)) 0xFFFFFFFF"
    unfolding crc32_eq_fold by (simp only: bit.compl_eq_compl_iff)
  then show ?thesis
    using agree acceptable_length [OF acc(1)] by (intro agree_outside_crc) auto
next
  case False
  have "slice 4 36 bs' = slice 4 36 bs"
    using agree False acceptable_length [OF acc(1)] by (intro agree_outside_slice) auto
  moreover have "slice 40 4 bs' = slice 40 4 bs"
    using acc acceptable_payload_len by metis
  moreover have "slice 4 40 xs = slice 4 36 xs @ slice 40 4 xs" for xs :: bytes
    using slice_add [of 4 36 4 xs] by simp
  ultimately show ?thesis by simp
qed

text \<open>
  C10: no burst of errors that stays within 32 consecutive bits of a frame goes unnoticed, wherever it
  begins: an image that the receiver accepts and one that differs from it only inside such a window
  are never both accepted.
\<close>

theorem parser_rejects_burst:
  assumes "parse_result_ok (parse_frame bs)" and "agree_outside a bs bs'" and "bs' \<noteq> bs"
  shows "\<not> parse_result_ok (parse_frame bs')"
proof
  assume "parse_result_ok (parse_frame bs')"
  with assms(1) have acc: "acceptable bs" "acceptable bs'" by (simp_all add: parse_frame_ok_iff)
  note len = acceptable_length [OF acc(1)] acceptable_length [OF acc(2)]
  have h40: "slice 4 40 bs' = slice 4 40 bs"
    using acc assms(2) by (rule acceptable_header_determined)
  then have crc: "slice 44 4 bs' = slice 44 4 bs"
    using acc acceptable_header_crc by metis
  have pre: "slice 0 4 bs' = slice 0 4 bs"
    using acc acceptable_prefix by metis
  have rest: "slice 48 13636 bs' = slice 48 13636 bs"
    using assms(2) len acceptable_payload_residue [OF acc(1)] acceptable_payload_residue [OF acc(2)]
    by (intro agree_outside_crc [where post = "[]" and c = "0xFFFFFFFF"]) auto
  have split: "xs = slice 0 4 xs @ slice 4 40 xs @ slice 44 4 xs @ slice 48 13636 xs"
    if "length xs = 13684" for xs :: bytes
  proof -
    have "xs = slice 0 (4 + 40 + 4 + 13636) xs" using that by simp
    also have "\<dots> = slice 0 4 xs @ slice (0 + 4) 40 xs @ slice (0 + 4 + 40) 4 xs @ slice (0 + 4 + 40 + 4) 13636 xs"
      by (simp only: slice_add append_assoc add.assoc)
    finally show ?thesis by simp
  qed
  have "bs' = bs"
    using split [OF len(1)] split [OF len(2)] h40 crc pre rest by metis
  with assms(3) show False by contradiction
qed

text \<open>Four bits at the end of one byte and four at the beginning of the fourth byte after it.\<close>

theorem parser_rejects_burst_witness:
  "\<not> parse_result_ok (parse_frame ((serialize_frame example_frame)[50 := 0xF0, 54 := 0x0F]))"
proof (rule parser_rejects_burst [where bs = "serialize_frame example_frame" and a = 404])
  let ?bs = "serialize_frame example_frame"
  have lay: "?bs = wire_layout (sealed_frame example_frame)"
    by (simp add: serialize_frame_layout)
  show "parse_result_ok (parse_frame ?bs)"
    by (simp add: parse_frame_ok_iff acceptable_def lay well_sized_wire_layout frame_at_wire_layout
        validate_frame_ok_iff payload_crc_layout)
  have "?bs ! 50 = 0 \<and> ?bs ! 54 = 0"
  proof -
    have "?bs ! 50 = slice 48 13632 ?bs ! 2" "?bs ! 54 = slice 48 13632 ?bs ! 6"
      by (subst nth_slice; simp add: lay)+
    moreover have "slice 48 13632 ?bs = payload_layout (fr_payload example_frame)"
      by (simp add: lay wire_layout_def slice_append_left slice_append_right length_le_bytes length_header_layout)
    moreover have "\<dots> = sample_layout \<lparr>re = 7, im = 8\<rparr> @ payload_layout (replicate 1703 \<lparr>re = 7, im = 8\<rparr>)"
      using replicate_Suc [of 1703 "\<lparr>re = 7, im = 8\<rparr>"] by (simp add: example_frame_def payload_layout_def)
    ultimately show ?thesis
      by (simp add: sample_layout_def nth_append length_le_bytes) (simp add: le_bytes_def le_byte_def)
  qed
  then have zero: "?bs ! 50 = 0" "?bs ! 54 = 0" by simp_all
  have len: "54 < length ?bs" "50 < length ?bs" by (simp_all add: lay)
  show "agree_outside 404 ?bs (?bs[50 := 0xF0, 54 := 0x0F])"
    unfolding agree_outside_def
  proof (intro conjI allI impI)
    fix i
    assume i: "i < 8 * length ?bs" "i < 404 \<or> 404 + 32 \<le> i"
    have "\<not> bit (0xF0 :: byte) (i mod 8)" if "i div 8 = 50"
    proof -
      have "i mod 8 < 4" using that i(2) by presburger
      then have "i mod 8 \<in> {0, 1, 2, 3}" by auto
      then show ?thesis by auto
    qed
    moreover have "\<not> bit (0x0F :: byte) (i mod 8)" if "i div 8 = 54"
    proof -
      have "4 \<le> i mod 8 \<and> i mod 8 < 8" using that i(2) by presburger
      then have "i mod 8 \<in> {4, 5, 6, 7}" by auto
      then show ?thesis by auto
    qed
    ultimately show "message_bits (?bs[50 := 0xF0, 54 := 0x0F]) ! i = message_bits ?bs ! i"
      using i(1) zero len by (auto simp: nth_message_bits nth_list_update)
  qed simp
  have set50: "?bs[50 := 0xF0, 54 := 0x0F] ! 50 = 0xF0" using len by simp
  show "?bs[50 := 0xF0, 54 := 0x0F] \<noteq> ?bs"
  proof
    assume "?bs[50 := 0xF0, 54 := 0x0F] = ?bs"
    then have "?bs[50 := 0xF0, 54 := 0x0F] ! 50 = ?bs ! 50" by (rule arg_cong [where f = "\<lambda>xs. xs ! 50"])
    then have "(0xF0 :: byte) = 0" unfolding set50 zero(1) .
    then show False by simp
  qed
qed

section \<open>Classification\<close>

text \<open>
  C24: every input gets exactly one verdict, and the verdict says which layer failed: the sizes, the
  fields that the protocol fixes, the header checksum or the payload checksum, in this order.
\<close>

theorem parse_frame_classifies:
  "pr_error (parse_frame bs) =
     (if \<not> well_sized bs then kMalformed
      else if \<not> header_fields_ok (fr_header (frame_at bs)) then kUnexpectedProtocol
      else if \<not> header_sealed (fr_header (frame_at bs)) then kHeaderCrc
      else if fr_payload_crc (frame_at bs) \<noteq> payload_crc (fr_payload (frame_at bs)) then kPayloadCrc
      else kNone)"
proof (cases "well_sized bs")
  case False
  then have "fst (parse_frame_into bs default_frame) = kMalformed"
    by (simp add: parse_frame_into_malformed_iff)
  then show ?thesis using False by (auto simp: parse_frame_def split: prod.splits)
next
  case True
  then have "unat (hdr_payload_len (fr_header (frame_at bs))) = length (fr_payload (frame_at bs)) * kSampleBytes"
    by (simp add: well_sized_def frame_at_def)
  then have "classify_validation_error (validate_frame (frame_at bs)) =
     (if \<not> header_fields_ok (fr_header (frame_at bs)) then kUnexpectedProtocol
      else if \<not> header_sealed (fr_header (frame_at bs)) then kHeaderCrc
      else if fr_payload_crc (frame_at bs) \<noteq> payload_crc (fr_payload (frame_at bs)) then kPayloadCrc
      else kNone)"
    by (auto simp: validate_frame_def header_fields_ok_def header_sealed_def Let_def word_gt_0 not_le
        classify_validation_error_def encode_header_layout)
  then show ?thesis
    using True by (simp add: parse_frame_def parse_frame_into_well_sized)
qed

end
