(* ===== verification/Data_Simulator.thy ===== *)
theory Data_Simulator imports Frame_Parser begin

text \<open>
  \<open>sender/data_simulator.cpp\<close> and \<open>sender/frame_encoder.cpp\<close>: the simulated detector data
  and its encoding, which is the serialisation of \<open>common/frame.cpp\<close> under another name.
\<close>

unbundle bit_operations_syntax

definition simulated_sample :: "u64 \<Rightarrow> nat \<Rightarrow> complex_sample" where
  "simulated_sample frame_id channel =
     (let base = (ucast (frame_id + of_nat channel) :: u32)
      in \<lparr>re = base, im = NOT base\<rparr>)"

text \<open>\<open>std::vector::resize\<close> on the payload.\<close>

definition resize_samples :: "nat \<Rightarrow> complex_sample list \<Rightarrow> complex_sample list" where
  "resize_samples n samples = take n samples @ replicate (n - length samples) default_sample"

definition fill_frame :: "frame \<Rightarrow> u64 \<Rightarrow> u64 \<Rightarrow> u16 \<Rightarrow> u16 \<Rightarrow> frame" where
  "fill_frame frame frame_id timestamp_ns module_id sample_rate_hz =
     (let header = default_header
            \<lparr>hdr_module_id := module_id, hdr_sample_rate_hz := sample_rate_hz,
             hdr_frame_id := frame_id, hdr_timestamp_ns := timestamp_ns\<rparr>;
          samples = (if length (fr_payload frame) \<noteq> unat kChannelCount
                     then resize_samples (unat kChannelCount) (fr_payload frame)
                     else fr_payload frame);
          samples = fold (\<lambda>channel ps. ps[channel := simulated_sample frame_id channel])
                      [0..<length samples] samples
      in frame\<lparr>fr_header := header, fr_payload := samples\<rparr>)"

definition make_frame :: "u64 \<Rightarrow> u64 \<Rightarrow> u16 \<Rightarrow> frame" where
  "make_frame frame_id timestamp_ns module_id =
     fill_frame (default_frame\<lparr>fr_payload := resize_samples (unat kChannelCount) []\<rparr>)
       frame_id timestamp_ns module_id kSampleRateHz"

definition encode_frame :: "frame \<Rightarrow> bytes" where
  "encode_frame frame = serialize_frame frame"

definition encode_frame_into :: "frame \<Rightarrow> bytes \<Rightarrow> bytes" where
  "encode_frame_into frame out = serialize_frame_into frame out"

section \<open>Lemmas\<close>

lemma length_resize_samples [simp]: "length (resize_samples n samples) = n"
  by (simp add: resize_samples_def)

lemma fold_update_all:
  "n \<le> length xs \<Longrightarrow> fold (\<lambda>i xs. xs[i := f i]) [0..<n] xs = map f [0..<n] @ drop n xs"
proof (induction n)
  case (Suc n)
  then have "drop n xs = xs ! n # drop (Suc n) xs" by (simp add: Cons_nth_drop_Suc)
  with Suc show ?case by (simp add: list_update_append)
qed simp

lemma fill_frame_payload:
  "fr_payload (fill_frame f fid ts m r) = map (simulated_sample fid) [0..<1704]"
  by (simp add: fill_frame_def Let_def fold_update_all)

lemma fill_frame_header:
  "fr_header (fill_frame f fid ts m r) = default_header
     \<lparr>hdr_module_id := m, hdr_sample_rate_hz := r, hdr_frame_id := fid, hdr_timestamp_ns := ts\<rparr>"
  by (simp add: fill_frame_def Let_def)

lemma header_fields_ok_fill:
  "header_fields_ok (fr_header (fill_frame f fid ts m r)) \<longleftrightarrow> 0 < r \<and> r \<le> kMaxSampleRateHz"
  using header_fields_ok_default by (simp add: fill_frame_header header_fields_ok_def default_header_def)

text \<open>A serialised frame with good fields is parsed, into the sealed frame.\<close>

lemma parse_serialized:
  assumes "length (fr_payload f) = 1704" and "header_fields_ok (fr_header f)"
  shows "parse_frame_into (serialize_frame f) g = (kNone, sealed_frame f, '''')"
proof -
  have lay: "serialize_frame f = wire_layout (sealed_frame f)"
    using assms(1) by (simp add: serialize_frame_layout)
  have "acceptable (serialize_frame f)"
    using assms by (simp add: acceptable_def lay well_sized_wire_layout frame_at_wire_layout
        validate_frame_ok_iff payload_crc_layout)
  then show ?thesis
    using assms(1) by (simp add: parse_frame_into_kNone lay frame_at_wire_layout)
qed

lemma serialized_acceptable:
  assumes "length (fr_payload f) = 1704" and "header_fields_ok (fr_header f)"
  shows "acceptable (serialize_frame f)" "frame_at (serialize_frame f) = sealed_frame f"
proof -
  note parsed = parse_serialized [OF assms, of default_frame]
  then show ok: "acceptable (serialize_frame f)" by (metis fst_conv parse_frame_into_kNone_iff)
  show "frame_at (serialize_frame f) = sealed_frame f"
    using parsed parse_frame_into_kNone [OF ok, of default_frame] by simp
qed

lemma sealed_frame_header:
  "hdr_frame_id (fr_header (sealed_frame f)) = hdr_frame_id (fr_header f)"
  "hdr_timestamp_ns (fr_header (sealed_frame f)) = hdr_timestamp_ns (fr_header f)"
  "hdr_module_id (fr_header (sealed_frame f)) = hdr_module_id (fr_header f)"
  "hdr_sample_rate_hz (fr_header (sealed_frame f)) = hdr_sample_rate_hz (fr_header f)"
  "fr_payload (sealed_frame f) = fr_payload f"
  by (simp_all add: sealed_frame_def sealed_header_def Let_def)

lemma parse_filled:
  assumes "0 < rate" and "rate \<le> kMaxSampleRateHz"
  shows "parse_frame_into (encode_frame (fill_frame f fid ts m rate)) g
    = (kNone, sealed_frame (fill_frame f fid ts m rate), [])"
  unfolding encode_frame_def
  by (rule parse_serialized) (use assms in \<open>simp_all only: header_fields_ok_fill, simp add: fill_frame_payload\<close>)

lemma signed_not: "sint (NOT (w :: 'a::len word)) = - sint w - 1"
proof -
  have "sint (NOT w) = NOT (sint w)"
    by (rule bit_eqI) (auto simp: bit_simps min_def)
  then show ?thesis by (simp add: not_int_def)
qed

section \<open>Properties\<close>

text \<open>
  A simulated frame at any rate the protocol allows is accepted by the receiver's parser and
  carries the frame id, module, rate and time it was made with; channel \<open>i\<close> holds the value
  that the README documents, an imaginary part that is minus the real part minus one included.
\<close>

theorem simulated_frame_received:
  assumes "0 < rate" and "rate \<le> kMaxSampleRateHz"
  shows "\<exists>g. parse_frame_into (encode_frame (fill_frame f fid ts m rate)) f' = (kNone, g, '''')
     \<and> hdr_frame_id (fr_header g) = fid \<and> hdr_timestamp_ns (fr_header g) = ts
     \<and> hdr_module_id (fr_header g) = m \<and> hdr_sample_rate_hz (fr_header g) = rate
     \<and> length (fr_payload g) = unat kChannelCount
     \<and> (\<forall>i < unat kChannelCount.
          re (fr_payload g ! i) = ucast (fid + of_nat i)
          \<and> sint (im (fr_payload g ! i)) = - sint (re (fr_payload g ! i)) - 1)"
  using assms
  by (intro exI [of _ "sealed_frame (fill_frame f fid ts m rate)"])
    (simp add: parse_filled fill_frame_payload fill_frame_header simulated_sample_def Let_def signed_not)

theorem simulated_frame_received_witness:
  "\<exists>g. parse_frame_into (encode_frame (fill_frame default_frame 42 9 3 240)) default_frame = (kNone, g, '''')
     \<and> re (fr_payload g ! 1) = 43 \<and> sint (im (fr_payload g ! 1)) = - 44"
proof -
  have "(0 :: u16) < 240" "(240 :: u16) \<le> kMaxSampleRateHz" by (simp_all add: kMaxSampleRateHz_def)
  from simulated_frame_received [OF this, of default_frame 42 9 3 default_frame] obtain g where
    g: "parse_frame_into (encode_frame (fill_frame default_frame 42 9 3 240)) default_frame = (kNone, g, '''')"
    and samples: "\<forall>i < unat kChannelCount. re (fr_payload g ! i) = ucast (42 + of_nat i :: u64)
          \<and> sint (im (fr_payload g ! i)) = - sint (re (fr_payload g ! i)) - 1"
    by blast
  from samples [rule_format, of 1] have "re (fr_payload g ! 1) = 43"
      "sint (im (fr_payload g ! 1)) = - 44"
    by simp_all
  with g show ?thesis by blast
qed

end
