(* ===== verification/Filesystem.thy ===== *)
theory Filesystem
  imports Decimal "HOL-Library.AList"
begin

text \<open>
  What the program uses of \<open>std::filesystem\<close>: paths as lists of components, ordered
  component by component as \<open>std::filesystem::path\<close> orders them, and a file system as an
  association list of nodes, whose order is the order in which a directory is iterated.  A regular
  file that cannot be opened (missing permission) is marked as such.
\<close>

section \<open>Paths\<close>

datatype path = Path (components: "string list")

instantiation path :: linorder
begin

definition less_eq_path :: "path \<Rightarrow> path \<Rightarrow> bool" where
  "less_eq_path p q \<longleftrightarrow> components p \<le> components q"

definition less_path :: "path \<Rightarrow> path \<Rightarrow> bool" where
  "less_path p q \<longleftrightarrow> components p < components q"

instance
  by standard (auto simp: less_eq_path_def less_path_def path.expand)

end

definition path_join :: "path \<Rightarrow> string \<Rightarrow> path" where
  "path_join p name = Path (components p @ [name])"

definition path_filename :: "path \<Rightarrow> string" where
  "path_filename p = (if components p = [] then [] else last (components p))"

definition in_directory :: "path \<Rightarrow> path \<Rightarrow> bool" where
  "in_directory dir p \<longleftrightarrow> components p \<noteq> [] \<and> butlast (components p) = components dir"

text \<open>
  \<open>path::extension\<close>: from the last dot of the file name on, empty if there is none or if it is the
  first character.
\<close>

definition path_extension :: "path \<Rightarrow> string" where
  "path_extension p =
     (let name = path_filename p; tail = takeWhile (\<lambda>c. c \<noteq> CHR ''.'') (rev name)
      in if name = ''..'' \<or> length name \<le> length tail + 1 then [] else CHR ''.'' # rev tail)"

lemma path_join_inj [simp]: "path_join p a = path_join p b \<longleftrightarrow> a = b"
  by (simp add: path_join_def)

lemma path_filename_join [simp]: "path_filename (path_join p name) = name"
  by (simp add: path_filename_def path_join_def)

lemma in_directory_join [simp]: "in_directory p (path_join p name)"
  by (simp add: in_directory_def path_join_def)

lemma in_directory_iff: "in_directory dir p \<longleftrightarrow> (\<exists>name. p = path_join dir name)"
proof
  assume "in_directory dir p"
  then have "p = path_join dir (last (components p))"
    unfolding in_directory_def path_join_def by (metis append_butlast_last_id path.collapse)
  then show "\<exists>name. p = path_join dir name" ..
qed auto

lemma path_join_neq [simp]: "path_join p name \<noteq> p" "p \<noteq> path_join p name"
  by (cases p; simp add: path_join_def)+

lemma path_join_less [simp]: "path_join p a < path_join p b \<longleftrightarrow> a < b"
  by (simp add: path_join_def less_path_def list_less_append_left)

section \<open>Nodes\<close>

datatype node = Directory | Regular (can_open: bool) (contents: bytes)

type_synonym filesystem = "(path \<times> node) list"

definition is_directory :: "filesystem \<Rightarrow> path \<Rightarrow> bool" where
  "is_directory fs p \<longleftrightarrow> map_of fs p = Some Directory"

definition is_regular_file :: "filesystem \<Rightarrow> path \<Rightarrow> bool" where
  "is_regular_file fs p \<longleftrightarrow> (case map_of fs p of Some (Regular _ _) \<Rightarrow> True | _ \<Rightarrow> False)"

definition file_contents :: "filesystem \<Rightarrow> path \<Rightarrow> bytes option" where
  "file_contents fs p = (case map_of fs p of Some (Regular True bs) \<Rightarrow> Some bs | _ \<Rightarrow> None)"

text \<open>\<open>directory_iterator\<close>\<close>

definition directory_entries :: "filesystem \<Rightarrow> path \<Rightarrow> path list" where
  "directory_entries fs dir = filter (in_directory dir) (map fst fs)"

definition set_node :: "path \<Rightarrow> node \<Rightarrow> filesystem \<Rightarrow> filesystem" where
  "set_node p n fs = AList.update p n fs"

text \<open>\<open>create_directories\<close>: every missing prefix of the path becomes a directory.\<close>

definition create_directories :: "path \<Rightarrow> filesystem \<Rightarrow> filesystem" where
  "create_directories p fs =
     fold (\<lambda>k fs. let q = Path (take k (components p))
                  in if map_of fs q = None then set_node q Directory fs else fs)
       [1..<length (components p) + 1] fs"

lemma map_of_set_node [simp]: "map_of (set_node p n fs) = (map_of fs)(p \<mapsto> n)"
  by (simp add: set_node_def update_conv')

lemma distinct_set_node [simp]: "distinct (map fst fs) \<Longrightarrow> distinct (map fst (set_node p n fs))"
  by (simp add: set_node_def distinct_update)

lemma keys_set_node: "fst ` set (set_node p n fs) = insert p (fst ` set fs)"
  by (simp add: set_node_def update_conv' flip: dom_map_of_conv_image_fst)

lemma file_contents_set_node [simp]:
  "file_contents (set_node p n fs) q
   = (if q = p then (case n of Regular True bs \<Rightarrow> Some bs | _ \<Rightarrow> None) else file_contents fs q)"
  by (simp add: file_contents_def)

lemma create_directories_keeps:
  "map_of fs q \<noteq> None \<Longrightarrow> map_of (create_directories p fs) q = map_of fs q"
proof -
  have "map_of fs q \<noteq> None \<Longrightarrow>
      map_of (fold (\<lambda>k fs. let q = Path (take k (components p))
          in if map_of fs q = None then set_node q Directory fs else fs) ks fs) q = map_of fs q" for ks
    by (induction ks arbitrary: fs) (auto simp: Let_def)
  then show "map_of fs q \<noteq> None \<Longrightarrow> map_of (create_directories p fs) q = map_of fs q"
    by (simp add: create_directories_def)
qed

lemma create_directories_other:
  assumes "\<And>k. q \<noteq> Path (take k (components p))"
  shows "map_of (create_directories p fs) q = map_of fs q"
proof -
  have "map_of (fold (\<lambda>k fs. let q = Path (take k (components p))
          in if map_of fs q = None then set_node q Directory fs else fs) ks fs) q = map_of fs q" for ks
    using assms by (induction ks arbitrary: fs) (auto simp: Let_def)
  then show ?thesis by (simp add: create_directories_def)
qed

lemma file_contents_create_directories: "file_contents (create_directories p fs) q = file_contents fs q"
proof -
  have "file_contents (fold (\<lambda>k fs. let q = Path (take k (components p))
          in if map_of fs q = None then set_node q Directory fs else fs) ks fs) q = file_contents fs q" for ks
    by (induction ks arbitrary: fs) (auto simp: Let_def file_contents_def)
  then show ?thesis by (simp add: create_directories_def)
qed

text \<open>A path given as text, split at the slashes.\<close>

definition to_path :: "string \<Rightarrow> path" where
  "to_path text =
     (if text = [] then Path []
      else Path (foldr (\<lambda>c cs. if c = CHR ''/'' then [] # cs else (c # hd cs) # tl cs) text [[]]))"

lemma to_path_example: "to_path ''captures/raw'' = Path [''captures'', ''raw'']"
  by (simp add: to_path_def)

end
