(* ===== verification/Capture_Writer.thy ===== *)
theory Capture_Writer
  imports Frame Filesystem
begin

text \<open>
  \<open>common/capture_writer.{h,cpp}\<close>: wire frames appended to numbered segment files.  The outcomes
  of the operating system (whether a directory or file can be made, how many bytes of a write are
  accepted) are arguments of each call; the file system is threaded through.  The stream is
  modelled without its buffer: an accepted byte is in the file.
\<close>

section \<open>State and operations\<close>

definition segment_name :: "u64 \<Rightarrow> string" where
  "segment_name segment_id = ''segment-'' @ pad_zeros 6 (to_string (unat segment_id)) @ ''.bin''"

record capture_writer =
  cw_root :: path
  cw_frames_per_segment :: u64
  cw_current_segment :: u64
  cw_frames_written :: u64
  cw_open :: "path option"
  cw_good :: bool

text \<open>The outcome of the system calls that one \<open>write\<close> may make.\<close>

record write_env =
  mkdir_ok :: bool
  open_ok :: bool
  accepts :: nat

definition new_capture_writer :: "path \<Rightarrow> u64 \<Rightarrow> capture_writer" where
  "new_capture_writer root frames_per_segment =
     \<lparr>cw_root = root, cw_frames_per_segment = frames_per_segment, cw_current_segment = - 1,
      cw_frames_written = 0, cw_open = None, cw_good = True\<rparr>"

definition segment_path :: "capture_writer \<Rightarrow> u64 \<Rightarrow> path" where
  "segment_path w segment_id = path_join (cw_root w) (segment_name segment_id)"

definition append_file :: "path \<Rightarrow> bytes \<Rightarrow> filesystem \<Rightarrow> filesystem" where
  "append_file p bs fs =
     (case map_of fs p of Some (Regular r old) \<Rightarrow> set_node p (Regular r (old @ bs)) fs | _ \<Rightarrow> fs)"

text \<open>\<open>CaptureWriter::open_segment\<close>\<close>

definition open_segment ::
  "u64 \<Rightarrow> write_env \<Rightarrow> capture_writer \<times> filesystem \<Rightarrow> bool \<times> capture_writer \<times> filesystem" where
  "open_segment segment_id env = (\<lambda>(w, fs).
     if segment_id = cw_current_segment w \<and> cw_good w then (True, w, fs)
     else
       let fs1 = (if mkdir_ok env then create_directories (cw_root w) fs else fs);
           p = segment_path w segment_id
       in if open_ok env
          then (True, w\<lparr>cw_open := Some p, cw_good := True, cw_current_segment := segment_id\<rparr>,
                set_node p (Regular True []) fs1)
          else (False, w\<lparr>cw_open := None, cw_good := False\<rparr>, fs1))"

text \<open>\<open>CaptureWriter::write\<close>\<close>

definition write_frame ::
  "bytes \<Rightarrow> write_env \<Rightarrow> capture_writer \<times> filesystem \<Rightarrow> bool \<times> capture_writer \<times> filesystem" where
  "write_frame wire_frame env = (\<lambda>(w, fs).
     if cw_frames_per_segment w = 0 \<or> length wire_frame \<noteq> kWireFrameSize then (False, w, fs)
     else
       case open_segment (cw_frames_written w div cw_frames_per_segment w) env (w, fs) of
         (False, w1, fs1) \<Rightarrow> (False, w1, fs1)
       | (True, w1, fs1) \<Rightarrow>
           (case cw_open w1 of
              None \<Rightarrow> (False, w1\<lparr>cw_good := False\<rparr>, fs1)
            | Some p \<Rightarrow>
                let fs2 = append_file p (take (accepts env) wire_frame) fs1
                in if accepts env < length wire_frame
                   then (False, w1\<lparr>cw_good := False\<rparr>, fs2)
                   else (True, w1\<lparr>cw_frames_written := cw_frames_written w1 + 1\<rparr>, fs2)))"

text \<open>\<open>CaptureWriter::flush\<close>, where the argument says whether the stream could be flushed\<close>

definition flush_writer :: "bool \<Rightarrow> capture_writer \<Rightarrow> bool \<times> capture_writer" where
  "flush_writer flush_ok w =
     (let w1 = (if cw_open w \<noteq> None then w\<lparr>cw_good := cw_good w \<and> flush_ok\<rparr> else w)
      in (cw_open w1 = None \<or> cw_good w1, w1))"

text \<open>The callers stop at the first write that fails.\<close>

fun write_all ::
  "(bytes \<times> write_env) list \<Rightarrow> capture_writer \<times> filesystem \<Rightarrow> nat \<times> capture_writer \<times> filesystem" where
  "write_all [] st = (0, st)"
| "write_all ((f, env) # rest) st =
     (case write_frame f env st of
        (False, st') \<Rightarrow> (0, st')
      | (True, st') \<Rightarrow> (case write_all rest st' of (n, st'') \<Rightarrow> (Suc n, st'')))"

section \<open>Segment names\<close>

lemma segment_name_inj [simp]: "segment_name a = segment_name b \<longleftrightarrow> a = b"
proof
  assume "segment_name a = segment_name b"
  then have "pad_zeros 6 (to_string (unat a)) = pad_zeros 6 (to_string (unat b))" by (simp add: segment_name_def)
  then show "a = b" by (metis pad_zeros_value unsigned_word_eqI)
qed simp

lemma segment_path_inj [simp]: "segment_path w a = segment_path w b \<longleftrightarrow> a = b"
  by (simp add: segment_path_def)

lemma file_contents_append:
  "file_contents (append_file p bs fs) q
   = (if q = p then map_option (\<lambda>old. old @ bs) (file_contents fs p) else file_contents fs q)"
  by (auto simp: append_file_def file_contents_def split: option.splits node.splits bool.splits)

lemma file_contents_cong: "map_of fs p = map_of fs' p \<Longrightarrow> file_contents fs p = file_contents fs' p"
  by (simp add: file_contents_def)

lemma map_of_append_other: "q \<noteq> p \<Longrightarrow> map_of (append_file p bs fs) q = map_of fs q"
  by (auto simp: append_file_def split: option.splits node.splits)

section \<open>What the segments hold\<close>

text \<open>The bytes that segment \<open>k\<close> is meant to hold after the given frames were written.\<close>

definition segment_bytes :: "nat \<Rightarrow> bytes list \<Rightarrow> nat \<Rightarrow> bytes" where
  "segment_bytes fps frames k = concat (take fps (drop (k * fps) frames))"

lemma segment_bytes_snoc:
  assumes "0 < fps" "k * fps \<le> length frames"
  shows "segment_bytes fps (frames @ [f]) k
       = segment_bytes fps frames k @ (if k = length frames div fps then f else [])"
proof -
  have "length frames - k * fps < fps \<longleftrightarrow> k = length frames div fps"
  proof
    assume "length frames - k * fps < fps"
    then have "length frames div fps = k"
      using assms by (intro div_nat_eqI) (auto simp: algebra_simps)
    then show "k = length frames div fps" ..
  next
    assume "k = length frames div fps"
    then show "length frames - k * fps < fps"
      using assms mod_less_divisor [of fps "length frames"] by (simp add: minus_div_mult_eq_mod)
  qed
  then show ?thesis using assms by (auto simp: segment_bytes_def)
qed

lemma segment_bytes_fresh: "length frames \<le> k * fps \<Longrightarrow> segment_bytes fps frames k = []"
  by (simp add: segment_bytes_def)

text \<open>The segments of the frames written so far, in a writer's directory.\<close>

definition segment_length :: "capture_writer \<Rightarrow> nat" where
  "segment_length w = unat (cw_frames_per_segment w)"

definition segment :: "capture_writer \<Rightarrow> nat \<Rightarrow> path" where
  "segment w k = segment_path w (of_nat k)"

definition segments_hold :: "bytes list \<Rightarrow> bytes \<Rightarrow> capture_writer \<Rightarrow> filesystem \<Rightarrow> bool" where
  "segments_hold frames extra w fs \<longleftrightarrow>
     (\<forall>k. k * segment_length w < length frames \<longrightarrow>
        file_contents fs (segment w k)
        = Some (segment_bytes (segment_length w) frames k
            @ (if k = length frames div segment_length w then extra else [])))"

definition others_kept :: "nat \<Rightarrow> filesystem \<Rightarrow> capture_writer \<Rightarrow> filesystem \<Rightarrow> bool" where
  "others_kept n fs0 w fs \<longleftrightarrow>
     (\<forall>p. in_directory (cw_root w) p \<longrightarrow> (\<forall>k. k * segment_length w < n \<longrightarrow> p \<noteq> segment w k)
        \<longrightarrow> map_of fs p = map_of fs0 p)"

definition writer_inv :: "filesystem \<Rightarrow> bytes list \<Rightarrow> capture_writer \<times> filesystem \<Rightarrow> bool" where
  "writer_inv fs0 frames = (\<lambda>(w, fs).
     0 < segment_length w \<and> length frames < 2 ^ 64 \<and>
     cw_frames_written w = of_nat (length frames) \<and>
     (if frames = [] then cw_current_segment w = - 1
      else cw_good w \<and> cw_current_segment w = of_nat ((length frames - 1) div segment_length w)
         \<and> cw_open w = Some (segment_path w (cw_current_segment w))) \<and>
     segments_hold frames [] w fs \<and> others_kept (length frames) fs0 w fs)"

lemma segment_eq_iff: "j < 2 ^ 64 \<Longrightarrow> k < 2 ^ 64 \<Longrightarrow> segment w j = segment w k \<longleftrightarrow> j = k"
  by (simp add: segment_def of_nat_u64_eq_iff)

lemma create_directories_child:
  assumes "in_directory root p"
  shows "map_of (create_directories root fs) p = map_of fs p"
proof (rule create_directories_other)
  fix k
  have "length (components p) = Suc (length (components root))"
    using assms by (auto simp: in_directory_iff path_join_def)
  then show "p \<noteq> Path (take k (components root))" by auto
qed

lemma frame_number_div:
  assumes "0 < segment_length w" "n < 2 ^ 64"
  shows "of_nat n div cw_frames_per_segment w = (of_nat (n div segment_length w) :: u64)"
  using assms by (simp add: word_unat_eq_iff unat_div word_less_of_nat segment_length_def
      le_less_trans [OF div_le_dividend])

text \<open>The segment that \<open>open_segment\<close> leaves open for the next frame.\<close>

lemma open_segment_next:
  assumes inv: "writer_inv fs0 frames (w, fs)"
    and opened: "open_segment (of_nat (length frames div segment_length w)) env (w, fs) = (True, w', fs')"
  shows "\<exists>c. w' = w\<lparr>cw_open := Some (segment w c), cw_good := True, cw_current_segment := of_nat c\<rparr>
      \<and> c = length frames div segment_length w
      \<and> file_contents fs' (segment w c) = Some (segment_bytes (segment_length w) frames c)
      \<and> (\<forall>p. in_directory (cw_root w) p \<longrightarrow> p \<noteq> segment w c \<longrightarrow> map_of fs' p = map_of fs p)"
proof -
  let ?fps = "segment_length w" and ?n = "length frames"
  let ?c = "?n div ?fps"
  have fps: "0 < ?fps" and n: "?n < 2 ^ 64" using inv by (auto simp: writer_inv_def)
  show ?thesis
  proof (cases "frames \<noteq> [] \<and> (?n - 1) div ?fps = ?c")
    case True
    then have "(?n - 1) div ?fps * ?fps < ?n" 
      using div_times_less_eq_dividend [of "?n - 1" ?fps] by (cases frames) auto
    with True inv opened show ?thesis
      by (auto simp: writer_inv_def open_segment_def segments_hold_def segment_def split: if_splits)
  next
    case False
    have "of_nat ?c \<noteq> cw_current_segment w"
    proof (cases "frames = []")
      case True
      then show ?thesis using inv by (simp add: writer_inv_def)
    next
      case f: False
      have "(?n - 1) div ?fps < 2 ^ 64" "?c < 2 ^ 64"
        using n by (auto intro: le_less_trans [OF div_le_dividend])
      then show ?thesis
        using f False inv by (simp add: writer_inv_def of_nat_u64_eq_iff)
    qed
    moreover have "?n \<le> ?c * ?fps"
    proof (cases "frames = []")
      case f: False
      then have "?n mod ?fps = 0"
        using False fps by (metis Suc_pred' length_greater_0_conv div_Suc diff_Suc_1 One_nat_def)
      then show ?thesis by (metis div_mult_mod_eq add_0_right order_refl)
    qed simp
    ultimately show ?thesis
      using opened by (auto simp: open_segment_def Let_def segment_def segment_bytes_fresh create_directories_child
          segment_path_def split: if_splits)
  qed
qed

text \<open>The effect of one write on the segments, whether it succeeds or not.\<close>

lemma write_frame_inv:
  assumes inv: "writer_inv fs0 frames (w, fs)"
    and written: "write_frame f env (w, fs) = (True, w', fs')"
    and n: "length frames + 1 < 2 ^ 64"
  shows "writer_inv fs0 (frames @ [f]) (w', fs')"
proof -
  let ?fps = "segment_length w" and ?n = "length frames"
  let ?c = "?n div ?fps"
  have fps: "0 < ?fps" and count: "cw_frames_written w = of_nat ?n" using inv by (auto simp: writer_inv_def)
  have "cw_frames_written w div cw_frames_per_segment w = of_nat ?c"
    using fps n by (simp add: count frame_number_div)
  then obtain w1 fs1 where opened: "open_segment (of_nat ?c) env (w, fs) = (True, w1, fs1)"
    using written by (auto simp: write_frame_def split: if_splits bool.splits prod.splits)
  note next_seg = open_segment_next [OF inv opened]
  then have w1: "w1 = w\<lparr>cw_open := Some (segment w ?c), cw_good := True, cw_current_segment := of_nat ?c\<rparr>"
    and here: "file_contents fs1 (segment w ?c) = Some (segment_bytes ?fps frames ?c)"
    and other: "\<And>p. in_directory (cw_root w) p \<Longrightarrow> p \<noteq> segment w ?c \<Longrightarrow> map_of fs1 p = map_of fs p"
    by auto
  have w': "w' = w1\<lparr>cw_frames_written := cw_frames_written w + 1\<rparr>" and fs': "fs' = append_file (segment w ?c) f fs1"
    using written opened \<open>cw_frames_written w div _ = _\<close>
    by (auto simp: write_frame_def w1 Let_def split: if_splits)
  have seg: "segment w' = segment w" "segment_length w' = ?fps" "cw_root w' = cw_root w"
    by (simp_all add: w' w1 segment_def segment_path_def segment_length_def fun_eq_iff)
  have dir: "in_directory (cw_root w) (segment w k)" for k by (simp add: segment_def segment_path_def)
  have neq: "segment w k \<noteq> segment w ?c" if "k \<noteq> ?c" "k * ?fps < ?n + 1" for k
  proof -
    have "k \<le> k * ?fps" using fps by (cases ?fps) simp_all
    then have "k < 2 ^ 64" using that n by linarith
    moreover have "?c < 2 ^ 64" using n div_le_dividend [of ?n ?fps] by linarith
    ultimately show ?thesis using that by (simp add: segment_eq_iff)
  qed
  have "segments_hold (frames @ [f]) [] w' fs'"
    unfolding segments_hold_def seg
  proof (intro allI impI)
    fix k assume k: "k * ?fps < length (frames @ [f])"
    show "file_contents fs' (segment w k) = Some (segment_bytes ?fps (frames @ [f]) k
        @ (if k = length (frames @ [f]) div ?fps then [] else []))"
    proof (cases "k = ?c")
      case True
      then show ?thesis using k fps by (simp add: fs' file_contents_append here segment_bytes_snoc)
    next
      case False
      then have "k * ?fps \<noteq> ?n" using fps by (metis nonzero_mult_div_cancel_right less_numeral_extra(3))
      then have "k * ?fps < ?n" using k by simp
      then have "file_contents fs (segment w k) = Some (segment_bytes ?fps frames k)"
        using inv by (simp add: writer_inv_def segments_hold_def)
      then show ?thesis
        using False k fps neq [OF False] file_contents_cong [OF other [OF dir, of k]]
        by (simp add: fs' file_contents_append segment_bytes_snoc)
    qed
  qed
  moreover have "others_kept (length (frames @ [f])) fs0 w' fs'"
    unfolding others_kept_def seg
  proof (intro allI impI)
    fix p assume p: "in_directory (cw_root w) p" "\<forall>k. k * ?fps < length (frames @ [f]) \<longrightarrow> p \<noteq> segment w k"
    have "?c * ?fps < length (frames @ [f])" by (simp add: le_imp_less_Suc)
    then have "p \<noteq> segment w ?c" using p(2) by blast
    moreover have "map_of fs p = map_of fs0 p"
      using inv p by (simp add: writer_inv_def others_kept_def)
    ultimately show "map_of fs' p = map_of fs0 p"
      using other [OF p(1)] by (simp add: fs' map_of_append_other)
  qed
  ultimately show ?thesis
    using fps n by (simp add: writer_inv_def seg count) (simp add: w' w1 count segment_def segment_path_def)
qed

lemma write_frame_fails:
  assumes inv: "writer_inv fs0 frames (w, fs)"
    and failed: "write_frame f env (w, fs) = (False, w', fs')"
  shows "\<exists>extra. length extra < kWireFrameSize \<and> segments_hold frames extra w' fs'"
proof -
  let ?fps = "segment_length w" and ?n = "length frames"
  let ?c = "?n div ?fps"
  have fps: "0 < ?fps" and n: "?n < 2 ^ 64" and count: "cw_frames_written w = of_nat ?n"
    and holds: "segments_hold frames [] w fs" using inv by (auto simp: writer_inv_def)
  have size: "0 < kWireFrameSize" by (simp add: kWireFrameSize_def kFramePrefixSize_def)
  have c: "cw_frames_written w div cw_frames_per_segment w = of_nat ?c"
    using fps n by (simp add: count frame_number_div)
  have dir: "in_directory (cw_root w) (segment w k)" for k by (simp add: segment_def segment_path_def)
  have keep: "segments_hold frames [] w1 fs1"
    if "cw_root w1 = cw_root w" "cw_frames_per_segment w1 = cw_frames_per_segment w"
      "\<And>p. in_directory (cw_root w) p \<Longrightarrow> map_of fs1 p = map_of fs p" for w1 fs1
    using holds that dir
    by (simp add: segments_hold_def segment_def segment_path_def segment_length_def file_contents_def)
  obtain ok w1 fs1 where opened: "open_segment (of_nat ?c) env (w, fs) = (ok, w1, fs1)" by (metis prod_cases3)
  consider "cw_frames_per_segment w = 0 \<or> length f \<noteq> kWireFrameSize" "w' = w" "fs' = fs"
    | "\<not> ok" "w' = w1" "fs' = fs1" | "ok" "length f = kWireFrameSize" "cw_frames_per_segment w \<noteq> 0"
    using failed c opened by (cases ok) (auto simp: write_frame_def split: if_splits)
  then show ?thesis
  proof cases
    case 1
    then show ?thesis using keep [of w fs] size by (intro exI [of _ "[]"]) simp
  next
    case 2
    then have "segments_hold frames [] w' fs'"
      using opened by (intro keep) (auto simp: open_segment_def Let_def create_directories_child split: if_splits)
    then show ?thesis using size by (intro exI [of _ "[]"]) simp
  next
    case 3
    then have w1: "w1 = w\<lparr>cw_open := Some (segment w ?c), cw_good := True, cw_current_segment := of_nat ?c\<rparr>"
      and here: "file_contents fs1 (segment w ?c) = Some (segment_bytes ?fps frames ?c)"
      and other: "\<And>p. in_directory (cw_root w) p \<Longrightarrow> p \<noteq> segment w ?c \<Longrightarrow> map_of fs1 p = map_of fs p"
      using open_segment_next [OF inv, of env w1 fs1] opened 3(1) by auto
    have short: "accepts env < length f" "w' = w1\<lparr>cw_good := False\<rparr>"
        and fs': "fs' = append_file (segment w ?c) (take (accepts env) f) fs1"
      using failed 3 c opened by (auto simp: write_frame_def w1 Let_def split: if_splits)
    have "segments_hold frames (take (accepts env) f) w' fs'"
      unfolding segments_hold_def
    proof (intro allI impI)
      fix k assume "k * segment_length w' < ?n"
      then have k: "k * ?fps < ?n" by (simp add: short w1 segment_length_def)
      have "k \<le> k * ?fps" using fps by (cases ?fps) simp_all
      then have "k < 2 ^ 64" "?c < 2 ^ 64" using k n div_le_dividend [of ?n ?fps] by linarith+
      then have "segment w k = segment w ?c \<longleftrightarrow> k = ?c" by (rule segment_eq_iff)
      moreover have "file_contents fs (segment w k) = Some (segment_bytes ?fps frames k)"
        using holds k by (simp add: segments_hold_def)
      moreover have "segment w' = segment w" "segment_length w' = ?fps"
        by (simp_all add: short w1 segment_def segment_path_def segment_length_def fun_eq_iff)
      ultimately show "file_contents fs' (segment w' k) = Some (segment_bytes (segment_length w') frames k
          @ (if k = ?n div segment_length w' then take (accepts env) f else []))"
        using here file_contents_cong [OF other [OF dir, of k]] by (auto simp: fs' file_contents_append)
    qed
    then show ?thesis using short(1) 3(2) by (intro exI [of _ "take (accepts env) f"]) simp
  qed
qed

section \<open>Runs\<close>

lemma new_writer_inv:
  "frames_per_segment \<noteq> 0 \<Longrightarrow> writer_inv fs [] (new_capture_writer root frames_per_segment, fs)"
  by (simp add: writer_inv_def new_capture_writer_def segments_hold_def others_kept_def segment_length_def
      unat_gt_0)

lemma write_frame_config:
  "write_frame f env (w, fs) = (ok, w', fs') \<Longrightarrow>
     cw_root w' = cw_root w \<and> cw_frames_per_segment w' = cw_frames_per_segment w"
  by (auto simp: write_frame_def open_segment_def Let_def split: if_splits bool.splits prod.splits option.splits)

text \<open>Outside the directory of the capture no file changes.\<close>

lemma write_frame_elsewhere:
  assumes "writer_inv fs0 frames (w, fs)" "write_frame f env (w, fs) = (ok, w', fs')" "\<not> in_directory (cw_root w) q"
  shows "file_contents fs' q = file_contents fs q"
proof -
  have segment: "q \<noteq> segment_path w k" for k using assms(3) by (auto simp: segment_path_def)
  have append: "file_contents (append_file (segment_path w k) bs fs1) q = file_contents fs1 q" for k bs fs1
    using segment by (intro file_contents_cong map_of_append_other)
  obtain opened w1 fs1 where op: "open_segment (cw_frames_written w div cw_frames_per_segment w) env (w, fs) = (opened, w1, fs1)"
    by (metis prod_cases3)
  have fs1: "file_contents fs1 q = file_contents fs q"
    using op segment by (auto simp: open_segment_def Let_def file_contents_create_directories split: if_splits)
  have "\<exists>k. cw_open w1 = Some (segment_path w k)" if "opened"
    using op that assms(1)
    by (cases "frames = []") (auto simp: open_segment_def writer_inv_def Let_def segment_path_def split: if_splits)
  then show ?thesis
    using assms(2) op fs1 append by (auto simp: write_frame_def Let_def split: if_splits bool.splits option.splits)
qed

lemma flush_writer_inv:
  "flush_writer ok w = (flushed, w') \<Longrightarrow> cw_root w' = cw_root w \<and> cw_frames_per_segment w' = cw_frames_per_segment w
     \<and> segments_hold frames extra w' fs = segments_hold frames extra w fs
     \<and> (flushed \<and> writer_inv fs0 frames (w, fs) \<longrightarrow> writer_inv fs0 frames (w', fs))"
  by (auto simp: flush_writer_def Let_def segments_hold_def writer_inv_def others_kept_def segment_length_def
      segment_def segment_path_def split: if_splits)

lemma write_all_config:
  "write_all ops (w, fs) = (n, w', fs') \<Longrightarrow>
     cw_root w' = cw_root w \<and> cw_frames_per_segment w' = cw_frames_per_segment w \<and> n \<le> length ops"
proof (induction ops arbitrary: w fs n w' fs')
  case (Cons op ops)
  obtain f env ok w1 fs1 where op: "op = (f, env)" "write_frame f env (w, fs) = (ok, w1, fs1)"
    by (metis prod_cases3 surj_pair)
  then show ?case
    using Cons write_frame_config [OF op(2)] by (cases ok) (fastforce split: prod.splits)+
qed simp

lemma write_all_inv:
  assumes "writer_inv fs0 frames (w, fs)" "write_all ops (w, fs) = (n, w', fs')"
    and "length frames + length ops < 2 ^ 64"
  shows "(n = length ops \<and> writer_inv fs0 (frames @ map fst ops) (w', fs'))
    \<or> (n < length ops \<and> (\<exists>extra. length extra < kWireFrameSize \<and>
          segments_hold (frames @ take n (map fst ops)) extra w' fs'))"
  using assms
proof (induction ops arbitrary: frames w fs n w' fs')
  case (Cons op ops)
  obtain f env ok w1 fs1 where op: "op = (f, env)" "write_frame f env (w, fs) = (ok, w1, fs1)"
    by (metis prod_cases3 surj_pair)
  show ?case
  proof (cases ok)
    case True
    obtain m where m: "write_all ops (w1, fs1) = (m, w', fs')" "n = Suc m"
      using Cons.prems(2) op True by (auto split: prod.splits)
    have "writer_inv fs0 (frames @ [f]) (w1, fs1)"
      using write_frame_inv Cons.prems op True by simp
    then show ?thesis using Cons.IH [of "frames @ [f]", OF _ m(1)] Cons.prems(3) op m(2) by simp
  next
    case False
    then show ?thesis using write_frame_fails [OF Cons.prems(1)] Cons.prems(2) op by simp
  qed
qed simp

section \<open>Correctness\<close>

text \<open>
  C19: the segment files hold the captured stream.  Whatever the operating system answers, after a
  run of writes that stopped at the first failure every segment holds the frames with its numbers,
  in order and complete.  Only the segment being filled can have extra bytes behind them, less
  than one frame, and only after a failure.
\<close>

theorem capture_writer_segments:
  assumes "write_all ops (new_capture_writer root frames_per_segment, fs0) = (n, w', fs')"
    and "frames_per_segment \<noteq> 0" and "length ops < 2 ^ 64"
  shows "\<exists>extra. length extra < kWireFrameSize \<and> (n = length ops \<longrightarrow> extra = []) \<and>
    (\<forall>k. k * unat frames_per_segment < n \<longrightarrow>
       file_contents fs' (path_join root (segment_name (of_nat k)))
       = Some (concat (take (unat frames_per_segment) (drop (k * unat frames_per_segment) (map fst (take n ops))))
           @ (if k = n div unat frames_per_segment then extra else [])))"
proof -
  let ?w = "new_capture_writer root frames_per_segment"
  have w': "cw_root w' = root" "unat frames_per_segment = segment_length w'" "n \<le> length ops"
    using write_all_config [OF assms(1)] by (simp_all add: new_capture_writer_def segment_length_def)
  have "0 < kWireFrameSize" by (simp add: kWireFrameSize_def kFramePrefixSize_def)
  then have "\<exists>extra. length extra < kWireFrameSize \<and> (n = length ops \<longrightarrow> extra = []) \<and>
      segments_hold (take n (map fst ops)) extra w' fs'"
    using write_all_inv [OF new_writer_inv [OF assms(2)] assms(1)] assms(3)
    by (auto simp: writer_inv_def)
  then show ?thesis
    using w' by (simp add: segments_hold_def segment_def segment_path_def segment_bytes_def take_map)
qed

definition all_ok :: write_env where
  "all_ok = \<lparr>mkdir_ok = True, open_ok = True, accepts = kWireFrameSize\<rparr>"

definition disk_full :: write_env where
  "disk_full = \<lparr>mkdir_ok = True, open_ok = True, accepts = 100\<rparr>"

definition uniform_frame :: "byte \<Rightarrow> bytes" where
  "uniform_frame b = replicate kWireFrameSize b"

lemma uniform_frame_simps [simp]:
  "length (uniform_frame b) = kWireFrameSize"
  "take kWireFrameSize (uniform_frame b) = uniform_frame b"
  by (simp_all add: uniform_frame_def)

theorem capture_writer_segments_witness:
  "\<exists>w fs. write_all [(uniform_frame 1, all_ok), (uniform_frame 2, all_ok), (uniform_frame 3, disk_full)]
        (new_capture_writer (Path [''raw'']) 2, []) = (2, w, fs) \<and>
     file_contents fs (path_join (Path [''raw'']) (segment_name 0)) = Some (uniform_frame 1 @ uniform_frame 2)"
proof -
  let ?ops = "[(uniform_frame 1, all_ok), (uniform_frame 2, all_ok), (uniform_frame 3, disk_full)]"
  obtain n w fs where run: "write_all ?ops (new_capture_writer (Path [''raw'']) 2, []) = (n, w, fs)"
    by (metis prod_cases3)
  then have "n = 2"
    by (simp add: write_frame_def open_segment_def new_capture_writer_def Let_def all_ok_def disk_full_def
        kWireFrameSize_def kFramePrefixSize_def kHeaderSize_def kFrameCrcSize_def split: prod.splits if_splits)
  moreover have "map fst (take 2 ?ops) = [uniform_frame 1, uniform_frame 2]" by (simp add: take_Cons')
  ultimately obtain extra where
    "\<forall>k. k * unat (2 :: u64) < 2 \<longrightarrow> file_contents fs (path_join (Path [''raw'']) (segment_name (of_nat k)))
       = Some (concat (take (unat (2 :: u64)) (drop (k * unat (2 :: u64)) [uniform_frame 1, uniform_frame 2]))
           @ (if k = 2 div unat (2 :: u64) then extra else []))"
    using capture_writer_segments [OF run] by auto
  from this [THEN spec, of 0] show ?thesis using run \<open>n = 2\<close> by (simp add: take_Cons')
qed

text \<open>
  A retry after a failed write destroys the segment.  When a write of a full frame fails, the
  stream is bad, so the next write reopens the segment and truncates it: after it succeeds the
  segment holds that one frame and nothing of what was captured in it before.
\<close>

theorem retry_after_failed_write_truncates:
  assumes "write_frame f env (w, fs) = (False, w1, fs1)"
    and "length f = kWireFrameSize" and "cw_frames_per_segment w \<noteq> 0"
    and "write_frame g env' (w1, fs1) = (True, w2, fs2)"
  shows "file_contents fs2
      (path_join (cw_root w) (segment_name (cw_frames_written w div cw_frames_per_segment w))) = Some g"
proof -
  have bad: "\<not> cw_good w1" "cw_root w1 = cw_root w" "cw_frames_written w1 = cw_frames_written w"
    "cw_frames_per_segment w1 = cw_frames_per_segment w"
    using assms(1-3)
    by (auto simp: write_frame_def open_segment_def Let_def split: if_splits option.splits)
  then show ?thesis
    using assms(4)
    by (auto simp: write_frame_def open_segment_def Let_def file_contents_append segment_path_def
        split: if_splits)
qed

theorem retry_after_failed_write_truncates_witness:
  "\<exists>w fs w1 fs1 w2 fs2.
     write_frame (uniform_frame 1) all_ok (new_capture_writer (Path [''raw'']) 10, []) = (True, w, fs) \<and>
     file_contents fs (path_join (Path [''raw'']) (segment_name 0)) = Some (uniform_frame 1) \<and>
     write_frame (uniform_frame 2) disk_full (w, fs) = (False, w1, fs1) \<and>
     write_frame (uniform_frame 3) all_ok (w1, fs1) = (True, w2, fs2) \<and>
     file_contents fs2 (path_join (Path [''raw'']) (segment_name 0)) = Some (uniform_frame 3)"
proof -
  note defs = write_frame_def open_segment_def new_capture_writer_def Let_def all_ok_def disk_full_def
    kWireFrameSize_def kFramePrefixSize_def kHeaderSize_def kFrameCrcSize_def
  obtain ok w fs where 1: "write_frame (uniform_frame 1) all_ok (new_capture_writer (Path [''raw'']) 10, []) = (ok, w, fs)"
    by (metis prod_cases3)
  then have w: "ok" "cw_root w = Path [''raw'']" "cw_frames_per_segment w = 10" "cw_frames_written w = 1"
      "cw_current_segment w = 0" "cw_good w" "cw_open w = Some (path_join (Path [''raw'']) (segment_name 0))"
      "file_contents fs (path_join (Path [''raw'']) (segment_name 0)) = Some (uniform_frame 1)"
    by (auto simp: defs segment_path_def file_contents_append)
  obtain ok1 w1 fs1 where 2: "write_frame (uniform_frame 2) disk_full (w, fs) = (ok1, w1, fs1)"
    by (metis prod_cases3)
  then have w1: "\<not> ok1" using w by (auto simp: defs)
  then have w1': "cw_root w1 = Path [''raw'']" "cw_frames_per_segment w1 = 10" "cw_frames_written w1 = 1" "\<not> cw_good w1"
    using 2 w by (auto simp: defs)
  obtain ok2 w2 fs2 where 3: "write_frame (uniform_frame 3) all_ok (w1, fs1) = (ok2, w2, fs2)"
    by (metis prod_cases3)
  then have "ok2" using w1' by (auto simp: defs)
  then show ?thesis
    using 1 2 3 w w1 retry_after_failed_write_truncates [of "uniform_frame 2" disk_full w fs w1 fs1 "uniform_frame 3" all_ok w2 fs2]
    by auto
qed

end
