(* ===== verification/Capture_Reader.thy ===== *)
theory Capture_Reader
  imports Capture_Writer
begin

text \<open>
  \<open>common/capture_reader.{h,cpp}\<close>: wire frames read back from one file or from all \<open>.bin\<close> files of
  a directory in name order.  An open stream is the bytes still unread.
\<close>

section \<open>State and operations\<close>

record capture_reader =
  rd_files :: "path list"
  rd_file_index :: nat
  rd_in :: "bytes option"
  rd_frame_in_file :: u64
  rd_trailing_bytes :: u64
  rd_current_name :: string
  rd_error :: string

text \<open>\<open>path::string()\<close>\<close>

fun join_components :: "string list \<Rightarrow> string" where
  "join_components [] = []"
| "join_components [c] = c"
| "join_components (c # cs) = c @ ''/'' @ join_components cs"

definition path_string :: "path \<Rightarrow> string" where
  "path_string p = join_components (components p)"

text \<open>\<open>CaptureReader::CaptureReader\<close>\<close>

definition capture_files :: "filesystem \<Rightarrow> path \<Rightarrow> path list" where
  "capture_files fs input =
     (if is_directory fs input
      then sort (filter (\<lambda>p. is_regular_file fs p \<and> path_extension p = ''.bin'') (directory_entries fs input))
      else if is_regular_file fs input then [input]
      else [])"

definition new_capture_reader :: "filesystem \<Rightarrow> path \<Rightarrow> capture_reader" where
  "new_capture_reader fs input =
     (let files = capture_files fs input
      in \<lparr>rd_files = files, rd_file_index = 0, rd_in = None, rd_frame_in_file = 0, rd_trailing_bytes = 0,
          rd_current_name = [],
          rd_error = (if files = [] then ''no .bin files found at '' @ path_string input else [])\<rparr>)"

definition reader_ok :: "capture_reader \<Rightarrow> bool" where
  "reader_ok r \<longleftrightarrow> rd_files r \<noteq> []"

text \<open>\<open>CaptureReader::open_next_file\<close>\<close>

function open_next_file :: "filesystem \<Rightarrow> capture_reader \<Rightarrow> bool \<times> capture_reader" where
  "open_next_file fs r =
     (if rd_file_index r < length (rd_files r)
      then
        let p = rd_files r ! rd_file_index r;
            r1 = r\<lparr>rd_in := None, rd_file_index := rd_file_index r + 1\<rparr>
        in case file_contents fs p of
             Some bs \<Rightarrow> (True, r1\<lparr>rd_in := Some bs, rd_current_name := path_filename p, rd_frame_in_file := 0\<rparr>)
           | None \<Rightarrow> open_next_file fs (r1\<lparr>rd_error := ''cannot open '' @ path_string p\<rparr>)
      else (False, r\<lparr>rd_in := None\<rparr>))"
  by pat_completeness auto
termination
  by (relation "measure (\<lambda>(fs, r). length (rd_files r) - rd_file_index r)") auto

declare open_next_file.simps [simp del]

lemma open_next_file_true:
  "open_next_file fs r = (True, r') \<Longrightarrow>
     rd_file_index r < rd_file_index r' \<and> rd_file_index r' \<le> length (rd_files r) \<and>
     rd_files r' = rd_files r \<and> rd_in r' \<noteq> None"
proof (induction fs r rule: open_next_file.induct)
  case (1 fs r)
  then show ?case
    by (subst (asm) (2) open_next_file.simps) (fastforce simp: Let_def split: if_splits option.splits)
qed

text \<open>The loop of \<open>CaptureReader::next\<close>; \<open>out\<close> is the caller's buffer.\<close>

function next_loop :: "filesystem \<Rightarrow> bytes \<Rightarrow> capture_reader \<Rightarrow> bool \<times> bytes \<times> capture_reader" where
  "next_loop fs out r =
     (case (if rd_in r = None then open_next_file fs r else (True, r)) of
        (False, r1) \<Rightarrow> (False, out, r1)
      | (True, r1) \<Rightarrow>
          let unread = the (rd_in r1);
              got = take (length out) unread
          in if length got = length out
             then (True, got, r1\<lparr>rd_in := Some (drop (length out) unread), rd_frame_in_file := rd_frame_in_file r1 + 1\<rparr>)
             else next_loop fs (got @ drop (length got) out)
                    (r1\<lparr>rd_trailing_bytes := rd_trailing_bytes r1 + of_nat (length got), rd_in := None\<rparr>))"
  by pat_completeness auto
termination
  by (relation "measure (\<lambda>(fs, out, r). 2 * (length (rd_files r) - rd_file_index r) + (if rd_in r = None then 0 else 1))")
    (auto dest!: open_next_file_true [OF sym] split: if_splits)

declare next_loop.simps [simp del]

text \<open>\<open>CaptureReader::next\<close>\<close>

definition reader_next :: "filesystem \<Rightarrow> bytes \<Rightarrow> capture_reader \<Rightarrow> bool \<times> bytes \<times> capture_reader" where
  "reader_next fs out r = (if length out \<noteq> kWireFrameSize then (False, out, r) else next_loop fs out r)"

text \<open>\<open>CaptureReader::location\<close>\<close>

definition reader_location :: "capture_reader \<Rightarrow> string" where
  "reader_location r =
     rd_current_name r @ '':''
       @ to_string (unat (if rd_frame_in_file r = 0 then 0 else rd_frame_in_file r - 1))"

section \<open>What is left to read\<close>

function whole_frames :: "bytes \<Rightarrow> bytes list" where
  "whole_frames bs =
     (if length bs < kWireFrameSize then [] else take kWireFrameSize bs # whole_frames (drop kWireFrameSize bs))"
  by pat_completeness auto
termination
  by (relation "measure length") (auto simp: kWireFrameSize_def kFramePrefixSize_def)

declare whole_frames.simps [simp del]

definition readable_bytes :: "filesystem \<Rightarrow> path \<Rightarrow> bytes" where
  "readable_bytes fs p = (case file_contents fs p of Some bs \<Rightarrow> bs | None \<Rightarrow> [])"

definition files_frames :: "filesystem \<Rightarrow> path list \<Rightarrow> bytes list" where
  "files_frames fs ps = concat (map (\<lambda>p. whole_frames (readable_bytes fs p)) ps)"

definition files_trailing :: "filesystem \<Rightarrow> path list \<Rightarrow> nat" where
  "files_trailing fs ps = sum_list (map (\<lambda>p. length (readable_bytes fs p) mod kWireFrameSize) ps)"

definition rest_frames :: "filesystem \<Rightarrow> capture_reader \<Rightarrow> bytes list" where
  "rest_frames fs r =
     (case rd_in r of None \<Rightarrow> [] | Some bs \<Rightarrow> whole_frames bs)
       @ files_frames fs (drop (rd_file_index r) (rd_files r))"

definition rest_trailing :: "filesystem \<Rightarrow> capture_reader \<Rightarrow> nat" where
  "rest_trailing fs r =
     (case rd_in r of None \<Rightarrow> 0 | Some bs \<Rightarrow> length bs mod kWireFrameSize)
       + files_trailing fs (drop (rd_file_index r) (rd_files r))"

lemma files_frames_simps [simp]:
  "files_frames fs [] = []"
  "files_frames fs (p # ps) = whole_frames (readable_bytes fs p) @ files_frames fs ps"
  by (simp_all add: files_frames_def)

lemma files_trailing_simps [simp]:
  "files_trailing fs [] = 0"
  "files_trailing fs (p # ps) = length (readable_bytes fs p) mod kWireFrameSize + files_trailing fs ps"
  by (simp_all add: files_trailing_def)

lemma frame_size_pos [simp]: "0 < kWireFrameSize"
  by (simp add: kWireFrameSize_def kFramePrefixSize_def)

lemma whole_frames_short: "length bs < kWireFrameSize \<Longrightarrow> whole_frames bs = []"
  by (subst whole_frames.simps) simp

lemma whole_frames_long:
  "kWireFrameSize \<le> length bs \<Longrightarrow>
     whole_frames bs = take kWireFrameSize bs # whole_frames (drop kWireFrameSize bs)"
  by (subst whole_frames.simps) simp

lemma whole_frames_append:
  "length f = kWireFrameSize \<Longrightarrow> whole_frames (f @ bs) = f # whole_frames bs"
  by (simp add: whole_frames_long)

lemma whole_frames_concat:
  "\<forall>f \<in> set frames. length f = kWireFrameSize \<Longrightarrow> length extra < kWireFrameSize \<Longrightarrow>
     whole_frames (concat frames @ extra) = frames"
  by (induction frames) (simp_all add: whole_frames_append whole_frames_short)

lemma length_concat_frames:
  "\<forall>f \<in> set frames. length f = kWireFrameSize \<Longrightarrow> length (concat frames) = length frames * kWireFrameSize"
  by (induction frames) simp_all

lemma rest_frames_cong:
  assumes "\<forall>p \<in> set (rd_files r). file_contents fs p = file_contents fs' p"
  shows "rest_frames fs r = rest_frames fs' r"
proof -
  have "readable_bytes fs p = readable_bytes fs' p" if "p \<in> set (drop (rd_file_index r) (rd_files r))" for p
    using assms in_set_dropD [OF that] by (simp add: readable_bytes_def)
  then show ?thesis by (simp add: rest_frames_def files_frames_def cong: map_cong)
qed

lemma open_next_file_spec:
  assumes "open_next_file fs r = (ok, r')"
  shows "rd_trailing_bytes r' = rd_trailing_bytes r \<and> rd_files r' = rd_files r \<and>
    (if ok then rd_in r' \<noteq> None \<and>
        files_frames fs (drop (rd_file_index r) (rd_files r)) = rest_frames fs r' \<and>
        files_trailing fs (drop (rd_file_index r) (rd_files r)) = rest_trailing fs r'
     else files_frames fs (drop (rd_file_index r) (rd_files r)) = [] \<and>
        files_trailing fs (drop (rd_file_index r) (rd_files r)) = 0 \<and>
        rd_in r' = None \<and> length (rd_files r') \<le> rd_file_index r')"
  using assms
proof (induction fs r rule: open_next_file.induct)
  case (1 fs r)
  let ?p = "rd_files r ! rd_file_index r"
  show ?case
  proof (cases "rd_file_index r < length (rd_files r)")
    case True
    then have drop: "drop (rd_file_index r) (rd_files r) = ?p # drop (Suc (rd_file_index r)) (rd_files r)"
      by (simp add: Cons_nth_drop_Suc)
    show ?thesis
    proof (cases "file_contents fs ?p")
      case None
      let ?r = "r\<lparr>rd_in := None, rd_file_index := rd_file_index r + 1, rd_error := ''cannot open '' @ path_string ?p\<rparr>"
      have "open_next_file fs ?r = (ok, r')"
        using True None "1.prems" by (subst (asm) open_next_file.simps) (simp add: Let_def)
      from "1.IH" [OF True refl refl None, simplified, OF this [simplified]]
      show ?thesis using None by (cases ok) (auto simp: drop readable_bytes_def whole_frames_short)
    next
      case (Some bs)
      then show ?thesis
        using True "1.prems" by (subst (asm) open_next_file.simps)
          (auto simp add: Let_def drop readable_bytes_def rest_frames_def rest_trailing_def)
    qed
  next
    case False
    then show ?thesis using "1.prems" by (subst (asm) open_next_file.simps) auto
  qed
qed

lemma next_loop_spec:
  assumes "next_loop fs out r = (ok, out', r')" "length out = kWireFrameSize"
  shows "length out' = kWireFrameSize \<and> rd_files r' = rd_files r \<and>
    rd_trailing_bytes r' + of_nat (rest_trailing fs r') = rd_trailing_bytes r + of_nat (rest_trailing fs r) \<and>
    (if ok then rest_frames fs r = out' # rest_frames fs r'
     else rest_frames fs r = [] \<and> rest_frames fs r' = [] \<and> rest_trailing fs r' = 0)"
  using assms
proof (induction fs out r rule: next_loop.induct)
  case (1 fs out r)
  obtain ok1 r1 where first: "(if rd_in r = None then open_next_file fs r else (True, r)) = (ok1, r1)"
    by (metis surj_pair)
  have same: "rd_trailing_bytes r1 = rd_trailing_bytes r" "rd_files r1 = rd_files r"
      "ok1 \<Longrightarrow> rd_in r1 \<noteq> None \<and> rest_frames fs r = rest_frames fs r1 \<and> rest_trailing fs r = rest_trailing fs r1"
      "\<not> ok1 \<Longrightarrow> rest_frames fs r = [] \<and> rest_trailing fs r = 0 \<and> rest_frames fs r1 = [] \<and> rest_trailing fs r1 = 0"
    using first open_next_file_spec [of fs r ok1 r1]
    by (auto simp: rest_frames_def rest_trailing_def split: if_splits)
  show ?case
  proof (cases ok1)
    case False
    then show ?thesis using "1.prems" first same by (subst (asm) next_loop.simps) simp
  next
    case True
    then obtain bs where bs: "rd_in r1 = Some bs" using same(3) by auto
    let ?got = "take (length out) bs"
    show ?thesis
    proof (cases "length ?got = length out")
      case long: True
      then have "kWireFrameSize \<le> length bs" using "1.prems"(2) by simp
      then have "length bs mod kWireFrameSize = (length bs - kWireFrameSize) mod kWireFrameSize"
        by (simp add: le_mod_geq)
      then show ?thesis
        using "1.prems" first True bs long same
        by (subst (asm) next_loop.simps) (auto simp: Let_def rest_frames_def rest_trailing_def whole_frames_long)
    next
      case short: False
      let ?r = "r1\<lparr>rd_trailing_bytes := rd_trailing_bytes r1 + of_nat (length ?got), rd_in := None\<rparr>"
      have len: "length bs < length out" using short by (simp add: min_def split: if_splits)
      have "next_loop fs (?got @ drop (length ?got) out) ?r = (ok, out', r')"
        using "1.prems"(1) first True bs len by (subst (asm) next_loop.simps) (simp add: Let_def)
      moreover have "length bs < kWireFrameSize" using len "1.prems"(2) by simp
      ultimately show ?thesis
        using "1.IH" [OF first [symmetric] _ refl refl] len "1.prems"(2) same True bs
        by (cases ok) (auto simp: rest_frames_def rest_trailing_def whole_frames_short algebra_simps)
    qed
  qed
qed

section \<open>A source of frames\<close>

text \<open>The loop of every reader's client: frames are taken until the source says there are no more.\<close>

fun drain :: "(bytes \<Rightarrow> 's \<Rightarrow> bool \<times> bytes \<times> 's) \<Rightarrow> nat \<Rightarrow> bytes \<Rightarrow> 's \<Rightarrow> bytes list \<times> 's" where
  "drain nxt 0 out s = ([], s)"
| "drain nxt (Suc fuel) out s =
     (case nxt out s of
        (False, out', s') \<Rightarrow> ([], s')
      | (True, out', s') \<Rightarrow> (case drain nxt fuel out' s' of (fs, s'') \<Rightarrow> (out' # fs, s'')))"

text \<open>
  What a client relies on: \<open>rest\<close> is the list of frames still to come, and the bytes skipped so far
  (\<open>skipped\<close>) and still to be skipped (\<open>to_skip\<close>) are accounted for.
\<close>

locale frame_source =
  fixes nxt :: "bytes \<Rightarrow> 's \<Rightarrow> bool \<times> bytes \<times> 's"
    and rest :: "'s \<Rightarrow> bytes list"
    and skipped :: "'s \<Rightarrow> u64"
    and to_skip :: "'s \<Rightarrow> nat"
  assumes next_frame: "length out = kWireFrameSize \<Longrightarrow> nxt out s = (True, out', s') \<Longrightarrow>
      length out' = kWireFrameSize \<and> rest s = out' # rest s' \<and>
      skipped s' + of_nat (to_skip s') = skipped s + of_nat (to_skip s)"
    and next_end: "length out = kWireFrameSize \<Longrightarrow> nxt out s = (False, out', s') \<Longrightarrow>
      rest s = [] \<and> rest s' = [] \<and> to_skip s' = 0 \<and> skipped s' = skipped s + of_nat (to_skip s)"
begin

lemma drain_all:
  assumes "length out = kWireFrameSize" "length (rest s) < fuel"
  shows "\<exists>s'. drain nxt fuel out s = (rest s, s') \<and> rest s' = [] \<and> to_skip s' = 0 \<and>
    skipped s' = skipped s + of_nat (to_skip s)"
  using assms
proof (induction fuel arbitrary: out s)
  case (Suc fuel)
  obtain ok out' s1 where step: "nxt out s = (ok, out', s1)" by (metis prod_cases3)
  show ?case
  proof (cases ok)
    case True
    then have more: "length out' = kWireFrameSize" "rest s = out' # rest s1"
        "skipped s1 + of_nat (to_skip s1) = skipped s + of_nat (to_skip s)"
      using next_frame Suc.prems(1) step by auto
    then show ?thesis using Suc.IH [of out' s1] Suc.prems(2) step True by auto
  next
    case False
    then show ?thesis using next_end [OF Suc.prems(1), of s out' s1] step by auto
  qed
qed simp

lemma total_frames_decrease:
  assumes "length out = kWireFrameSize" "nxt out s = (True, out', s')"
  shows "length (rest s') < length (rest s)"
  using next_frame [OF assms] by simp

end

interpretation rd: frame_source "reader_next fs" "rest_frames fs" rd_trailing_bytes "rest_trailing fs" for fs
  by unfold_locales (auto simp: reader_next_def dest: next_loop_spec)

section \<open>Correctness\<close>

lemma new_reader_files: "rd_files (new_capture_reader fs input) = capture_files fs input"
  by (simp add: new_capture_reader_def Let_def)

lemma new_reader_rest:
  "rest_frames fs (new_capture_reader fs input) = files_frames fs (capture_files fs input)"
  "rest_trailing fs (new_capture_reader fs input) = files_trailing fs (capture_files fs input)"
  "rd_trailing_bytes (new_capture_reader fs input) = 0"
  by (simp_all add: new_capture_reader_def rest_frames_def rest_trailing_def Let_def)

text \<open>
  C30: a reader delivers exactly the complete frames of its files, file after file in path order,
  and counts exactly the bytes behind the last complete frame of each; a file that cannot be opened
  is passed over.
\<close>

theorem reader_delivers_everything:
  assumes "length out = kWireFrameSize" and "length (files_frames fs (capture_files fs input)) < fuel"
  shows "\<exists>r'. drain (reader_next fs) fuel out (new_capture_reader fs input)
        = (files_frames fs (capture_files fs input), r') \<and>
      rd_trailing_bytes r' = of_nat (files_trailing fs (capture_files fs input))"
  using rd.drain_all [OF assms(1), of fs "new_capture_reader fs input" fuel] assms(2)
  by (auto simp: new_reader_rest)

definition example_capture :: filesystem where
  "example_capture =
     [(Path [''raw''], Directory),
      (Path [''raw'', ''b.bin''], Regular True (uniform_frame 2 @ [9, 9])),
      (Path [''raw'', ''notes.txt''], Regular True [1]),
      (Path [''raw'', ''a.bin''], Regular True (uniform_frame 1))]"

lemma example_capture_files:
  "capture_files example_capture (Path [''raw'']) = [Path [''raw'', ''a.bin''], Path [''raw'', ''b.bin'']]"
  by (simp add: capture_files_def example_capture_def is_directory_def is_regular_file_def directory_entries_def
      in_directory_def path_extension_def path_filename_def less_eq_path_def less_path_def)

lemma example_capture_frames:
  "files_frames example_capture [Path [''raw'', ''a.bin''], Path [''raw'', ''b.bin'']] = [uniform_frame 1, uniform_frame 2]"
  "files_trailing example_capture [Path [''raw'', ''a.bin''], Path [''raw'', ''b.bin'']] = 2"
  using whole_frames_append [of "uniform_frame 1" "[]"]
  by (simp_all add: readable_bytes_def example_capture_def file_contents_def whole_frames_append whole_frames_short
      kWireFrameSize_def kFramePrefixSize_def kHeaderSize_def kFrameCrcSize_def)

theorem reader_delivers_everything_witness:
  "\<exists>r'. drain (reader_next example_capture) 3 (uniform_frame 0) (new_capture_reader example_capture (Path [''raw'']))
      = ([uniform_frame 1, uniform_frame 2], r') \<and> rd_trailing_bytes r' = 2"
  using reader_delivers_everything [of "uniform_frame 0" example_capture "Path [''raw'']" 3]
  unfolding example_capture_files example_capture_frames by simp

section \<open>What the writer wrote\<close>

lemma concat_chunks:
  assumes "0 < m"
  shows "concat (map (\<lambda>k. take m (drop (k * m) xs)) [0..<n]) = take (n * m) xs"
proof (induction n)
  case (Suc n)
  have "take (Suc n * m) xs = take (n * m) xs @ take m (drop (n * m) xs)"
    using take_add [of "n * m" m xs] by (simp add: add.commute)
  then show ?case using Suc by simp
qed simp

lemma path_extension_segment: "path_extension (path_join root (segment_name k)) = ''.bin''"
  by (simp add: path_extension_def segment_name_def Let_def)

lemma distinct_append_file: "distinct (map fst fs) \<Longrightarrow> distinct (map fst (append_file p bs fs))"
  by (auto simp: append_file_def split: option.splits node.splits)

lemma distinct_create_directories: "distinct (map fst fs) \<Longrightarrow> distinct (map fst (create_directories p fs))"
proof -
  have "distinct (map fst fs) \<Longrightarrow> distinct (map fst (fold (\<lambda>k fs. let q = Path (take k (components p))
          in if map_of fs q = None then set_node q Directory fs else fs) ks fs))" for ks
    by (induction ks arbitrary: fs) (auto simp: Let_def)
  then show "distinct (map fst fs) \<Longrightarrow> distinct (map fst (create_directories p fs))"
    by (simp add: create_directories_def)
qed

lemma write_frame_distinct:
  "write_frame f env (w, fs) = (ok, w', fs') \<Longrightarrow> distinct (map fst fs) \<Longrightarrow> distinct (map fst fs')"
  by (auto simp: write_frame_def open_segment_def Let_def distinct_append_file distinct_create_directories
      split: if_splits bool.splits prod.splits option.splits)

lemma write_frame_size: "write_frame f env st = (True, st') \<Longrightarrow> length f = kWireFrameSize"
  by (auto simp: write_frame_def split: prod.splits if_splits)

lemma write_all_distinct:
  "write_all ops (w, fs) = (n, w', fs') \<Longrightarrow> distinct (map fst fs) \<Longrightarrow>
     distinct (map fst fs') \<and> list_all (\<lambda>op. length (fst op) = kWireFrameSize) (take n ops)"
proof (induction ops arbitrary: w fs n w' fs')
  case (Cons op ops)
  obtain f env ok w1 fs1 where op: "op = (f, env)" "write_frame f env (w, fs) = (ok, w1, fs1)"
    by (metis prod_cases3 surj_pair)
  then have "distinct (map fst fs1)" using write_frame_distinct Cons.prems(2) by blast
  then show ?case
    using Cons.IH [of w1 fs1 "n - 1" w' fs'] Cons.prems(1) op write_frame_size [of f env "(w, fs)"]
    by (cases ok) (auto split: prod.splits)
qed simp

lemma map_of_regular_iff:
  "is_regular_file fs p \<longleftrightarrow> (\<exists>r bs. map_of fs p = Some (Regular r bs))"
  by (auto simp: is_regular_file_def split: option.splits node.splits)

text \<open>The directory of a complete run: its \<open>.bin\<close> files in path order are the segments in order.\<close>

lemma capture_files_after_run:
  assumes inv: "writer_inv fs0 frames (w, fs)" and dist: "distinct (map fst fs)"
    and dir: "is_directory fs (cw_root w)"
    and fresh: "\<And>p. in_directory (cw_root w) p \<Longrightarrow> is_regular_file fs0 p \<Longrightarrow> path_extension p \<noteq> ''.bin''"
    and K: "\<And>k. k < K \<longleftrightarrow> k * segment_length w < length frames" "K \<le> 10 ^ 6"
  shows "capture_files fs (cw_root w) = map (segment w) [0..<K]"
proof -
  let ?files = "filter (\<lambda>p. is_regular_file fs p \<and> path_extension p = ''.bin'') (directory_entries fs (cw_root w))"
  have seg: "file_contents fs (segment w k) \<noteq> None" if "k < K" for k
    using inv that K(1) by (simp add: writer_inv_def segments_hold_def)
  have reg: "is_regular_file fs (segment w k)" if "k < K" for k
    using seg [OF that] by (auto simp: file_contents_def is_regular_file_def split: option.splits node.splits bool.splits)
  have other: "\<not> (is_regular_file fs p \<and> path_extension p = ''.bin'')"
    if "in_directory (cw_root w) p" "p \<notin> segment w ` {0..<K}" for p
  proof -
    have "\<forall>k. k * segment_length w < length frames \<longrightarrow> p \<noteq> segment w k" using that(2) K(1) by auto
    then have "map_of fs p = map_of fs0 p" using inv that(1) by (simp add: writer_inv_def others_kept_def)
    then show ?thesis using fresh [OF that(1)] by (auto simp: map_of_regular_iff)
  qed
  have "set ?files = set (map (segment w) [0..<K])"
  proof (intro set_eqI iffI)
    fix p assume "p \<in> set ?files"
    then show "p \<in> set (map (segment w) [0..<K])" using other by (auto simp: directory_entries_def)
  next
    fix p assume "p \<in> set (map (segment w) [0..<K])"
    then obtain k where k: "p = segment w k" "k < K" by auto
    then have "p \<in> set (map fst fs)" using reg [OF k(2)] by (auto simp: map_of_regular_iff dest!: map_of_SomeD intro: rev_image_eqI)
    then show "p \<in> set ?files"
      using k reg [OF k(2)] by (auto simp: directory_entries_def segment_def segment_path_def path_extension_segment)
  qed
  moreover have "distinct ?files" using dist by (simp add: directory_entries_def)
  moreover have "sorted_wrt (<) (map (segment w) [0..<K])"
  proof (unfold sorted_wrt_map, rule sorted_wrt_mono_rel [OF _ sorted_wrt_upt])
    fix i j assume "i \<in> set [0..<K]" "j \<in> set [0..<K]" "i < j"
    then have "j < 10 ^ 6" "unat (of_nat i :: u64) = i" "unat (of_nat j :: u64) = j"
      using K(2) by (simp_all add: word_less_of_nat)
    then show "segment w i < segment w j"
      using pad_zeros_less [OF \<open>i < j\<close>, of 6] \<open>i < j\<close>
      by (simp add: segment_def segment_path_def segment_name_def list_less_append_left list_less_append_right
          pad_zeros_length)
  qed
  ultimately have "sort ?files = map (segment w) [0..<K]"
    by (intro sorted_distinct_set_unique) (simp_all add: strict_sorted_iff)
  then show ?thesis using dir by (simp add: capture_files_def)
qed

lemma files_frames_segments:
  assumes "segments_hold frames [] w fs" "\<forall>f \<in> set frames. length f = kWireFrameSize"
    and "\<And>k. k < K \<longleftrightarrow> k * segment_length w < length frames" "0 < segment_length w"
  shows "files_frames fs (map (segment w) [0..<K]) = frames"
    "files_trailing fs (map (segment w) [0..<K]) = 0"
proof -
  have bytes: "readable_bytes fs (segment w k) = concat (take (segment_length w) (drop (k * segment_length w) frames))"
    if "k < K" for k
    using assms(1,3) that by (simp add: segments_hold_def readable_bytes_def segment_bytes_def)
  have sized: "\<forall>f \<in> set (take a (drop b frames)). length f = kWireFrameSize" for a b
    using assms(2) by (meson in_set_dropD in_set_takeD)
  have "files_frames fs (map (segment w) [0..<K])
      = concat (map (\<lambda>k. take (segment_length w) (drop (k * segment_length w) frames)) [0..<K])"
    unfolding files_frames_def map_map
    using whole_frames_concat [OF sized, of "[]"] bytes
    by (intro arg_cong [where f = concat] map_cong) simp_all
  also have "\<dots> = take (K * segment_length w) frames" using assms(4) by (rule concat_chunks)
  also have "\<dots> = frames" using assms(3) [of K] by simp
  finally show "files_frames fs (map (segment w) [0..<K]) = frames" .
  show "files_trailing fs (map (segment w) [0..<K]) = 0"
    using bytes length_concat_frames [OF sized] by (simp add: files_trailing_def)
qed

text \<open>What a complete run of writes leaves for a reader.\<close>

lemma captured_files:
  assumes inv: "writer_inv fs0 frames (w, fs)" and dist: "distinct (map fst fs)"
    and dir: "is_directory fs (cw_root w)"
    and fresh: "\<forall>p. in_directory (cw_root w) p \<longrightarrow> is_regular_file fs0 p \<longrightarrow> path_extension p \<noteq> ''.bin''"
    and sized: "\<forall>f \<in> set frames. length f = kWireFrameSize"
    and few: "length frames \<le> 10 ^ 6 * segment_length w"
  shows "files_frames fs (capture_files fs (cw_root w)) = frames"
    "files_trailing fs (capture_files fs (cw_root w)) = 0"
proof -
  let ?n = "segment_length w"
  let ?K = "(length frames + ?n - 1) div ?n"
  have n: "0 < ?n" and holds: "segments_hold frames [] w fs" using inv by (simp_all add: writer_inv_def)
  have K: "k < ?K \<longleftrightarrow> k * ?n < length frames" for k
    using n less_eq_div_iff_mult_less_eq [of ?n "Suc k" "length frames + ?n - 1"]
    by (auto simp: Suc_le_eq [symmetric])
  have "\<not> 10 ^ 6 < ?K" using K [of "10 ^ 6"] few by simp
  then have "capture_files fs (cw_root w) = map (segment w) [0..<?K]"
    using capture_files_after_run [OF inv dist dir _ K] fresh by (simp add: not_less)
  then show "files_frames fs (capture_files fs (cw_root w)) = frames"
    "files_trailing fs (capture_files fs (cw_root w)) = 0"
    using files_frames_segments [OF holds sized K n] by simp_all
qed

text \<open>
  C20: what was captured is what is read back.  After a run in which every write succeeded, into a
  directory without other \<open>.bin\<close> files, a reader of that directory delivers exactly the frames
  written, in order, and no trailing bytes, as long as there are at most a million segments.
\<close>

theorem capture_reads_back:
  assumes "write_all ops (new_capture_writer root fps, fs0) = (length ops, w', fs')"
    and "fps \<noteq> 0" and "length ops \<le> 10 ^ 6 * unat fps" and "length ops < 2 ^ 64"
    and "distinct (map fst fs0)" and "is_directory fs' root"
    and "\<forall>p. in_directory root p \<longrightarrow> is_regular_file fs0 p \<longrightarrow> path_extension p \<noteq> ''.bin''"
    and "length buf = kWireFrameSize" and "length ops < fuel"
  shows "\<exists>r'. drain (reader_next fs') fuel buf (new_capture_reader fs' root) = (map fst ops, r') \<and>
      rd_trailing_bytes r' = 0"
proof -
  have w': "cw_root w' = root" "segment_length w' = unat fps"
    using write_all_config [OF assms(1)] by (simp_all add: new_capture_writer_def segment_length_def)
  have inv: "writer_inv fs0 (map fst ops) (w', fs')"
    using write_all_inv [OF new_writer_inv [OF assms(2)] assms(1)] assms(4) by simp
  have "distinct (map fst fs')" and "\<forall>f \<in> set (map fst ops). length f = kWireFrameSize"
    using write_all_distinct [OF assms(1,5)] by (auto simp: list_all_iff)
  then have files: "files_frames fs' (capture_files fs' root) = map fst ops"
      "files_trailing fs' (capture_files fs' root) = 0"
    using captured_files [OF inv] assms(3,6,7) by (simp_all add: w')
  have "length (files_frames fs' (capture_files fs' root)) < fuel" using files(1) assms(9) by simp
  from rd.drain_all [OF assms(8), of fs' "new_capture_reader fs' root" fuel, unfolded new_reader_rest, OF this]
  show ?thesis unfolding files by auto
qed

theorem capture_reads_back_witness:
  "\<exists>w fs r. write_all (map (\<lambda>f. (f, all_ok)) [uniform_frame 1, uniform_frame 2, uniform_frame 3])
        (new_capture_writer (Path [''raw'']) 2, []) = (3, w, fs) \<and>
     drain (reader_next fs) 4 (uniform_frame 0) (new_capture_reader fs (Path [''raw'']))
     = ([uniform_frame 1, uniform_frame 2, uniform_frame 3], r) \<and> rd_trailing_bytes r = 0"
proof -
  let ?ops = "map (\<lambda>f. (f, all_ok)) [uniform_frame 1, uniform_frame 2, uniform_frame 3]"
  let ?w = "new_capture_writer (Path [''raw'']) 2"
  obtain n w fs where run: "write_all ?ops (?w, []) = (n, w, fs)"
    by (metis prod_cases3)
  then have "n = length ?ops" and dir: "is_directory fs (Path [''raw''])"
    by (auto simp: write_frame_def open_segment_def new_capture_writer_def Let_def all_ok_def
        create_directories_def is_directory_def map_of_append_other segment_path_def split: prod.splits if_splits)
  then have run: "write_all ?ops (?w, []) = (length ?ops, w, fs)" using run by simp
  have "\<exists>r'. drain (reader_next fs) 4 (uniform_frame 0) (new_capture_reader fs (Path [''raw'']))
      = (map fst ?ops, r') \<and> rd_trailing_bytes r' = 0"
    by (rule capture_reads_back [OF run _ _ _ _ dir]) (simp_all add: is_regular_file_def)
  then show ?thesis using run by auto
qed

text \<open>
  Beyond a million segments the name order is no longer the capture order: segment 1000000
  sorts before segment 999999, so a reader delivers the later frames first.
\<close>

theorem segment_names_overflow:
  "path_join root (segment_name 1000000) < path_join root (segment_name 999999)"
proof -
  have "to_string 1000000 = ''1000000''" "to_string 999999 = ''999999''"
    by (simp_all add: to_string.simps digit_char_def char_of_def bit_Suc_0_iff)
  then show ?thesis by (simp add: segment_name_def pad_zeros_def less_char_def)
qed

end
