(* ===== verification/Binary64.thy ===== *)
theory Binary64
  imports Complex_Main "HOL-Library.Log_Nat"
begin

text \<open>
  The part of \<open>double\<close> arithmetic that the code uses: rounding of a non-negative rational to
  the nearest value with a 53-bit significand, ties to even.  The quantities of the program lie
  between \<open>2 ^ - 1022\<close> and \<open>2 ^ 1024\<close>, so the exponent range plays no role.  An operation
  on doubles is the rational operation followed by \<open>fl\<close>.  (The project compiles with
  \<open>CMAKE_CXX_EXTENSIONS OFF\<close>, so products and sums are not contracted.)
\<close>

section \<open>Rounding to an integer\<close>

definition round_half_even :: "rat \<Rightarrow> int" where
  "round_half_even x =
     (let n = \<lfloor>x\<rfloor>; d = x - of_int n
      in if d < 1 / 2 then n else if 1 / 2 < d then n + 1 else if even n then n else n + 1)"

lemma round_half_even_int [simp]: "round_half_even (of_int n) = n"
  by (simp add: round_half_even_def)

lemma round_half_even_bounds: "\<lfloor>x\<rfloor> \<le> round_half_even x" "round_half_even x \<le> \<lfloor>x\<rfloor> + 1"
  by (auto simp: round_half_even_def Let_def)

lemma round_half_even_mono: "x \<le> y \<Longrightarrow> round_half_even x \<le> round_half_even y"
proof -
  assume le: "x \<le> y"
  then have "\<lfloor>x\<rfloor> \<le> \<lfloor>y\<rfloor>" by (rule floor_mono)
  then consider "\<lfloor>x\<rfloor> = \<lfloor>y\<rfloor>" | "\<lfloor>x\<rfloor> + 1 \<le> \<lfloor>y\<rfloor>" by linarith
  then show ?thesis
  proof cases
    case 1
    then show ?thesis using le by (auto simp: round_half_even_def Let_def)
  next
    case 2
    then show ?thesis using round_half_even_bounds [of x] round_half_even_bounds [of y] by linarith
  qed
qed

section \<open>Rounding to a 53-bit significand\<close>

text \<open>The exponent \<open>e\<close> with \<open>2 ^ e \<le> x < 2 ^ (e + 1)\<close>, for a positive \<open>x\<close>.\<close>

definition binade :: "rat \<Rightarrow> int" where
  "binade x =
     (if 1 \<le> x then int (floorlog 2 (nat \<lfloor>x\<rfloor>)) - 1
      else - int (floorlog 2 (nat (\<lceil>1 / x\<rceil> - 1))))"

definition fl :: "rat \<Rightarrow> rat" where
  "fl x =
     (if x \<le> 0 then 0
      else
        let ulp = 2 powi (binade x - 52)
        in of_int (round_half_even (x / ulp)) * ulp)"

lemma floorlog_interval:
  assumes "0 < n"
  obtains k where "floorlog 2 n = Suc k" "2 ^ k \<le> n" "n + 1 \<le> 2 ^ Suc k"
proof -
  have "2 ^ (floorlog 2 n - 1) \<le> n" "n < 2 ^ floorlog 2 n"
    using assms floorlog_bounds [of n 2] by simp_all
  moreover obtain k where "floorlog 2 n = Suc k"
    using assms by (cases "floorlog 2 n") (auto simp: floorlog_eq_zero_iff)
  ultimately show thesis by (intro that) auto
qed

lemma binade_spec_ge_1:
  assumes "1 \<le> x"
  shows "2 powi (binade x) \<le> x \<and> x < 2 powi (binade x + 1)"
proof -
  define n where "n = nat \<lfloor>x\<rfloor>"
  have "1 \<le> \<lfloor>x\<rfloor>" using assms by (simp add: le_floor_iff)
  then have n: "0 < n" "of_nat n = (of_int \<lfloor>x\<rfloor> :: rat)" by (simp_all add: n_def)
  obtain k where k: "floorlog 2 n = Suc k" "2 ^ k \<le> n" "n + 1 \<le> 2 ^ Suc k"
    using floorlog_interval [OF n(1)] by blast
  have "of_nat (2 ^ k) \<le> (of_nat n :: rat)" "of_nat (n + 1) \<le> (of_nat (2 ^ Suc k) :: rat)"
    using k(2,3) by (simp_all only: of_nat_le_iff)
  then have "2 ^ k \<le> (of_int \<lfloor>x\<rfloor> :: rat)" "of_int \<lfloor>x\<rfloor> + 1 \<le> (2 ^ Suc k :: rat)"
    unfolding n(2) [symmetric] by (simp_all only: of_nat_add of_nat_power of_nat_numeral of_nat_1)
  then have "2 ^ k \<le> x" "x < 2 ^ Suc k"
    using floor_correct [of x] by linarith+
  moreover have "binade x = int k" using assms k(1) by (simp add: binade_def n_def)
  moreover have "(2 :: rat) powi (int k + 1) = 2 ^ Suc k" by (simp add: power_int_add_1)
  ultimately show ?thesis by simp
qed

lemma binade_spec_less_1:
  assumes "0 < x" "x < 1"
  shows "2 powi (binade x) \<le> x \<and> x < 2 powi (binade x + 1)"
proof -
  define n where "n = nat (\<lceil>1 / x\<rceil> - 1)"
  have "1 < 1 / x" using assms by simp
  then have "1 < \<lceil>1 / x\<rceil>" by (simp add: less_ceiling_iff)
  then have n: "0 < n" "of_nat n = (of_int (\<lceil>1 / x\<rceil> - 1) :: rat)"
    by (simp_all add: n_def del: one_less_ceiling)
  obtain k where k: "floorlog 2 n = Suc k" "2 ^ k \<le> n" "n + 1 \<le> 2 ^ Suc k"
    using floorlog_interval [OF n(1)] by blast
  have "of_nat (2 ^ k) \<le> (of_nat n :: rat)" "of_nat (n + 1) \<le> (of_nat (2 ^ Suc k) :: rat)"
    using k(2,3) by (simp_all only: of_nat_le_iff)
  then have "2 ^ k \<le> (of_int (\<lceil>1 / x\<rceil> - 1) :: rat)" "of_int (\<lceil>1 / x\<rceil> - 1) + 1 \<le> (2 ^ Suc k :: rat)"
    unfolding n(2) [symmetric] by (simp_all only: of_nat_add of_nat_power of_nat_numeral of_nat_1)
  then have "2 ^ k < 1 / x" "1 / x \<le> 2 ^ Suc k"
    using ceiling_correct [of "1 / x"] unfolding of_int_diff of_int_1 by linarith+
  then have "x < 1 / 2 ^ k" "1 / 2 ^ Suc k \<le> x" using assms by (simp_all add: field_simps)
  moreover have "binade x = - int (Suc k)" using assms k(1) by (simp add: binade_def n_def)
  moreover have "(2 :: rat) powi (- int (Suc k)) = 1 / 2 ^ Suc k" "(2 :: rat) powi (- int k) = 1 / 2 ^ k"
    by (simp_all add: power_int_minus inverse_eq_divide del: of_nat_Suc power_Suc)
  ultimately show ?thesis by simp
qed

lemma binade_spec:
  assumes "0 < x"
  shows "2 powi (binade x) \<le> x" "x < 2 powi (binade x + 1)"
  using assms binade_spec_ge_1 [of x] binade_spec_less_1 [of x] by (cases "1 \<le> x"; simp)+

lemma fl_pos:
  "0 < x \<Longrightarrow> fl x = of_int (round_half_even (x / 2 powi (binade x - 52))) * 2 powi (binade x - 52)"
  by (simp add: fl_def Let_def)

lemma binade_less:
  assumes "0 < x" "x < 2 powi e"
  shows "binade x < e"
proof (rule ccontr)
  assume "\<not> binade x < e"
  then have "(2 :: rat) powi e \<le> 2 powi binade x" by (intro power_int_increasing) auto
  then show False using binade_spec(1) [OF assms(1)] assms(2) by simp
qed

lemma binade_mono:
  assumes "0 < x" "x \<le> y"
  shows "binade x \<le> binade y"
  using binade_less [of x "binade y + 1"] binade_spec(2) [of y] assms by simp

section \<open>Rounding is monotone, and exact where the significand suffices\<close>

lemma fl_in_binade:
  assumes "0 < x"
  shows "2 powi (binade x) \<le> fl x" "fl x \<le> 2 powi (binade x + 1)"
proof -
  define u :: rat where "u = 2 powi (binade x - 52)"
  have u: "0 < u" by (simp add: u_def)
  have split: "(2 :: rat) powi (binade x) = of_int (2 ^ 52) * u" "(2 :: rat) powi (binade x + 1) = of_int (2 ^ 53) * u"
    by (simp_all add: u_def power_int_diff power_int_add)
  have "of_int (2 ^ 52) \<le> x / u" "x / u \<le> of_int (2 ^ 53)"
    using binade_spec [OF assms] u unfolding split by (simp_all add: field_simps)
  then have "2 ^ 52 \<le> round_half_even (x / u)" "round_half_even (x / u) \<le> 2 ^ 53"
    using round_half_even_mono [of "of_int (2 ^ 52)" "x / u"] round_half_even_mono [of "x / u" "of_int (2 ^ 53)"]
    by (simp_all only: round_half_even_int)
  then have "of_int (2 ^ 52) * u \<le> of_int (round_half_even (x / u)) * u"
      "of_int (round_half_even (x / u)) * u \<le> of_int (2 ^ 53) * u"
    using u by (intro mult_right_mono; simp only: of_int_le_iff less_imp_le)+
  then show "2 powi (binade x) \<le> fl x" "fl x \<le> 2 powi (binade x + 1)"
    unfolding split fl_pos [OF assms] u_def .
qed

lemma fl_nonneg: "0 \<le> fl x"
proof (cases "0 < x")
  case True
  have "(0 :: rat) \<le> 2 powi (binade x)" by simp
  then show ?thesis using fl_in_binade(1) [OF True] by linarith
qed (simp add: fl_def)

lemma fl_mono:
  assumes "x \<le> y"
  shows "fl x \<le> fl y"
proof (cases "0 < x")
  case True
  consider "binade x = binade y" | "binade x + 1 \<le> binade y" using binade_mono [OF True assms] by linarith
  then show ?thesis
  proof cases
    case 1
    have "x / 2 powi (binade y - 52) \<le> y / 2 powi (binade y - 52)"
      using assms by (intro divide_right_mono) auto
    then show ?thesis
      using True assms 1 by (simp add: fl_pos round_half_even_mono mult_right_mono)
  next
    case 2
    then have "(2 :: rat) powi (binade x + 1) \<le> 2 powi (binade y)" by (intro power_int_increasing) auto
    then show ?thesis
      using fl_in_binade(2) [OF True] fl_in_binade(1) [of y] True assms by linarith
  qed
qed (simp add: fl_def [of x] fl_nonneg)

text \<open>A dyadic value with at most 53 significant bits is a double.\<close>

lemma fl_exact:
  assumes "m < 2 ^ 53"
  shows "fl (of_nat m / 2 ^ k) = of_nat m / 2 ^ k"
proof (cases "m = 0")
  case False
  define x :: rat where "x = of_nat m / 2 ^ k"
  have pos: "0 < x" using False by (simp add: x_def)
  have "x < 2 powi (53 - int k)"
    using assms of_nat_less_iff [of m "2 ^ 53", where 'a = rat]
    by (simp add: x_def power_int_diff divide_strict_right_mono)
  then have "binade x < 53 - int k" by (rule binade_less [OF pos])
  then have "binade x - 52 = - int k - int (nat (52 - int k - binade x))" by simp
  then obtain d where d: "binade x - 52 = - int k - int d" by blast
  have "(2 :: rat) powi (binade x - 52) = 1 / 2 ^ (k + d)"
    unfolding d by (simp add: power_int_diff power_int_minus power_add field_simps)
  moreover have "x / (1 / 2 ^ (k + d)) = of_int (int m * 2 ^ d)"
    by (simp add: x_def power_add)
  ultimately have "fl x = of_int (int m * 2 ^ d) * (1 / 2 ^ (k + d))"
    using pos by (simp only: fl_pos round_half_even_int)
  then show ?thesis by (simp add: x_def power_add)
qed (simp add: fl_def)

lemma fl_of_nat: "n < 2 ^ 53 \<Longrightarrow> fl (of_nat n) = of_nat n"
  using fl_exact [of n 0] by simp

end
