(* ===== verification/Latency_Stats.thy ===== *)
theory Latency_Stats
  imports Cmb_Prelude Binary64
begin

text \<open>
  \<open>common/latency_stats.{h,cpp}\<close>: a histogram with one bucket per microsecond below
  \<open>kExactRangeUs\<close> and one overflow bucket.  Counters are \<open>u64\<close> and wrap; a \<open>double\<close> argument is
  the rational number it denotes, and double arithmetic is rational arithmetic rounded by \<open>fl\<close>.
  The reference is the sorted list of the values that were added.
\<close>

section \<open>State and operations\<close>

definition kExactRangeUs :: nat where "kExactRangeUs = 20000"

record latency_stats =
  ls_buckets :: "u64 list"
  ls_count :: u64
  ls_total :: u64
  ls_min :: u64
  ls_max :: u64

definition new_latency_stats :: latency_stats where
  "new_latency_stats =
     \<lparr>ls_buckets = replicate (kExactRangeUs + 1) 0, ls_count = 0, ls_total = 0, ls_min = 0, ls_max = 0\<rparr>"

definition bucket_of :: "u64 \<Rightarrow> nat" where
  "bucket_of value_us = min (unat value_us) kExactRangeUs"

text \<open>\<open>LatencyStats::add\<close>\<close>

definition add_latency :: "u64 \<Rightarrow> latency_stats \<Rightarrow> latency_stats" where
  "add_latency value_us s =
     (let bucket = bucket_of value_us;
          s1 = s\<lparr>ls_buckets := (ls_buckets s)[bucket := ls_buckets s ! bucket + 1],
                 ls_count := ls_count s + 1,
                 ls_total := ls_total s + value_us\<rparr>
      in if ls_count s1 = 1
         then s1\<lparr>ls_min := value_us, ls_max := value_us\<rparr>
         else s1\<lparr>ls_min := min (ls_min s1) value_us, ls_max := max (ls_max s1) value_us\<rparr>)"

definition latency_empty :: "latency_stats \<Rightarrow> bool" where
  "latency_empty s \<longleftrightarrow> ls_count s = 0"

text \<open>\<open>LatencyStats::average\<close>\<close>

definition latency_average :: "latency_stats \<Rightarrow> u64" where
  "latency_average s = (if ls_count s = 0 then 0 else ls_total s div ls_count s)"

text \<open>
  The rank computed by \<open>percentile\<close>: the \<open>u64\<close> operand is converted to \<open>double\<close>, the product and
  the sum are rounded, and the cast truncates.
\<close>

definition percentile_rank :: "u64 \<Rightarrow> rat \<Rightarrow> u64" where
  "percentile_rank count p =
     of_int \<lfloor>fl (fl (fl (of_nat (unat (count - 1))) * p) + 1 / 2)\<rfloor>"

text \<open>The loop over the buckets, from bucket number \<open>bucket\<close> on.\<close>

fun percentile_scan :: "u64 \<Rightarrow> u64 \<Rightarrow> u64 \<Rightarrow> nat \<Rightarrow> u64 list \<Rightarrow> u64" where
  "percentile_scan rank mx cumulative bucket [] = mx"
| "percentile_scan rank mx cumulative bucket (b # bs) =
     (let cumulative' = cumulative + b
      in if rank < cumulative' then (if bucket = kExactRangeUs then mx else of_nat bucket)
         else percentile_scan rank mx cumulative' (bucket + 1) bs)"

text \<open>\<open>LatencyStats::percentile\<close>\<close>

definition percentile :: "rat \<Rightarrow> latency_stats \<Rightarrow> u64" where
  "percentile p s =
     (if ls_count s = 0 \<or> p \<le> 0 then (if ls_count s = 0 then 0 else ls_min s)
      else if 1 \<le> p then ls_max s
      else percentile_scan (percentile_rank (ls_count s) p) (ls_max s) 0 0 (ls_buckets s))"

section \<open>Runs\<close>

definition latency_run :: "u64 list \<Rightarrow> latency_stats" where
  "latency_run vs = fold add_latency vs new_latency_stats"

definition in_bucket :: "u64 list \<Rightarrow> nat \<Rightarrow> nat" where
  "in_bucket vs b = length (filter (\<lambda>v. bucket_of v = b) vs)"

lemma bucket_of_le: "bucket_of v \<le> kExactRangeUs"
  by (simp add: bucket_of_def)

lemma latency_run_snoc: "latency_run (vs @ [v]) = add_latency v (latency_run vs)"
  by (simp add: latency_run_def)

lemma add_latency_simps [simp]:
  "ls_buckets (add_latency v s) = (ls_buckets s)[bucket_of v := ls_buckets s ! bucket_of v + 1]"
  "ls_count (add_latency v s) = ls_count s + 1"
  "ls_total (add_latency v s) = ls_total s + v"
  by (simp_all add: add_latency_def Let_def)

lemma latency_run_count: "ls_count (latency_run vs) = of_nat (length vs)"
  by (induction vs rule: rev_induct) (simp_all add: latency_run_snoc, simp add: latency_run_def new_latency_stats_def)

lemma latency_run_total: "ls_total (latency_run vs) = sum_list vs"
  by (induction vs rule: rev_induct) (simp_all add: latency_run_snoc, simp add: latency_run_def new_latency_stats_def)

lemma latency_run_buckets:
  "ls_buckets (latency_run vs) = map (\<lambda>b. of_nat (in_bucket vs b)) [0..<kExactRangeUs + 1]"
proof (induction vs rule: rev_induct)
  case Nil
  then show ?case by (simp add: latency_run_def new_latency_stats_def in_bucket_def map_replicate_const)
next
  case (snoc v vs)
  have "bucket_of v < kExactRangeUs + 1" using bucket_of_le [of v] by simp
  then show ?case
    by (intro nth_equalityI)
      (simp_all add: latency_run_snoc snoc.IH in_bucket_def nth_list_update del: upt_Suc)
qed

lemma latency_run_min_max:
  assumes "vs \<noteq> []" "length vs < 2 ^ 64"
  shows "ls_min (latency_run vs) = Min (set vs) \<and> ls_max (latency_run vs) = Max (set vs)"
  using assms
proof (induction vs rule: rev_nonempty_induct)
  case (single v)
  then show ?case by (simp add: latency_run_def add_latency_def new_latency_stats_def Let_def)
next
  case (snoc v vs)
  have "ls_count (latency_run vs) + 1 \<noteq> 1"
    using snoc.hyps snoc.prems by (simp add: latency_run_count of_nat_eq_0_iff word_of_nat_eq_0_iff nat_dvd_not_less)
  then show ?case
    using snoc by (simp add: latency_run_snoc add_latency_def Let_def min.commute max.commute)
qed


section \<open>The rank\<close>

definition rank_value :: "nat \<Rightarrow> rat \<Rightarrow> int" where
  "rank_value n p = \<lfloor>fl (fl (of_nat (n - 1) * p) + 1 / 2)\<rfloor>"

lemma rank_value_nonneg: "0 \<le> rank_value n p"
  by (simp add: rank_value_def fl_nonneg)

lemma rank_value_mono: "p \<le> q \<Longrightarrow> rank_value n p \<le> rank_value n q"
  by (simp add: rank_value_def floor_mono fl_mono mult_left_mono)

lemma rank_value_less:
  assumes "0 < n" "n \<le> 2 ^ 52" "p \<le> 1"
  shows "rank_value n p < int n"
proof -
  have "fl (of_nat (n - 1) * p) \<le> fl (of_nat (n - 1))"
    using assms by (intro fl_mono) (simp add: mult_left_le)
  also have "\<dots> = of_nat (n - 1)" using assms by (intro fl_of_nat) simp
  finally have "fl (fl (of_nat (n - 1) * p) + 1 / 2) \<le> fl (of_nat (n - 1) + 1 / 2)"
    by (intro fl_mono) simp
  also have "of_nat (n - 1) + 1 / 2 = (of_nat (2 * (n - 1) + 1) / 2 ^ 1 :: rat)"
    by (simp add: field_simps)
  also have "fl \<dots> = of_nat (2 * (n - 1) + 1) / 2 ^ 1"
    by (rule fl_exact) (use assms in simp)
  also have "\<dots> < of_nat n" using assms by (simp add: of_nat_diff field_simps)
  finally show ?thesis by (simp add: rank_value_def floor_less_iff)
qed

lemma unat_percentile_rank:
  assumes "0 < n" "n \<le> 2 ^ 52" "p \<le> 1"
  shows "unat (percentile_rank (of_nat n) p) = nat (rank_value n p)"
proof -
  have "unat (of_nat n - 1 :: u64) = n - 1"
    using assms word_less_of_nat [of "n - 1", where 'a = 64] by (simp add: of_nat_diff)
  then have "percentile_rank (of_nat n) p = of_int (rank_value n p)"
    using assms fl_of_nat [of "n - 1"] by (simp add: percentile_rank_def rank_value_def)
  moreover have "0 \<le> rank_value n p" "rank_value n p < 2 ^ 64"
    using rank_value_nonneg rank_value_less [OF assms] assms by (auto intro: less_le_trans)
  ultimately show ?thesis by (simp add: unsigned_of_int take_bit_int_eq_self nat_eq_iff)
qed

section \<open>The bucket scan finds the order statistic\<close>

definition below :: "u64 list \<Rightarrow> nat \<Rightarrow> nat" where
  "below vs b = length (filter (\<lambda>v. bucket_of v < b) vs)"

lemma below_Suc: "below vs (Suc b) = below vs b + in_bucket vs b"
  by (induction vs) (auto simp: below_def in_bucket_def less_Suc_eq)

lemma bucket_of_mono: "v \<le> w \<Longrightarrow> bucket_of v \<le> bucket_of w"
  by (simp add: bucket_of_def word_le_nat_alt)

lemma sorted_nth_filter:
  assumes "sorted s" "i < length s" and down: "\<And>v w. v \<le> w \<Longrightarrow> P w \<Longrightarrow> P v"
  shows "P (s ! i) \<longleftrightarrow> i < length (filter P s)"
  using assms(1,2)
proof (induction s arbitrary: i)
  case (Cons a s)
  have "filter P s = []" if "\<not> P a" using that Cons.prems down by (auto simp: filter_empty_conv)
  moreover have "P a" if "j < length s" "P (s ! j)" for j
    using down [of a "s ! j"] that Cons.prems by simp
  ultimately show ?case using Cons by (cases i; cases "P a") auto
qed simp

lemma bucket_of_order_statistic:
  assumes "i < length vs"
  shows "bucket_of (sort vs ! i) < b \<longleftrightarrow> i < below vs b"
proof -
  have "bucket_of (sort vs ! i) < b \<longleftrightarrow> i < length (filter (\<lambda>v. bucket_of v < b) (sort vs))"
    using assms by (intro sorted_nth_filter) (auto dest: bucket_of_mono)
  also have "length (filter (\<lambda>v. bucket_of v < b) (sort vs)) = below vs b"
    by (simp add: below_def filter_sort)
  finally show ?thesis .
qed

lemma percentile_scan_order_statistic:
  assumes "length vs < 2 ^ 64" "unat rank < length vs" "b \<le> kExactRangeUs" "below vs b \<le> unat rank"
  shows "percentile_scan rank mx (of_nat (below vs b)) b
           (map (\<lambda>b. of_nat (in_bucket vs b)) [b..<kExactRangeUs + 1])
       = (let v = sort vs ! unat rank in if unat v < kExactRangeUs then v else mx)"
  using assms(3,4)
proof (induction "kExactRangeUs - b" arbitrary: b)
  case 0
  then have b: "b = kExactRangeUs" by simp
  have "below vs (Suc b) = length vs"
    using bucket_of_le by (simp add: below_def b less_Suc_eq_le)
  then have "rank < of_nat (below vs b) + of_nat (in_bucket vs b)"
    using assms(1,2) by (simp add: below_Suc word_less_nat_alt word_less_of_nat flip: of_nat_add)
  moreover have "\<not> bucket_of (sort vs ! unat rank) < b"
    using 0 assms(2) by (simp add: bucket_of_order_statistic)
  ultimately show ?case by (auto simp: b bucket_of_def Let_def)
next
  case (Suc n)
  let ?v = "sort vs ! unat rank"
  have b: "b < kExactRangeUs" using Suc by simp
  have upt: "[b..<kExactRangeUs + 1] = b # [Suc b..<kExactRangeUs + 1]"
    using b by (simp add: upt_conv_Cons)
  have le: "below vs (Suc b) \<le> length vs" by (simp add: below_def)
  have sum: "of_nat (below vs b) + of_nat (in_bucket vs b) = (of_nat (below vs (Suc b)) :: u64)"
    by (simp add: below_Suc)
  have less: "rank < of_nat (below vs (Suc b)) \<longleftrightarrow> unat rank < below vs (Suc b)"
    using assms(1) le by (simp add: word_less_nat_alt word_less_of_nat)
  show ?case
  proof (cases "unat rank < below vs (Suc b)")
    case True
    then have "bucket_of ?v < Suc b" "\<not> bucket_of ?v < b"
      using assms(2) Suc.prems by (simp_all add: bucket_of_order_statistic)
    then have "unat ?v = b" using b by (auto simp: bucket_of_def)
    then have "of_nat b = ?v" unfolding \<open>unat ?v = b\<close> [symmetric] by simp
    with True b \<open>unat ?v = b\<close> show ?thesis
      unfolding upt by (simp add: sum less Let_def del: of_nat_Suc)
  next
    case False
    then show ?thesis
      using Suc.hyps(1) [of "Suc b"] Suc.hyps(2) b unfolding upt by (simp add: sum less Let_def del: of_nat_Suc)
  qed
qed

text \<open>The value that a rank selects: exact below the overflow bucket, the maximum inside it.\<close>

definition order_statistic :: "u64 list \<Rightarrow> nat \<Rightarrow> u64" where
  "order_statistic vs i = (if unat (sort vs ! i) < kExactRangeUs then sort vs ! i else Max (set vs))"

lemma percentile_inner:
  assumes "vs \<noteq> []" "length vs \<le> 2 ^ 52" "0 < p" "p < 1"
  shows "percentile p (latency_run vs) = order_statistic vs (nat (rank_value (length vs) p))"
proof -
  have len: "0 < length vs" "length vs < 2 ^ 64" using assms by simp_all
  let ?r = "percentile_rank (of_nat (length vs)) p"
  have r: "unat ?r = nat (rank_value (length vs) p)" "unat ?r < length vs"
    using unat_percentile_rank [OF len(1) assms(2), of p] rank_value_less [OF len(1) assms(2), of p]
      rank_value_nonneg [of "length vs" p] assms
    by (simp_all add: nat_less_iff)
  have "ls_count (latency_run vs) \<noteq> 0"
    using len by (simp add: latency_run_count word_of_nat_eq_0_iff nat_dvd_not_less)
  then have "percentile p (latency_run vs)
      = percentile_scan ?r (Max (set vs)) 0 0 (map (\<lambda>b. of_nat (in_bucket vs b)) [0..<kExactRangeUs + 1])"
    using assms latency_run_min_max [OF assms(1) len(2)]
    by (simp add: percentile_def latency_run_count latency_run_buckets del: upt_Suc)
  also have "\<dots> = order_statistic vs (nat (rank_value (length vs) p))"
    using percentile_scan_order_statistic [OF len(2) r(2), of 0] r(1)
    by (simp add: below_def order_statistic_def Let_def del: upt_Suc)
  finally show ?thesis .
qed

lemma order_statistic_bounds:
  assumes "i < length vs"
  shows "Min (set vs) \<le> order_statistic vs i" "order_statistic vs i \<le> Max (set vs)"
proof -
  have "sort vs ! i \<in> set vs" using assms by (metis length_sort nth_mem set_sort)
  then show "Min (set vs) \<le> order_statistic vs i" "order_statistic vs i \<le> Max (set vs)"
    by (auto simp: order_statistic_def intro: order_trans [OF Min_le Max_ge])
qed

lemma order_statistic_mono:
  assumes "i \<le> j" "j < length vs"
  shows "order_statistic vs i \<le> order_statistic vs j"
proof -
  have "sort vs ! i \<le> sort vs ! j" using assms by (intro sorted_nth_mono) auto
  then show ?thesis
    using order_statistic_bounds(2) [of i vs] assms
    by (auto simp: order_statistic_def word_le_nat_alt split: if_splits)
qed

section \<open>Correctness\<close>

text \<open>
  C37: the summary figures of a run.  After any non-empty run of fewer than \<open>2 ^ 64\<close> samples the
  count, the minimum and the maximum are exact, and as long as the sum of the samples fits into 64
  bits the average is the exact quotient, rounded down.
\<close>

theorem latency_run_summary:
  assumes "vs \<noteq> []" and "length vs < 2 ^ 64" and "sum_list (map unat vs) < 2 ^ 64"
  shows "let s = latency_run vs in
     unat (ls_count s) = length vs \<and> \<not> latency_empty s \<and>
     ls_min s = Min (set vs) \<and> ls_max s = Max (set vs) \<and>
     unat (latency_average s) = sum_list (map unat vs) div length vs"
proof -
  have count: "unat (of_nat (length vs) :: u64) = length vs" using assms by (simp add: word_less_of_nat)
  have total: "sum_list vs = of_nat (sum_list (map unat vs))" by (induction vs) simp_all
  then have "unat (sum_list vs) = sum_list (map unat vs)" using assms by (simp add: word_less_of_nat)
  moreover have "(of_nat (length vs) :: u64) \<noteq> 0" using count assms(1) by (metis length_0_conv unat_0)
  ultimately show ?thesis
    using latency_run_min_max [OF assms(1,2)] count
    by (simp add: Let_def latency_empty_def latency_average_def latency_run_count latency_run_total unat_div)
qed

theorem latency_run_summary_witness:
  "unat (latency_average (latency_run [10, 20, 30])) = 20"
  using latency_run_summary [of "[10, 20, 30]"] by (simp add: Let_def)

text \<open>
  A percentile strictly between 0 and 1 is an order statistic.  The rank that the rounded
  double arithmetic gives is one of the positions of the sorted samples, and the bucket loop
  returns the sample at that position if it is below 20000 microseconds, and the maximum otherwise.
\<close>

theorem percentile_is_order_statistic:
  assumes "vs \<noteq> []" and "length vs \<le> 2 ^ 52" and "0 < p" and "p < 1"
  shows "let i = unat (percentile_rank (of_nat (length vs)) p); v = sort vs ! i
     in i < length vs \<and> percentile p (latency_run vs) = (if unat v < 20000 then v else Max (set vs))"
proof -
  have "unat (percentile_rank (of_nat (length vs)) p) = nat (rank_value (length vs) p)"
    "nat (rank_value (length vs) p) < length vs"
    using assms rank_value_nonneg [of "length vs" p]
    by (simp_all add: unat_percentile_rank rank_value_less nat_less_iff)
  then show ?thesis
    using percentile_inner [OF assms] by (simp add: Let_def order_statistic_def kExactRangeUs_def)
qed

text \<open>The literal \<open>0.999\<close> of the callers is the double nearest to it.\<close>

lemma rank_999_of_3: "unat (percentile_rank 3 (fl (999 / 1000))) = 2"
  by code_simp

lemma fl_999: "0 < fl (999 / 1000)" "fl (999 / 1000) < 1"
  by code_simp+

theorem percentile_is_order_statistic_witness:
  "percentile (fl (999 / 1000)) (latency_run [10, 30, 20]) = 30"
  using percentile_is_order_statistic [of "[10, 30, 20]", OF _ _ fl_999] rank_999_of_3 by (simp add: Let_def)

text \<open>
  Percentiles are monotone in their argument and lie between the minimum and the maximum, for
  every argument, those at or beyond 0 and 1 included.
\<close>

theorem percentile_mono_bounded:
  assumes "vs \<noteq> []" and "length vs \<le> 2 ^ 52" and "p \<le> q"
  shows "Min (set vs) \<le> percentile p (latency_run vs) \<and>
    percentile p (latency_run vs) \<le> percentile q (latency_run vs) \<and>
    percentile q (latency_run vs) \<le> Max (set vs)"
proof -
  let ?i = "\<lambda>p. nat (rank_value (length vs) p)"
  have len: "0 < length vs" "length vs < 2 ^ 64" using assms by simp_all
  have count: "ls_count (latency_run vs) \<noteq> 0"
    using len by (simp add: latency_run_count word_of_nat_eq_0_iff nat_dvd_not_less)
  have "?i p < length vs" if "p < 1" for p
    using rank_value_less [OF len(1) assms(2), of p] that rank_value_nonneg [of "length vs" p] by linarith
  then have inner: "Min (set vs) \<le> percentile p (latency_run vs)" "percentile p (latency_run vs) \<le> Max (set vs)"
    if "0 < p" "p < 1" for p
    using that percentile_inner [OF assms(1,2), of p] order_statistic_bounds [of "?i p" vs] by simp_all
  have outer: "p \<le> 0 \<Longrightarrow> percentile p (latency_run vs) = Min (set vs)"
    "1 \<le> p \<Longrightarrow> percentile p (latency_run vs) = Max (set vs)" for p
    using count latency_run_min_max [OF assms(1) len(2)] by (simp_all add: percentile_def)
  have "Min (set vs) \<le> Max (set vs)" using assms(1) by simp
  then have range: "Min (set vs) \<le> percentile p (latency_run vs) \<and> percentile p (latency_run vs) \<le> Max (set vs)" for p
    using inner outer by (metis linorder_not_less order_refl)
  have "percentile p (latency_run vs) \<le> percentile q (latency_run vs)" if "0 < p" "q < 1"
    using that assms(3) percentile_inner [OF assms(1,2)] rank_value_mono [OF assms(3)]
      rank_value_less [OF len(1) assms(2), of q] rank_value_nonneg [of "length vs" q]
    by (simp add: order_statistic_mono nat_less_iff nat_mono)
  then show ?thesis using range outer by (metis linorder_not_less)
qed

theorem percentile_mono_bounded_witness:
  "percentile (1 / 2) (latency_run [10, 30, 20]) \<le> percentile (fl (999 / 1000)) (latency_run [10, 30, 20]) \<and>
   percentile (fl (999 / 1000)) (latency_run [10, 30, 20]) \<le> 30"
proof -
  have "(1 :: rat) / 2 \<le> fl (999 / 1000)" by code_simp
  then show ?thesis using percentile_mono_bounded [of "[10, 30, 20]" "1 / 2" "fl (999 / 1000)"] by simp
qed

end
