(* ===== verification/Sockets.thy ===== *)
theory Sockets
  imports Cmb_Prelude "HOL-Library.Sublist"
begin

text \<open>
  The operating system as the TCP classes see it.  The descriptors that the process holds open and
  the address lists it has not freed are the state; what the system calls answer is an argument of
  each operation (an address with its outcomes is an \<open>attempt\<close>).  A stream that arrives is the
  list of the pieces in which \<open>recv\<close> can see it.  The Windows variants are not modelled.
\<close>

definition kInvalidSocket :: int where "kInvalidSocket = - 1"

record tcp_world =
  tw_open :: "int list"
  tw_address_lists :: nat

definition open_handle :: "int \<Rightarrow> tcp_world \<Rightarrow> tcp_world" where
  "open_handle h w = w\<lparr>tw_open := h # tw_open w\<rparr>"

definition close_handle :: "int \<Rightarrow> tcp_world \<Rightarrow> tcp_world" where
  "close_handle h w = w\<lparr>tw_open := remove1 h (tw_open w)\<rparr>"

definition new_address_list :: "tcp_world \<Rightarrow> tcp_world" where
  "new_address_list w = w\<lparr>tw_address_lists := tw_address_lists w + 1\<rparr>"

definition free_address_list :: "tcp_world \<Rightarrow> tcp_world" where
  "free_address_list w = w\<lparr>tw_address_lists := tw_address_lists w - 1\<rparr>"

text \<open>
  One address of a \<open>getaddrinfo\<close> result: the descriptor \<open>socket\<close> returns for it, the outcome of
  \<open>bind\<close> for each local address that may be tried, and whether \<open>connect\<close> (or \<open>listen\<close>) succeeds.
\<close>

record attempt =
  at_socket :: int
  at_binds :: "bool list"
  at_connects :: bool

text \<open>\<open>recv\<close> with a buffer of \<open>n\<close> bytes; an empty answer is the end of the stream or an error.\<close>

fun recv :: "nat \<Rightarrow> bytes list \<Rightarrow> bytes \<times> bytes list" where
  "recv n [] = ([], [])"
| "recv n (piece # rest) =
     (take n piece, if length piece \<le> n then rest else drop n piece # rest)"

lemma recv_concat:
  "recv n pieces = (data, pieces') \<Longrightarrow> concat pieces = data @ concat pieces' \<and> length data \<le> n"
  by (cases pieces) (auto split: if_splits)

lemma recv_nonempty:
  "recv n pieces = (data, pieces') \<Longrightarrow> 0 < n \<Longrightarrow> [] \<notin> set pieces \<Longrightarrow>
     [] \<notin> set pieces' \<and> (data = [] \<longleftrightarrow> pieces = [])"
  by (cases pieces) (auto split: if_splits)

end
