(* ===== verification/Tcp_Sender.thy ===== *)
theory Tcp_Sender
  imports Sockets
begin

text \<open>
  \<open>sender/tcp_sender.{h,cpp}\<close>: connecting, sending all bytes of a frame in chunks of at most 64 KiB,
  closing.
\<close>

section \<open>State and operations\<close>

record tcp_sender =
  ts_socket :: int
  ts_sent_frames :: u64

definition new_tcp_sender :: tcp_sender where
  "new_tcp_sender = \<lparr>ts_socket = kInvalidSocket, ts_sent_frames = 0\<rparr>"

definition sender_connected :: "tcp_sender \<Rightarrow> bool" where
  "sender_connected s \<longleftrightarrow> ts_socket s \<noteq> kInvalidSocket"

text \<open>\<open>TcpSender::close\<close>\<close>

definition close_sender :: "tcp_sender \<times> tcp_world \<Rightarrow> tcp_sender \<times> tcp_world" where
  "close_sender = (\<lambda>(s, w).
     if ts_socket s \<noteq> kInvalidSocket
     then (s\<lparr>ts_socket := kInvalidSocket\<rparr>, close_handle (ts_socket s) w)
     else (s, w))"

text \<open>The loop over the addresses of the host; \<open>binding\<close> says that a local address was asked for.\<close>

fun connect_loop :: "bool \<Rightarrow> attempt list \<Rightarrow> tcp_sender \<times> tcp_world \<Rightarrow> bool \<times> tcp_sender \<times> tcp_world" where
  "connect_loop binding [] st = (False, st)"
| "connect_loop binding (a # rest) (s, w) =
     (let s1 = s\<lparr>ts_socket := at_socket a\<rparr>
      in if ts_socket s1 = kInvalidSocket then connect_loop binding rest (s1, w)
         else
           let w1 = open_handle (at_socket a) w;
               bound = (\<not> binding \<or> True \<in> set (at_binds a))
           in if \<not> bound then connect_loop binding rest (close_sender (s1, w1))
              else if at_connects a then (True, s1, w1)
              else connect_loop binding rest (close_sender (s1, w1)))"

text \<open>
  \<open>TcpSender::connect_to\<close>; the arguments are the answers of \<open>getaddrinfo\<close> for the host and, if
  \<open>bind_host\<close> is not empty, for the local address.
\<close>

definition connect_to ::
  "attempt list option \<Rightarrow> string \<Rightarrow> bool \<Rightarrow> tcp_sender \<times> tcp_world \<Rightarrow> bool \<times> tcp_sender \<times> tcp_world" where
  "connect_to host_answer bind_host bind_resolves st =
     (let (s, w) = close_sender st
      in case host_answer of
           None \<Rightarrow> (False, s, w)
         | Some attempts \<Rightarrow>
             let w1 = new_address_list w
             in if bind_host \<noteq> [] \<and> \<not> bind_resolves then (False, s, free_address_list w1)
                else
                  let w2 = (if bind_host \<noteq> [] then new_address_list w1 else w1);
                      (connected, s3, w3) = connect_loop (bind_host \<noteq> []) attempts (s, w2);
                      w4 = (if bind_host \<noteq> [] then free_address_list w3 else w3)
                  in (connected, s3, free_address_list w4))"

text \<open>
  The loop of \<open>TcpSender::send\<close>.  \<open>rcs\<close> are the answers of \<open>::send\<close>, in order (none left: the
  connection is gone); \<open>passed\<close> are the bytes that the connection has taken.
\<close>

fun send_loop :: "bytes \<Rightarrow> nat \<Rightarrow> int list \<Rightarrow> bytes \<Rightarrow> bool \<times> bytes \<times> int list" where
  "send_loop bytes sent [] passed = (length bytes \<le> sent, passed, [])"
| "send_loop bytes sent (rc # rcs) passed =
     (if sent < length bytes
      then
        let remaining = length bytes - sent;
            chunk = min remaining (64 * 1024)
        in if rc \<le> 0 then (False, passed, rcs)
           else send_loop bytes (sent + nat rc) rcs (passed @ take (nat rc) (slice sent chunk bytes))
      else (True, passed, rc # rcs))"

definition send_bytes :: "bytes \<Rightarrow> int list \<Rightarrow> tcp_sender \<Rightarrow> bool \<times> bytes \<times> int list \<times> tcp_sender" where
  "send_bytes bytes rcs s =
     (if ts_socket s = kInvalidSocket then (False, [], rcs, s)
      else
        case send_loop bytes 0 rcs [] of
          (False, passed, rcs') \<Rightarrow> (False, passed, rcs', s)
        | (True, passed, rcs') \<Rightarrow> (True, passed, rcs', s\<lparr>ts_sent_frames := ts_sent_frames s + 1\<rparr>))"

section \<open>Sending\<close>

text \<open>
  What \<open>::send\<close> documents of its answers: never more bytes than it was offered.  The offers depend
  on the answers before, so this is a predicate along the loop.
\<close>

fun honest_answers :: "nat \<Rightarrow> int list \<Rightarrow> bool" where
  "honest_answers remaining [] \<longleftrightarrow> True"
| "honest_answers remaining (rc # rcs) \<longleftrightarrow>
     remaining = 0 \<or> rc \<le> 0 \<or> (rc \<le> int (min remaining (64 * 1024)) \<and> honest_answers (remaining - nat rc) rcs)"

lemma send_loop_spec:
  assumes "honest_answers (length bytes - sent) rcs" "sent \<le> length bytes" "passed = take sent bytes"
    and "send_loop bytes sent rcs passed = (ok, passed', rcs')"
  shows "prefix passed' bytes \<and> (ok \<longleftrightarrow> passed' = bytes)"
  using assms
proof (induction bytes sent rcs passed rule: send_loop.induct)
  case (1 bytes sent passed)
  then show ?case by (auto simp: take_is_prefix)
next
  case (2 bytes sent rc rcs passed)
  show ?case
  proof (cases "sent < length bytes \<and> 0 < rc")
    case True
    then have rc: "nat rc \<le> min (length bytes - sent) (64 * 1024)" "honest_answers (length bytes - (sent + nat rc)) rcs"
      using "2.prems"(1) by auto
    then have "passed @ take (nat rc) (slice sent (min (length bytes - sent) (64 * 1024)) bytes) = take (sent + nat rc) bytes"
      using "2.prems"(3) by (simp add: slice_def take_add min.absorb1)
    moreover have "sent + nat rc \<le> length bytes" using True rc(1) by linarith
    ultimately show ?thesis
      using "2.IH" [OF _ refl refl] True rc "2.prems" by (simp add: Let_def)
  next
    case False
    then show ?thesis using "2.prems" by (auto simp: take_is_prefix Let_def split: if_splits)
  qed
qed

section \<open>Resources\<close>

text \<open>
  \<open>::socket\<close> documents that it returns the lowest descriptor that is not open at the time of the
  call.  The descriptors that are open when the loop over the addresses starts stay open throughout it,
  so none of its attempts gets one of them; a descriptor that has been closed, the one of a connection
  from before or of an attempt that failed, may be returned again.
\<close>

definition fresh_attempts :: "attempt list \<Rightarrow> tcp_world \<Rightarrow> bool" where
  "fresh_attempts attempts w \<longleftrightarrow> (\<forall>a \<in> set attempts. at_socket a \<notin> set (tw_open w))"

lemma connect_loop_resources:
  assumes "connect_loop binding attempts (s, w) = (ok, s', w')" "fresh_attempts attempts w"
    and "attempts = [] \<longrightarrow> ts_socket s = kInvalidSocket"
  shows "tw_address_lists w' = tw_address_lists w \<and> ts_sent_frames s' = ts_sent_frames s \<and>
    (if ok then ts_socket s' \<noteq> kInvalidSocket \<and> tw_open w' = ts_socket s' # tw_open w
     else ts_socket s' = kInvalidSocket \<and> tw_open w' = tw_open w)"
  using assms
proof (induction attempts arbitrary: s w)
  case (Cons a rest)
  let ?s = "s\<lparr>ts_socket := at_socket a\<rparr>"
  have fresh: "fresh_attempts rest w" using Cons.prems(2) by (simp add: fresh_attempts_def)
  consider (invalid) "at_socket a = kInvalidSocket"
    | (closed) "at_socket a \<noteq> kInvalidSocket" "\<not> ((\<not> binding \<or> True \<in> set (at_binds a)) \<and> at_connects a)"
    | (up) "at_socket a \<noteq> kInvalidSocket" "\<not> binding \<or> True \<in> set (at_binds a)" "at_connects a"
    by blast
  then show ?case
  proof cases
    case invalid
    then show ?thesis using Cons.IH [of ?s w] Cons.prems(1) fresh by simp
  next
    case closed
    have undone: "close_sender (?s, open_handle (at_socket a) w) = (s\<lparr>ts_socket := kInvalidSocket\<rparr>, w)"
      using closed(1) by (simp add: close_sender_def open_handle_def close_handle_def)
    have "connect_loop binding rest (s\<lparr>ts_socket := kInvalidSocket\<rparr>, w) = (ok, s', w')"
      using Cons.prems(1) closed by (auto simp: undone Let_def split: if_splits)
    from Cons.IH [OF this fresh] show ?thesis by simp
  next
    case up
    then have "ok" "s' = ?s" "w' = open_handle (at_socket a) w" using Cons.prems(1) by (auto simp: Let_def)
    then show ?thesis using up(1) by (simp add: open_handle_def)
  qed
qed auto

text \<open>
  C35: \<open>connect_to\<close> leaks nothing.  Whatever the operating system answers, both address lists are
  freed, a failed call leaves the sender without a socket and closes every descriptor it opened, and
  a successful one holds exactly one new descriptor, its own; a connection from before is closed
  first, and its descriptor may be the one that the new connection gets.
\<close>

theorem connect_to_no_leak:
  assumes "connect_to host_answer bind_host bind_resolves (s, w) = (ok, s', w')"
    and "\<forall>attempts. host_answer = Some attempts \<longrightarrow> fresh_attempts attempts (snd (close_sender (s, w)))"
  shows "tw_address_lists w' = tw_address_lists w \<and>
    (let others = remove1 (ts_socket s) (tw_open w)
     in (ok \<longrightarrow> ts_socket s' \<noteq> kInvalidSocket \<and> tw_open w' = ts_socket s' # (if sender_connected s then others else tw_open w)) \<and>
        (\<not> ok \<longrightarrow> ts_socket s' = kInvalidSocket \<and> tw_open w' = (if sender_connected s then others else tw_open w)))"
proof -
  obtain s0 w0 where closed: "close_sender (s, w) = (s0, w0)" by (metis surj_pair)
  have w0: "ts_socket s0 = kInvalidSocket" "tw_address_lists w0 = tw_address_lists w"
      "tw_open w0 = (if sender_connected s then remove1 (ts_socket s) (tw_open w) else tw_open w)"
    using closed by (auto simp: close_sender_def close_handle_def sender_connected_def split: if_splits)
  show ?thesis
  proof (cases host_answer)
    case None
    then show ?thesis using assms(1) closed w0 by (auto simp: connect_to_def Let_def)
  next
    case (Some attempts)
    then have fresh: "fresh_attempts attempts (w0\<lparr>tw_address_lists := n\<rparr>)" for n
      using assms(2) closed by (simp add: fresh_attempts_def)
    show ?thesis
    proof (cases "bind_host \<noteq> [] \<and> \<not> bind_resolves")
      case True
      then show ?thesis
        using assms(1) closed w0 Some
        by (auto simp: connect_to_def new_address_list_def free_address_list_def)
    next
      case False
      define w2 where "w2 = (if bind_host \<noteq> [] then new_address_list (new_address_list w0) else new_address_list w0)"
      obtain ok3 s3 w3 where loop: "connect_loop (bind_host \<noteq> []) attempts (s0, w2) = (ok3, s3, w3)"
        by (metis prod_cases3)
      have "fresh_attempts attempts w2" using fresh by (auto simp: w2_def new_address_list_def)
      note res = connect_loop_resources [OF loop this impI, OF w0(1)]
      have "ok = ok3" "s' = s3"
          "w' = free_address_list (if bind_host \<noteq> [] then free_address_list w3 else w3)"
        using assms(1) closed Some False loop by (auto simp: connect_to_def Let_def w2_def split: if_splits)
      then show ?thesis
        using res w0 by (cases ok) (auto simp: w2_def new_address_list_def free_address_list_def Let_def)
    qed
  qed
qed

text \<open>
  C34: \<open>send\<close> passes the bytes of a frame in order and complete, or reports a failure.  However the
  connection splits the transfer, what it has taken is a prefix of the frame, \<open>send\<close> returns true
  exactly if that is the whole frame, and only then is the frame counted.
\<close>

theorem send_is_all_or_reported:
  assumes "send_bytes bytes rcs s = (ok, passed, rcs', s')" and "sender_connected s"
    and "honest_answers (length bytes) rcs"
  shows "prefix passed bytes \<and> (ok \<longleftrightarrow> passed = bytes) \<and> ts_socket s' = ts_socket s \<and>
    ts_sent_frames s' = ts_sent_frames s + (if ok then 1 else 0)"
proof -
  obtain ok1 passed1 rcs1 where loop: "send_loop bytes 0 rcs [] = (ok1, passed1, rcs1)" by (metis prod_cases3)
  have "prefix passed1 bytes \<and> (ok1 \<longleftrightarrow> passed1 = bytes)"
    by (rule send_loop_spec [OF _ _ _ loop]) (use assms(3) in simp_all)
  then show ?thesis
    using assms(1,2) loop by (cases ok1) (auto simp: send_bytes_def sender_connected_def)
qed

theorem send_is_all_or_reported_witness:
  "send_bytes [1, 2, 3, 4, 5] [2, 1, 2] (new_tcp_sender\<lparr>ts_socket := 3\<rparr>)
   = (True, [1, 2, 3, 4, 5], [], \<lparr>ts_socket = 3, ts_sent_frames = 1\<rparr>)"
proof -
  obtain ok passed rcs' s' where
    run: "send_bytes [1, 2, 3, 4, 5] [2, 1, 2] (new_tcp_sender\<lparr>ts_socket := 3\<rparr>) = (ok, passed, rcs', s')"
    by (metis prod_cases4)
  have "ok" "rcs' = []"
    using run by (auto simp: send_bytes_def new_tcp_sender_def kInvalidSocket_def Let_def)
  with send_is_all_or_reported [OF run] show ?thesis
    unfolding run by (cases s') (simp add: sender_connected_def new_tcp_sender_def kInvalidSocket_def)
qed

text \<open>
  A sender that is connected on descriptor 5 connects again: \<open>socket\<close> returns the 5 just closed, the
  local address cannot be bound, and the second address gets the 5 once more.
\<close>

theorem connect_to_no_leak_witness:
  "tw_open (snd (snd (connect_to (Some [\<lparr>at_socket = 5, at_binds = [False], at_connects = True\<rparr>,
       \<lparr>at_socket = 5, at_binds = [False, True], at_connects = True\<rparr>]) ''10.0.0.1'' True
     (new_tcp_sender\<lparr>ts_socket := 5\<rparr>, \<lparr>tw_open = [5, 0, 1, 2], tw_address_lists = 0\<rparr>)))) = [5, 0, 1, 2]"
proof -
  let ?as = "[\<lparr>at_socket = 5, at_binds = [False], at_connects = True\<rparr>,
       \<lparr>at_socket = 5, at_binds = [False, True], at_connects = True\<rparr>]"
  obtain ok s' w' where run: "connect_to (Some ?as) ''10.0.0.1'' True
      (new_tcp_sender\<lparr>ts_socket := 5\<rparr>, \<lparr>tw_open = [5, 0, 1, 2], tw_address_lists = 0\<rparr>) = (ok, s', w')"
    by (metis prod_cases3)
  have "ok" "ts_socket s' = 5"
    using run by (auto simp: connect_to_def close_sender_def close_handle_def open_handle_def
        new_tcp_sender_def Let_def kInvalidSocket_def split: prod.splits)
  with connect_to_no_leak [OF run] show ?thesis
    unfolding run
    by (simp add: fresh_attempts_def sender_connected_def new_tcp_sender_def close_sender_def close_handle_def
        kInvalidSocket_def)
qed

end
