(* ===== verification/Metrics.thy ===== *)
theory Metrics
  imports Complex_Main Decimal
begin

text \<open>
  \<open>common/metrics.{h,cpp}\<close> and \<open>common/logger.{h,cpp}\<close>: the snapshot of a run, its line in the CSV
  file, and the lines of the log.  A stream is the list of the lines written to it.  The text of a
  double is an argument (the only double, \<open>cpu_percent\<close>, is never set by the program), and so is the
  time stamp that the clock gives (\<open>Time_Stamp\<close>).
\<close>

section \<open>Metrics\<close>

record metrics_snapshot =
  mt_frame_id_begin :: u64
  mt_frame_id_end :: u64
  mt_frame_count :: u64
  mt_parse_fail_count :: u64
  mt_crc_error_count :: u64
  mt_tcp_disconnect_count :: u64
  mt_reconnect_ms :: u64
  mt_send_period_avg_us :: u64
  mt_send_period_max_us :: u64
  mt_send_period_p999_us :: u64
  mt_send_deadline_us :: u64
  mt_send_deadline_miss_count :: u64
  mt_send_max_late_us :: u64
  mt_send_schedule_late_avg_us :: u64
  mt_send_schedule_late_max_us :: u64
  mt_send_work_avg_us :: u64
  mt_send_work_max_us :: u64
  mt_send_encode_avg_us :: u64
  mt_send_encode_max_us :: u64
  mt_send_socket_avg_us :: u64
  mt_send_socket_max_us :: u64
  mt_recv_gap_avg_us :: u64
  mt_recv_gap_max_us :: u64
  mt_recv_gap_p999_us :: u64
  mt_recv_deadline_us :: u64
  mt_recv_deadline_miss_count :: u64
  mt_recv_max_late_us :: u64
  mt_recv_parse_avg_us :: u64
  mt_recv_parse_max_us :: u64
  mt_capture_queue_capacity :: u64
  mt_capture_queue_high_water :: u64
  mt_capture_queue_overrun_count :: u64
  mt_storage_write_avg_us :: u64
  mt_storage_write_max_us :: u64
  mt_cpu_percent :: rat
  mt_rss_mb :: u64
  mt_recv_span_us :: u64

definition empty_snapshot :: metrics_snapshot where
  "empty_snapshot =
     \<lparr>mt_frame_id_begin = 0, mt_frame_id_end = 0, mt_frame_count = 0, mt_parse_fail_count = 0,
      mt_crc_error_count = 0, mt_tcp_disconnect_count = 0, mt_reconnect_ms = 0, mt_send_period_avg_us = 0,
      mt_send_period_max_us = 0, mt_send_period_p999_us = 0, mt_send_deadline_us = 0, mt_send_deadline_miss_count = 0,
      mt_send_max_late_us = 0, mt_send_schedule_late_avg_us = 0, mt_send_schedule_late_max_us = 0, mt_send_work_avg_us = 0,
      mt_send_work_max_us = 0, mt_send_encode_avg_us = 0, mt_send_encode_max_us = 0, mt_send_socket_avg_us = 0,
      mt_send_socket_max_us = 0, mt_recv_gap_avg_us = 0, mt_recv_gap_max_us = 0, mt_recv_gap_p999_us = 0,
      mt_recv_deadline_us = 0, mt_recv_deadline_miss_count = 0, mt_recv_max_late_us = 0, mt_recv_parse_avg_us = 0,
      mt_recv_parse_max_us = 0, mt_capture_queue_capacity = 0, mt_capture_queue_high_water = 0, mt_capture_queue_overrun_count = 0,
      mt_storage_write_avg_us = 0, mt_storage_write_max_us = 0, mt_cpu_percent = 0, mt_rss_mb = 0,
      mt_recv_span_us = 0\<rparr>"

definition u64_text :: "u64 \<Rightarrow> string" where
  "u64_text v = to_string (unat v)"

text \<open>\<open>a << ',' << b << ',' << c\<close>\<close>

fun comma_separated :: "string list \<Rightarrow> string" where
  "comma_separated [] = []"
| "comma_separated [c] = c"
| "comma_separated (c # cs) = c @ '','' @ comma_separated cs"

definition metrics_header :: string where
  "metrics_header =
     ''timestamp,frame_id_begin,frame_id_end,frame_count,parse_fail_count,crc_error_count,'' @
     ''tcp_disconnect_count,reconnect_ms,send_period_avg_us,send_period_max_us,send_period_p999_us,'' @
     ''send_deadline_us,send_deadline_miss_count,send_max_late_us,send_schedule_late_avg_us,'' @
     ''send_schedule_late_max_us,send_work_avg_us,send_work_max_us,send_encode_avg_us,'' @
     ''send_encode_max_us,send_socket_avg_us,send_socket_max_us,'' @
     ''recv_gap_avg_us,recv_gap_max_us,recv_gap_p999_us,recv_deadline_us,recv_deadline_miss_count,'' @
     ''recv_max_late_us,recv_parse_avg_us,recv_parse_max_us,capture_queue_capacity,'' @
     ''capture_queue_high_water,capture_queue_overrun_count,storage_write_avg_us,storage_write_max_us,'' @
     ''cpu_percent,rss_mb,recv_span_us''"

definition metrics_line :: "(rat \<Rightarrow> string) \<Rightarrow> string \<Rightarrow> metrics_snapshot \<Rightarrow> string" where
  "metrics_line show_double timestamp s = comma_separated
     [timestamp,
      u64_text (mt_frame_id_begin s),
      u64_text (mt_frame_id_end s),
      u64_text (mt_frame_count s),
      u64_text (mt_parse_fail_count s),
      u64_text (mt_crc_error_count s),
      u64_text (mt_tcp_disconnect_count s),
      u64_text (mt_reconnect_ms s),
      u64_text (mt_send_period_avg_us s),
      u64_text (mt_send_period_max_us s),
      u64_text (mt_send_period_p999_us s),
      u64_text (mt_send_deadline_us s),
      u64_text (mt_send_deadline_miss_count s),
      u64_text (mt_send_max_late_us s),
      u64_text (mt_send_schedule_late_avg_us s),
      u64_text (mt_send_schedule_late_max_us s),
      u64_text (mt_send_work_avg_us s),
      u64_text (mt_send_work_max_us s),
      u64_text (mt_send_encode_avg_us s),
      u64_text (mt_send_encode_max_us s),
      u64_text (mt_send_socket_avg_us s),
      u64_text (mt_send_socket_max_us s),
      u64_text (mt_recv_gap_avg_us s),
      u64_text (mt_recv_gap_max_us s),
      u64_text (mt_recv_gap_p999_us s),
      u64_text (mt_recv_deadline_us s),
      u64_text (mt_recv_deadline_miss_count s),
      u64_text (mt_recv_max_late_us s),
      u64_text (mt_recv_parse_avg_us s),
      u64_text (mt_recv_parse_max_us s),
      u64_text (mt_capture_queue_capacity s),
      u64_text (mt_capture_queue_high_water s),
      u64_text (mt_capture_queue_overrun_count s),
      u64_text (mt_storage_write_avg_us s),
      u64_text (mt_storage_write_max_us s),
      show_double (mt_cpu_percent s),
      u64_text (mt_rss_mb s),
      u64_text (mt_recv_span_us s)]"

definition write_metrics_header :: "string list \<Rightarrow> string list" where
  "write_metrics_header stream = stream @ [metrics_header]"

definition append_metrics :: "(rat \<Rightarrow> string) \<Rightarrow> string \<Rightarrow> metrics_snapshot \<Rightarrow> string list \<Rightarrow> string list" where
  "append_metrics show_double timestamp s stream = stream @ [metrics_line show_double timestamp s]"

section \<open>The log\<close>

datatype log_level = kInfo | kWarn | kError

fun log_level_string :: "log_level \<Rightarrow> string" where
  "log_level_string kInfo = ''INFO''"
| "log_level_string kWarn = ''WARN''"
| "log_level_string kError = ''ERROR''"

text \<open>\<open>Logger::log\<close>\<close>

definition log_line :: "string \<Rightarrow> log_level \<Rightarrow> string \<Rightarrow> string list \<Rightarrow> string list" where
  "log_line now level message stream = stream @ [now @ '' ['' @ log_level_string level @ ''] '' @ message]"

section \<open>Reading a line back\<close>

fun split_commas :: "string \<Rightarrow> string list" where
  "split_commas [] = [[]]"
| "split_commas (c # cs) =
     (if c = CHR '','' then [] # split_commas cs
      else (c # hd (split_commas cs)) # tl (split_commas cs))"

lemma split_commas_nonempty [simp]: "split_commas cs \<noteq> []"
  by (cases cs) auto

lemma split_commas_cell: "CHR '','' \<notin> set c \<Longrightarrow> split_commas c = [c]"
  by (induction c) auto

lemma split_commas_append: "CHR '','' \<notin> set c \<Longrightarrow> split_commas (c @ CHR '','' # cs) = c # split_commas cs"
  by (induction c) auto

lemma split_comma_separated:
  "cs \<noteq> [] \<Longrightarrow> list_all (\<lambda>c. CHR '','' \<notin> set c) cs \<Longrightarrow> split_commas (comma_separated cs) = cs"
  by (induction cs rule: comma_separated.induct) (simp_all add: split_commas_cell split_commas_append)

lemma digit_not_comma: "is_digit c \<Longrightarrow> c \<noteq> CHR '',''"
  by (auto simp: is_digit_def)

lemma no_comma_in_number [simp]: "CHR '','' \<notin> set (u64_text v)"
  using to_string_digits [of "unat v"] digit_not_comma by (auto simp: u64_text_def list_all_iff)

text \<open>What each column is documented to hold.\<close>

definition metrics_columns :: "(rat \<Rightarrow> string) \<Rightarrow> (string \<times> (metrics_snapshot \<Rightarrow> string)) list" where
  "metrics_columns show_double =
     [(''frame_id_begin'', \<lambda>s. u64_text (mt_frame_id_begin s)),
      (''frame_id_end'', \<lambda>s. u64_text (mt_frame_id_end s)),
      (''frame_count'', \<lambda>s. u64_text (mt_frame_count s)),
      (''parse_fail_count'', \<lambda>s. u64_text (mt_parse_fail_count s)),
      (''crc_error_count'', \<lambda>s. u64_text (mt_crc_error_count s)),
      (''tcp_disconnect_count'', \<lambda>s. u64_text (mt_tcp_disconnect_count s)),
      (''reconnect_ms'', \<lambda>s. u64_text (mt_reconnect_ms s)),
      (''send_period_avg_us'', \<lambda>s. u64_text (mt_send_period_avg_us s)),
      (''send_period_max_us'', \<lambda>s. u64_text (mt_send_period_max_us s)),
      (''send_period_p999_us'', \<lambda>s. u64_text (mt_send_period_p999_us s)),
      (''send_deadline_us'', \<lambda>s. u64_text (mt_send_deadline_us s)),
      (''send_deadline_miss_count'', \<lambda>s. u64_text (mt_send_deadline_miss_count s)),
      (''send_max_late_us'', \<lambda>s. u64_text (mt_send_max_late_us s)),
      (''send_schedule_late_avg_us'', \<lambda>s. u64_text (mt_send_schedule_late_avg_us s)),
      (''send_schedule_late_max_us'', \<lambda>s. u64_text (mt_send_schedule_late_max_us s)),
      (''send_work_avg_us'', \<lambda>s. u64_text (mt_send_work_avg_us s)),
      (''send_work_max_us'', \<lambda>s. u64_text (mt_send_work_max_us s)),
      (''send_encode_avg_us'', \<lambda>s. u64_text (mt_send_encode_avg_us s)),
      (''send_encode_max_us'', \<lambda>s. u64_text (mt_send_encode_max_us s)),
      (''send_socket_avg_us'', \<lambda>s. u64_text (mt_send_socket_avg_us s)),
      (''send_socket_max_us'', \<lambda>s. u64_text (mt_send_socket_max_us s)),
      (''recv_gap_avg_us'', \<lambda>s. u64_text (mt_recv_gap_avg_us s)),
      (''recv_gap_max_us'', \<lambda>s. u64_text (mt_recv_gap_max_us s)),
      (''recv_gap_p999_us'', \<lambda>s. u64_text (mt_recv_gap_p999_us s)),
      (''recv_deadline_us'', \<lambda>s. u64_text (mt_recv_deadline_us s)),
      (''recv_deadline_miss_count'', \<lambda>s. u64_text (mt_recv_deadline_miss_count s)),
      (''recv_max_late_us'', \<lambda>s. u64_text (mt_recv_max_late_us s)),
      (''recv_parse_avg_us'', \<lambda>s. u64_text (mt_recv_parse_avg_us s)),
      (''recv_parse_max_us'', \<lambda>s. u64_text (mt_recv_parse_max_us s)),
      (''capture_queue_capacity'', \<lambda>s. u64_text (mt_capture_queue_capacity s)),
      (''capture_queue_high_water'', \<lambda>s. u64_text (mt_capture_queue_high_water s)),
      (''capture_queue_overrun_count'', \<lambda>s. u64_text (mt_capture_queue_overrun_count s)),
      (''storage_write_avg_us'', \<lambda>s. u64_text (mt_storage_write_avg_us s)),
      (''storage_write_max_us'', \<lambda>s. u64_text (mt_storage_write_max_us s)),
      (''cpu_percent'', \<lambda>s. show_double (mt_cpu_percent s)),
      (''rss_mb'', \<lambda>s. u64_text (mt_rss_mb s)),
      (''recv_span_us'', \<lambda>s. u64_text (mt_recv_span_us s))]"

lemma metrics_header_names:
  "metrics_header = comma_separated (''timestamp'' # map fst (metrics_columns show_double))"
  by (simp add: metrics_header_def metrics_columns_def)

lemma split_metrics_header:
  "split_commas metrics_header = ''timestamp'' # map fst (metrics_columns show_double)"
  unfolding metrics_header_names [of show_double]
  by (rule split_comma_separated) (simp_all add: metrics_columns_def)

lemma split_metrics_line:
  assumes "CHR '','' \<notin> set timestamp" and "\<forall>x. CHR '','' \<notin> set (show_double x)"
  shows "split_commas (metrics_line show_double timestamp s)
      = timestamp # map (\<lambda>(name, cell). cell s) (metrics_columns show_double)"
  unfolding metrics_line_def metrics_columns_def list.map prod.case
  by (rule split_comma_separated)
    (simp_all only: list.pred_inject assms(1) assms(2) [THEN spec] no_comma_in_number not_False_eq_True simp_thms list.distinct)

text \<open>
  Header and lines of the metrics file agree.  Splitting a line at its commas and labelling the
  cells with the names in the header gives the time stamp and then, under the name of every member
  of the snapshot, the value of that member.
\<close>

theorem metrics_line_matches_header:
  assumes "CHR '','' \<notin> set timestamp" and "\<forall>x. CHR '','' \<notin> set (show_double x)"
  shows "zip (split_commas metrics_header) (split_commas (metrics_line show_double timestamp s))
       = (''timestamp'', timestamp) # map (\<lambda>(name, cell). (name, cell s)) (metrics_columns show_double)
    \<and> length (split_commas metrics_header) = length (split_commas (metrics_line show_double timestamp s))"
proof -
  have "zip (map fst cols) (map (\<lambda>(name, cell). cell s) cols) = map (\<lambda>(name, cell). (name, cell s)) cols"
    for cols :: "(string \<times> (metrics_snapshot \<Rightarrow> string)) list"
    by (induction cols) auto
  then show ?thesis
    by (simp only: split_metrics_header [of show_double] split_metrics_line [OF assms] zip_Cons_Cons list.size length_map)
qed

theorem metrics_line_matches_header_witness:
  "map_of (zip (split_commas metrics_header)
       (split_commas (metrics_line (\<lambda>_. ''0'') ''2024-01-01T00:00:00Z'' (empty_snapshot\<lparr>mt_recv_gap_max_us := 5000\<rparr>))))
     ''recv_gap_max_us'' = Some (u64_text 5000)"
proof -
  have "CHR '','' \<notin> set ''2024-01-01T00:00:00Z''" "\<forall>x :: rat. CHR '','' \<notin> set ''0''" by simp_all
  from metrics_line_matches_header [OF this] show ?thesis by (simp add: metrics_columns_def)
qed

end
