(* ===== verification/Text_Stream.thy ===== *)
theory Text_Stream
  imports Metrics "HOL-Library.Sublist"
begin

text \<open>
  An output text stream (\<open>std::ofstream\<close>) that may never have been opened.  It starts good; writing
  to a stream that is not open makes it bad for ever.

  What is written to an open stream goes to its buffer first.  The stream passes the beginning of the
  buffer on to the device when it likes to: how many characters each write passes on is an answer of
  the environment (\<open>dv_spills\<close>; when the list is at its end the stream only collects), and a flush
  passes on everything.  The device takes \<open>dv_room\<close> characters and then refuses; the write or the flush
  that finds out makes the stream bad.  The buffer of a stream that is bad is not looked at again (what
  its destructor tries to do with it happens after the program has decided how it ends).
\<close>

record device =
  dv_room :: nat
  dv_spills :: "nat list"

record text_stream =
  st_is_open :: bool
  st_good :: bool
  st_device :: string
  st_room :: nat
  st_buffer :: string
  st_spills :: "nat list"

definition unopened_stream :: text_stream where
  "unopened_stream = \<lparr>st_is_open = False, st_good = True, st_device = [], st_room = 0, st_buffer = [], st_spills = []\<rparr>"

definition open_stream :: "bool \<Rightarrow> device \<Rightarrow> text_stream \<Rightarrow> text_stream" where
  "open_stream opens dev s =
     (if opens then s\<lparr>st_is_open := True, st_room := dv_room dev, st_spills := dv_spills dev\<rparr>
      else s\<lparr>st_good := False\<rparr>)"

text \<open>The first \<open>n\<close> characters of the buffer go to the device.\<close>

definition push_out :: "nat \<Rightarrow> text_stream \<Rightarrow> text_stream" where
  "push_out n s =
     (let out = take n (st_buffer s)
      in if length out \<le> st_room s
         then s\<lparr>st_device := st_device s @ out, st_room := st_room s - length out, st_buffer := drop n (st_buffer s)\<rparr>
         else s\<lparr>st_device := st_device s @ take (st_room s) out, st_room := 0,
                st_buffer := drop (st_room s) (st_buffer s), st_good := False\<rparr>)"

definition text_line :: "string \<Rightarrow> string" where
  "text_line line = line @ [CHR 0x0A]"

definition write_line :: "string \<Rightarrow> text_stream \<Rightarrow> text_stream" where
  "write_line line s =
     (if \<not> st_good s then s
      else if \<not> st_is_open s then s\<lparr>st_good := False\<rparr>
      else
        let s1 = s\<lparr>st_buffer := st_buffer s @ text_line line\<rparr>
        in case st_spills s of
             [] \<Rightarrow> s1
           | n # rest \<Rightarrow> push_out n (s1\<lparr>st_spills := rest\<rparr>))"

text \<open>\<open>flush\<close>; it does nothing to a stream that is not open, and fails when the device reports an error.\<close>

definition flush_stream :: "bool \<Rightarrow> text_stream \<Rightarrow> text_stream" where
  "flush_stream ok s =
     (if st_good s \<and> st_is_open s
      then let s1 = push_out (length (st_buffer s)) s in s1\<lparr>st_good := st_good s1 \<and> ok\<rparr>
      else s)"

lemma write_line_bad: "\<not> st_good s \<Longrightarrow> write_line line s = s"
  by (simp add: write_line_def)

lemma write_line_unopened: "\<not> st_is_open s \<Longrightarrow> \<not> st_good (write_line line s) \<and> \<not> st_is_open (write_line line s)"
  by (simp add: write_line_def)

section \<open>What has reached the device\<close>

text \<open>
  A stream to which \<open>text\<close> was written over a device with \<open>room\<close> for so many characters: while it is
  good, the device and the buffer together hold the text; once it is bad, the text was too long and the
  device holds all it could take of it.
\<close>

definition holds_text :: "nat \<Rightarrow> string \<Rightarrow> text_stream \<Rightarrow> bool" where
  "holds_text room written s \<longleftrightarrow> st_is_open s
     \<and> (if st_good s then st_device s @ st_buffer s = written \<and> length (st_device s) + st_room s = room
        else room < length written \<and> st_device s = take room written)"

lemma holds_text_opened: "holds_text (dv_room dev) [] (open_stream True dev unopened_stream)"
  by (simp add: holds_text_def open_stream_def unopened_stream_def)

lemma holds_text_push_out:
  assumes "holds_text room written s" "st_good s"
  shows "holds_text room written (push_out n s)"
  using assms by (auto simp: holds_text_def push_out_def Let_def min_def split: if_splits)

lemma holds_text_write:
  assumes "holds_text room written s"
  shows "holds_text room (written @ text_line line) (write_line line s)"
proof (cases "st_good s")
  case True
  have collected: "holds_text room (written @ text_line line) (s\<lparr>st_buffer := st_buffer s @ text_line line, st_spills := ns\<rparr>)" for ns
    using assms True by (simp add: holds_text_def)
  have opened: "st_is_open s" using assms by (simp add: holds_text_def)
  show ?thesis
  proof (cases "st_spills s")
    case Nil
    then show ?thesis using True opened collected [of "[]"] by (simp add: write_line_def holds_text_def)
  next
    case (Cons n rest)
    then show ?thesis using True opened holds_text_push_out [OF collected] by (simp add: write_line_def)
  qed
next
  case False
  then show ?thesis using assms by (simp add: write_line_bad holds_text_def)
qed

lemma holds_text_writes:
  "holds_text room written s \<Longrightarrow> holds_text room (written @ concat (map text_line ls)) (fold write_line ls s)"
proof (induction ls arbitrary: s written)
  case (Cons l ls)
  from Cons.IH [OF holds_text_write [OF Cons.prems]] show ?case by simp
qed simp

lemma holds_text_prefix: "holds_text room written s \<Longrightarrow> prefix (st_device s) written"
  by (metis holds_text_def prefixI take_is_prefix)

text \<open>A flush succeeds exactly if the device has room for all of the text and reports no error.\<close>

lemma flush_stream_good:
  assumes "holds_text room written s" "st_good s"
  shows "st_good (flush_stream ok s) \<longleftrightarrow> ok \<and> length written \<le> room"
    and "st_good (flush_stream ok s) \<Longrightarrow> st_device (flush_stream ok s) = written"
  using assms by (auto simp: holds_text_def flush_stream_def push_out_def Let_def)

end
