(* ===== verification/Process_Io.thy ===== *)
theory Process_Io
  imports Text_Stream
begin

text \<open>
  What a run of \<open>receiver\<close> or \<open>sender\<close> leaves behind besides frames: the lines of its log, of its
  metrics file and of its two console streams, and how such a process ends.  The time stamps that
  \<open>Logger::log\<close> puts in front of a line are left out.
\<close>

record process_io =
  pi_log :: "string list"
  pi_metrics :: "string list"
  pi_stdout :: "string list"
  pi_stderr :: "string list"

text \<open>The metrics file is opened for appending; the log starts with what the file holds already.\<close>

definition new_process_io :: "string list \<Rightarrow> string list \<Rightarrow> process_io" where
  "new_process_io log_file metrics_file =
     \<lparr>pi_log = log_file, pi_metrics = metrics_file, pi_stdout = [], pi_stderr = []\<rparr>"

definition log_entry :: "log_level \<Rightarrow> string \<Rightarrow> string" where
  "log_entry level message = ''['' @ log_level_string level @ ''] '' @ message"

definition log_error :: "string \<Rightarrow> process_io \<Rightarrow> process_io" where
  "log_error message pio = pio\<lparr>pi_log := pi_log pio @ [log_entry kError message]\<rparr>"

definition log_info :: "string \<Rightarrow> process_io \<Rightarrow> process_io" where
  "log_info message pio = pio\<lparr>pi_log := pi_log pio @ [log_entry kInfo message]\<rparr>"

definition to_stdout :: "string \<Rightarrow> process_io \<Rightarrow> process_io" where
  "to_stdout line pio = pio\<lparr>pi_stdout := pi_stdout pio @ [line]\<rparr>"

definition to_stderr :: "string \<Rightarrow> process_io \<Rightarrow> process_io" where
  "to_stderr line pio = pio\<lparr>pi_stderr := pi_stderr pio @ [line]\<rparr>"

text \<open>
  A process returns a code from \<open>main\<close>, or an exception that nothing catches (a directory, log file
  or metrics file that cannot be made; the constructor of the capture queue) terminates it.
\<close>

datatype ending = Returned (exit_status: u64) (left_by: process_io) | Terminated (left_by: process_io)

end
