(* ===== verification/Steady_Clock.thy ===== *)
theory Steady_Clock
  imports Latency_Stats
begin

text \<open>
  The helpers with which both programs read \<open>std::chrono::steady_clock\<close>.  A reading is a number of
  nanoseconds (an \<open>int\<close>: the 64-bit representation of the clock does not overflow); what the
  programs make of it is a 64-bit unsigned number.
\<close>

definition steady_ns :: "int \<Rightarrow> u64" where
  "steady_ns t = word_of_int t"

text \<open>\<open>duration_cast\<close> rounds towards zero.\<close>

definition micros_between :: "int \<Rightarrow> int \<Rightarrow> u64" where
  "micros_between a b = word_of_int (if a \<le> b then (b - a) div 1000 else - ((a - b) div 1000))"

text \<open>The double literal \<open>0.999\<close>, the percentile that both programs report.\<close>

definition p999 :: rat where "p999 = fl (999 / 1000)"

end
