(* ===== verification/Sender_Main.thy ===== *)
theory Sender_Main
  imports Sender_Options Data_Simulator Capture_Writer Capture_Reader Latency_Stats Tcp_Sender Process_Io Steady_Clock
begin

text \<open>
  \<open>sender/main.cpp\<close>: start-up, the paced loop that generates or replays frames, and the report.  The
  clock readings and the answers of the operating system are arguments.
\<close>

section \<open>Time\<close>

definition monotonic_ns :: "int \<Rightarrow> u64" where
  "monotonic_ns now = word_of_int now"

definition late_us :: "int \<Rightarrow> int \<Rightarrow> u64" where
  "late_us scheduled actual = (if actual \<le> scheduled then 0 else micros_between scheduled actual)"

text \<open>
  The time at which a frame is due.  The product is computed in 64 bits and wraps; the quotient becomes
  the signed count of a duration.
\<close>

definition scheduled_at :: "int \<Rightarrow> u16 \<Rightarrow> u64 \<Rightarrow> int" where
  "scheduled_at schedule_start rate_hz frame_id =
     schedule_start + sint (frame_id * 1000000000 div ucast rate_hz)"

section \<open>State\<close>

text \<open>The clock readings and the answer of the disk during one turn of the loop.\<close>

record sender_turn =
  te_send_start :: int
  te_monotonic :: int
  te_socket_start :: int
  te_send_end :: int
  te_write :: write_env

text \<open>
  The locals of \<open>main\<close>; \<open>sg_answers\<close> are the answers of \<open>::send\<close> still to come and \<open>sg_wire\<close> what the
  connection has taken so far.
\<close>

record sending =
  sg_sender :: tcp_sender
  sg_answers :: "int list"
  sg_wire :: bytes
  sg_capture :: "capture_writer option"
  sg_input :: "capture_reader option"
  sg_fs :: filesystem
  sg_frame :: frame
  sg_bytes :: bytes
  sg_first_frame_id :: u64
  sg_last_frame_id :: u64
  sg_previous_start :: int
  sg_deadline_miss_count :: u64
  sg_max_late_us :: u64
  sg_send_period :: latency_stats
  sg_schedule_late :: latency_stats
  sg_send_work :: latency_stats
  sg_encode :: latency_stats
  sg_socket_send :: latency_stats
  sg_timing :: text_stream
  sg_io :: process_io

definition log_failure :: "string \<Rightarrow> sending \<Rightarrow> sending" where
  "log_failure message st = st\<lparr>sg_io := log_error message (sg_io st)\<rparr>"

text \<open>The two messages of a bad input: one for the log, one for the console.\<close>

definition input_failure :: "string \<Rightarrow> string \<Rightarrow> sending \<Rightarrow> sending" where
  "input_failure logged shown st = st\<lparr>sg_io := to_stderr shown (log_error logged (sg_io st))\<rparr>"

section \<open>One turn of the loop\<close>

text \<open>The problem that keeps a replayed frame from being sent, empty if there is none.\<close>

definition input_problem :: "bytes \<Rightarrow> frame \<Rightarrow> string \<times> frame" where
  "input_problem wire frame =
     (case deserialize_frame_into wire frame of
        (Inl message, frame1) \<Rightarrow> (message, frame1)
      | (Inr _, frame1) \<Rightarrow> (validate_frame frame1, frame1))"

text \<open>The next frame of the input, checked; \<open>False\<close> ends the program with code 10.\<close>

definition replay_frame :: "sender_options \<Rightarrow> u64 \<Rightarrow> capture_reader \<Rightarrow> sending \<Rightarrow> bool \<times> sending" where
  "replay_frame opts frame_id reader st =
     (case reader_next (sg_fs st) (sg_bytes st) reader of
        (False, wire, reader1) \<Rightarrow>
          (False, input_failure (''input ended after '' @ u64_text frame_id @ '' frames'')
             (''sender input ended after '' @ u64_text frame_id @ '' frames'')
             (st\<lparr>sg_input := Some reader1, sg_bytes := wire\<rparr>))
      | (True, wire, reader1) \<Rightarrow>
          let (problem, frame) = input_problem wire (sg_frame st);
              st1 = st\<lparr>sg_input := Some reader1, sg_bytes := wire, sg_frame := frame\<rparr>;
              place = reader_location reader1;
              h = fr_header frame
          in if problem \<noteq> []
             then (False, input_failure (''invalid input frame at '' @ place @ '': '' @ problem)
                     (''sender invalid input frame at '' @ place @ '': '' @ problem) st1)
             else if hdr_sample_rate_hz h \<noteq> so_rate_hz opts
             then (False, input_failure (''input frame rate mismatch at '' @ place)
                     (''sender input frame sample_rate_hz '' @ to_string (unat (hdr_sample_rate_hz h))
                        @ '' != --rate-hz '' @ to_string (unat (so_rate_hz opts)) @ '' at '' @ place) st1)
             else if so_validate_input_module opts \<and> hdr_module_id h \<noteq> so_module_id opts
             then (False, input_failure (''input frame module_id mismatch at '' @ place)
                     (''sender input frame module_id '' @ to_string (unat (hdr_module_id h))
                        @ '' != --module-id '' @ to_string (unat (so_module_id opts)) @ '' at '' @ place) st1)
             else (True, st1))"

definition prepare_frame :: "sender_options \<Rightarrow> sender_turn \<Rightarrow> u64 \<Rightarrow> sending \<Rightarrow> bool \<times> sending" where
  "prepare_frame opts env frame_id st =
     (case sg_input st of
        Some reader \<Rightarrow> replay_frame opts frame_id reader st
      | None \<Rightarrow>
          let frame = fill_frame (sg_frame st) frame_id (monotonic_ns (te_monotonic env)) (so_module_id opts)
                        (so_rate_hz opts)
          in (True, st\<lparr>sg_frame := frame, sg_bytes := encode_frame_into frame (sg_bytes st)\<rparr>))"

definition note_frame_id :: "u64 \<Rightarrow> sending \<Rightarrow> sending" where
  "note_frame_id frame_id st =
     (let h = fr_header (sg_frame st);
          st1 = (if frame_id = 0 then st\<lparr>sg_first_frame_id := hdr_frame_id h\<rparr> else st)
      in st1\<lparr>sg_last_frame_id := hdr_frame_id h\<rparr>)"

definition pass_frame :: "sending \<Rightarrow> bool \<times> sending" where
  "pass_frame st =
     (let (sent, passed, answers, sender) = send_bytes (sg_bytes st) (sg_answers st) (sg_sender st)
      in (sent, st\<lparr>sg_sender := sender, sg_answers := answers, sg_wire := sg_wire st @ passed\<rparr>))"

definition save_frame :: "write_env \<Rightarrow> sending \<Rightarrow> bool \<times> sending" where
  "save_frame env st =
     (case sg_capture st of
        None \<Rightarrow> (True, st)
      | Some w \<Rightarrow>
          let (wrote, w1, fs) = write_frame (sg_bytes st) env (w, sg_fs st)
          in (wrote, st\<lparr>sg_capture := Some w1, sg_fs := fs\<rparr>))"

definition note_times :: "sender_options \<Rightarrow> int \<Rightarrow> sender_turn \<Rightarrow> u64 \<Rightarrow> sending \<Rightarrow> sending" where
  "note_times opts scheduled env frame_id st =
     (let late = late_us scheduled (te_send_start env);
          encode = micros_between (te_send_start env) (te_socket_start env);
          socket_send = micros_between (te_socket_start env) (te_send_end env);
          work = micros_between (te_send_start env) (te_send_end env);
          deadline_miss = so_deadline_us opts < late;
          st1 = st\<lparr>sg_send_period := (if 0 < frame_id
                                      then add_latency (micros_between (sg_previous_start st) (te_send_start env))
                                             (sg_send_period st)
                                      else sg_send_period st),
                   sg_previous_start := te_send_start env,
                   sg_schedule_late := add_latency late (sg_schedule_late st),
                   sg_send_work := add_latency work (sg_send_work st),
                   sg_encode := add_latency encode (sg_encode st),
                   sg_socket_send := add_latency socket_send (sg_socket_send st),
                   sg_max_late_us := max (sg_max_late_us st) late,
                   sg_deadline_miss_count := (if deadline_miss then sg_deadline_miss_count st + 1
                                              else sg_deadline_miss_count st)\<rparr>
      in if st_good (sg_timing st1)
         then st1\<lparr>sg_timing := write_line (comma_separated
                [u64_text frame_id, u64_text (steady_ns scheduled), u64_text (steady_ns (te_send_start env)),
                 u64_text (steady_ns (te_send_end env)), u64_text late, u64_text work, u64_text encode,
                 u64_text socket_send, u64_text (so_deadline_us opts), if deadline_miss then ''1'' else ''0''])
                (sg_timing st1)\<rparr>
         else st1)"

text \<open>A whole turn: \<open>Some\<close> exit code ends the program.\<close>

definition send_turn :: "sender_options \<Rightarrow> int \<Rightarrow> sender_turn \<Rightarrow> u64 \<Rightarrow> sending \<Rightarrow> u64 option \<times> sending" where
  "send_turn opts schedule_start env frame_id st =
     (case prepare_frame opts env frame_id st of
        (False, st1) \<Rightarrow> (Some 10, st1)
      | (True, st1) \<Rightarrow>
          (case pass_frame (note_frame_id frame_id st1) of
             (False, st2) \<Rightarrow> (Some 2, log_failure (''failed to send frame '' @ u64_text frame_id) st2)
           | (True, st2) \<Rightarrow>
               (case save_frame (te_write env) st2 of
                  (False, st3) \<Rightarrow> (Some 9, log_failure (''failed to save sent frame '' @ u64_text frame_id) st3)
                | (True, st3) \<Rightarrow>
                    (None, note_times opts (scheduled_at schedule_start (so_rate_hz opts) frame_id) env frame_id st3))))"

text \<open>The loop, with the number of turns that are left.\<close>

fun send_frames :: "sender_options \<Rightarrow> int \<Rightarrow> (u64 \<Rightarrow> sender_turn) \<Rightarrow> nat \<Rightarrow> u64 \<Rightarrow> sending \<Rightarrow> u64 option \<times> sending" where
  "send_frames opts schedule_start env 0 frame_id st = (None, st)"
| "send_frames opts schedule_start env (Suc n) frame_id st =
     (case send_turn opts schedule_start (env frame_id) frame_id st of
        (Some exit_code, st1) \<Rightarrow> (Some exit_code, st1)
      | (None, st1) \<Rightarrow> send_frames opts schedule_start env n (frame_id + 1) st1)"

section \<open>Start-up and report\<close>

record sender_env =
  se_directories :: bool
  se_log_file :: "string list option"
  se_metrics_file :: "string list option"
  se_timing_opens :: bool
  se_timing_device :: device
  se_host_answer :: "attempt list option"
  se_bind_resolves :: bool
  se_world :: tcp_world
  se_answers :: "int list"
  se_fs :: filesystem
  se_schedule_start :: int
  se_turn :: "u64 \<Rightarrow> sender_turn"
  se_flush_ok :: bool
  se_timing_flush_ok :: bool

definition sender_timing_header :: string where
  "sender_timing_header =
     ''frame_id,scheduled_steady_ns,send_start_steady_ns,send_end_steady_ns,'' @
     ''schedule_late_us,work_us,encode_us,socket_send_us,deadline_us,deadline_miss''"

definition sender_usage :: string where
  "sender_usage =
     ''usage: sender [host] [port] [frame_count]'' @
     '' [--module-id <id>] [--bind-host <local-ip>] [--timing-log <path>] [--deadline-us <count>] [--rate-hz <n>]'' @
     '' [--save-sent <dir>] [--input <file.bin|dir>]''"

text \<open>The locals just before the loop; \<open>Inl\<close> is the error of an input without files.\<close>

definition new_sending ::
  "sender_env \<Rightarrow> sender_options \<Rightarrow> tcp_sender \<Rightarrow> text_stream \<Rightarrow> process_io \<Rightarrow> process_io + sending" where
  "new_sending env opts sender timing pio =
     (let capture = (if so_save_sent_dir opts \<noteq> []
                     then Some (new_capture_writer (to_path (so_save_sent_dir opts)) 10000) else None);
          input = (if so_input_path opts \<noteq> []
                   then Some (new_capture_reader (se_fs env) (to_path (so_input_path opts))) else None);
          st = \<lparr>sg_sender = sender, sg_answers = se_answers env, sg_wire = [], sg_capture = capture,
                sg_input = input, sg_fs = se_fs env,
                sg_frame = default_frame\<lparr>fr_payload := resize_samples (unat kChannelCount) []\<rparr>,
                sg_bytes = (if input \<noteq> None then replicate kWireFrameSize 0 else []),
                sg_first_frame_id = 0, sg_last_frame_id = 0, sg_previous_start = se_schedule_start env,
                sg_deadline_miss_count = 0, sg_max_late_us = 0, sg_send_period = new_latency_stats,
                sg_schedule_late = new_latency_stats, sg_send_work = new_latency_stats,
                sg_encode = new_latency_stats, sg_socket_send = new_latency_stats,
                sg_timing = timing, sg_io = pio\<rparr>
      in case input of
           Some r \<Rightarrow> if reader_ok r then Inr st
                      else Inl (to_stderr (''sender input error: '' @ rd_error r)
                                  (log_error (''input error: '' @ rd_error r) pio))
         | None \<Rightarrow> Inr st)"

definition sender_connect ::
  "sender_env \<Rightarrow> sender_options \<Rightarrow> text_stream \<Rightarrow> process_io \<Rightarrow> ending + sending" where
  "sender_connect env opts timing pio =
     (let (connected, sender, world) = connect_to (se_host_answer env) (so_bind_host opts) (se_bind_resolves env)
                                         (new_tcp_sender, se_world env);
          source = (if so_bind_host opts = [] then [] else '' from '' @ so_bind_host opts);
          target = source @ '' to '' @ so_host opts @ '':'' @ to_string (unat (so_port opts))
      in if \<not> connected then Inl (Returned 1 (log_error (''failed to connect'' @ target) pio))
         else case new_sending env opts sender timing (log_info (''connected'' @ target) pio) of
                Inl pio1 \<Rightarrow> Inl (Returned 10 pio1)
              | Inr st \<Rightarrow> Inr st)"

definition sender_start :: "sender_env \<Rightarrow> sender_options \<Rightarrow> ending + sending" where
  "sender_start env opts =
     (case (se_directories env, se_log_file env, se_metrics_file env) of
        (True, Some log_file, Some metrics_file) \<Rightarrow>
          let pio = new_process_io log_file (write_metrics_header metrics_file);
              timing = (if so_timing_log opts \<noteq> []
                        then open_stream (se_timing_opens env) (se_timing_device env) unopened_stream
                        else unopened_stream)
          in if so_timing_log opts \<noteq> [] \<and> \<not> st_good timing
             then Inl (Returned 8 (log_error ''failed to open sender timing log'' pio))
             else sender_connect env opts
                    (if so_timing_log opts \<noteq> [] then write_line sender_timing_header timing else timing) pio
      | _ \<Rightarrow> Inl (Terminated (new_process_io [] [])))"

definition sender_snapshot :: "sender_options \<Rightarrow> sending \<Rightarrow> metrics_snapshot" where
  "sender_snapshot opts st = empty_snapshot
     \<lparr>mt_frame_id_begin := sg_first_frame_id st, mt_frame_id_end := sg_last_frame_id st,
      mt_frame_count := ts_sent_frames (sg_sender st),
      mt_send_period_avg_us := latency_average (sg_send_period st),
      mt_send_period_max_us := ls_max (sg_send_period st),
      mt_send_period_p999_us := percentile p999 (sg_send_period st),
      mt_send_deadline_us := so_deadline_us opts,
      mt_send_deadline_miss_count := sg_deadline_miss_count st,
      mt_send_max_late_us := sg_max_late_us st,
      mt_send_schedule_late_avg_us := latency_average (sg_schedule_late st),
      mt_send_schedule_late_max_us := ls_max (sg_schedule_late st),
      mt_send_work_avg_us := latency_average (sg_send_work st),
      mt_send_work_max_us := ls_max (sg_send_work st),
      mt_send_encode_avg_us := latency_average (sg_encode st),
      mt_send_encode_max_us := ls_max (sg_encode st),
      mt_send_socket_avg_us := latency_average (sg_socket_send st),
      mt_send_socket_max_us := ls_max (sg_socket_send st)\<rparr>"

text \<open>After the loop: both flushes, the line of the metrics file, the last messages.\<close>

definition sender_finish ::
  "(rat \<Rightarrow> string) \<Rightarrow> string \<Rightarrow> sender_env \<Rightarrow> sender_options \<Rightarrow> sending \<Rightarrow> u64 \<times> sending" where
  "sender_finish show_double now env opts st =
     (let (saved, capture) = (case sg_capture st of
                                None \<Rightarrow> (True, None)
                              | Some w \<Rightarrow> (case flush_writer (se_flush_ok env) w of (ok, w1) \<Rightarrow> (ok, Some w1)));
          st1 = st\<lparr>sg_capture := capture\<rparr>
      in if \<not> saved then (9, log_failure ''failed to flush sent capture'' st1)
         else
           let timing = (if st_good (sg_timing st1) then flush_stream (se_timing_flush_ok env) (sg_timing st1)
                         else sg_timing st1);
               st2 = st1\<lparr>sg_timing := timing\<rparr>
           in if st_good (sg_timing st1) \<and> \<not> st_good timing
              then (8, log_failure ''failed to write sender timing log'' st2)
              else
                let sent = u64_text (ts_sent_frames (sg_sender st2)); pio = sg_io st2;
                    pio1 = pio\<lparr>pi_metrics := append_metrics show_double now (sender_snapshot opts st2) (pi_metrics pio)\<rparr>
                in (0, st2\<lparr>sg_io := to_stdout (''sender sent '' @ sent @ '' frames'')
                                      (log_info (''sent '' @ sent @ '' frames'') pio1)\<rparr>))"

text \<open>The whole program: how it ends, the bytes that went out and the files.\<close>

definition sender_main :: "(rat \<Rightarrow> string) \<Rightarrow> string \<Rightarrow> sender_env \<Rightarrow> string list \<Rightarrow> ending \<times> bytes \<times> filesystem" where
  "sender_main show_double now env args =
     (case parse_sender_options args of
        Inl e \<Rightarrow> (Returned 64 (to_stderr (''sender argument error: '' @ what e)
                              (to_stderr sender_usage (new_process_io [] []))), [], se_fs env)
      | Inr opts \<Rightarrow>
          (case sender_start env opts of
             Inl e \<Rightarrow> (e, [], se_fs env)
           | Inr st \<Rightarrow>
               (case send_frames opts (se_schedule_start env) (se_turn env) (unat (so_frame_count opts)) 0 st of
                  (Some exit_code, st1) \<Rightarrow> (Returned exit_code (sg_io st1), sg_wire st1, sg_fs st1)
                | (None, st1) \<Rightarrow>
                    (case sender_finish show_double now env opts st1 of
                       (exit_code, st2) \<Rightarrow> (Returned exit_code (sg_io st2), sg_wire st2, sg_fs st2)))))"

end
