(* ===== verification/Loss_Detector.thy ===== *)
theory Loss_Detector imports Cmb_Prelude begin

text \<open>
  \<open>receiver/loss_detector.cpp\<close>: the continuity check on the received frame ids.  The
  detector is a state machine fed one id at a time; the properties are about whole runs.
\<close>

record continuity_stats =
  cs_frame_count :: u64
  cs_first_frame_id :: u64
  cs_last_frame_id :: u64
  cs_gap_count :: u64
  cs_duplicate_count :: u64
  cs_reorder_count :: u64
  cs_missing_frame_count :: u64

record loss_detector =
  ld_stats :: continuity_stats
  ld_seen_any :: bool

definition new_loss_detector :: loss_detector where
  "new_loss_detector =
     \<lparr>ld_stats = \<lparr>cs_frame_count = 0, cs_first_frame_id = 0, cs_last_frame_id = 0, cs_gap_count = 0,
                  cs_duplicate_count = 0, cs_reorder_count = 0, cs_missing_frame_count = 0\<rparr>,
      ld_seen_any = False\<rparr>"

definition observe :: "u64 \<Rightarrow> loss_detector \<Rightarrow> loss_detector" where
  "observe frame_id d =
     (if \<not> ld_seen_any d
      then d\<lparr>ld_seen_any := True,
             ld_stats := (ld_stats d)\<lparr>cs_first_frame_id := frame_id, cs_last_frame_id := frame_id,
                                      cs_frame_count := 1\<rparr>\<rparr>
      else
        let s = (ld_stats d)\<lparr>cs_frame_count := cs_frame_count (ld_stats d) + 1\<rparr>
        in if frame_id = cs_last_frame_id s
           then d\<lparr>ld_stats := s\<lparr>cs_duplicate_count := cs_duplicate_count s + 1\<rparr>\<rparr>
           else if frame_id < cs_last_frame_id s
           then d\<lparr>ld_stats := s\<lparr>cs_reorder_count := cs_reorder_count s + 1\<rparr>\<rparr>
           else
             let s = (if frame_id > cs_last_frame_id s + 1
                      then s\<lparr>cs_gap_count := cs_gap_count s + 1,
                             cs_missing_frame_count :=
                               cs_missing_frame_count s + (frame_id - cs_last_frame_id s - 1)\<rparr>
                      else s)
             in d\<lparr>ld_stats := s\<lparr>cs_last_frame_id := frame_id\<rparr>\<rparr>)"

text \<open>A run from a fresh detector, and its statistics.\<close>

definition observe_run :: "u64 list \<Rightarrow> loss_detector" where
  "observe_run ids = fold observe ids new_loss_detector"

definition run_stats :: "u64 list \<Rightarrow> continuity_stats" where
  "run_stats ids = ld_stats (observe_run ids)"

section \<open>Runs, one observation at a time\<close>

lemma observe_run_snoc: "observe_run (ids @ [i]) = observe i (observe_run ids)"
  by (simp add: observe_run_def)

lemma seen_any_run: "ld_seen_any (observe_run ids) \<longleftrightarrow> ids \<noteq> []"
  by (induction ids rule: rev_induct)
    (auto simp: observe_run_snoc observe_def Let_def observe_run_def new_loss_detector_def)

lemma run_stats_single: "run_stats [i] =
    \<lparr>cs_frame_count = 1, cs_first_frame_id = i, cs_last_frame_id = i, cs_gap_count = 0,
     cs_duplicate_count = 0, cs_reorder_count = 0, cs_missing_frame_count = 0\<rparr>"
  by (simp add: run_stats_def observe_run_def observe_def new_loss_detector_def)

text \<open>
  A later observation: it is a duplicate, an old id, the next id, or an id past a gap.  The
  largest id has no successor, and nothing is above it either.
\<close>

lemma run_stats_snoc:
  assumes "ids \<noteq> []"
  shows "run_stats (ids @ [i]) =
    (let s = run_stats ids; l = cs_last_frame_id s
     in s\<lparr>cs_frame_count := cs_frame_count s + 1,
          cs_duplicate_count := (if i = l then cs_duplicate_count s + 1 else cs_duplicate_count s),
          cs_reorder_count := (if i < l then cs_reorder_count s + 1 else cs_reorder_count s),
          cs_gap_count := (if l < i \<and> i > l + 1 then cs_gap_count s + 1 else cs_gap_count s),
          cs_missing_frame_count :=
            (if l < i \<and> i > l + 1 then cs_missing_frame_count s + (i - l - 1) else cs_missing_frame_count s),
          cs_last_frame_id := max i l\<rparr>)"
  using assms seen_any_run [of ids]
  by (auto simp: run_stats_def observe_run_snoc observe_def Let_def max_def)

lemma above_not_max: "l < (i :: u64) \<Longrightarrow> unat (l + 1) = unat l + 1"
  using unat_u64_less [of i] by (simp add: word_less_nat_alt unat_word_ariths)

lemma gap_iff: "l < (i :: u64) \<Longrightarrow> l + 1 < i \<longleftrightarrow> i \<noteq> l + 1"
  using above_not_max [of l i] by (auto simp: word_less_nat_alt word_unat_eq_iff)

section \<open>Counters\<close>

text \<open>The first id stays, and the last id is the largest seen.\<close>

lemma run_first: "ids \<noteq> [] \<Longrightarrow> cs_first_frame_id (run_stats ids) = hd ids"
  by (induction ids rule: rev_nonempty_induct) (simp_all add: run_stats_single run_stats_snoc Let_def)

lemma run_last: "ids \<noteq> [] \<Longrightarrow> cs_last_frame_id (run_stats ids) = Max (set ids)"
proof (induction ids rule: rev_nonempty_induct)
  case (snoc i ids)
  then show ?case by (simp add: run_stats_snoc Let_def max.commute)
qed (simp add: run_stats_single)

lemma run_count: "ids \<noteq> [] \<Longrightarrow> length ids < 2 ^ 64 \<Longrightarrow> unat (cs_frame_count (run_stats ids)) = length ids"
proof (induction ids rule: rev_nonempty_induct)
  case (snoc i ids)
  then show ?case by (simp add: run_stats_snoc Let_def unat_word_ariths)
qed (simp add: run_stats_single)

text \<open>No counter of events exceeds the number of frames after the first, so none wraps.\<close>

lemma run_events_bounded:
  "ids \<noteq> [] \<Longrightarrow> length ids < 2 ^ 64 \<Longrightarrow>
    unat (cs_gap_count (run_stats ids)) + unat (cs_duplicate_count (run_stats ids))
      + unat (cs_reorder_count (run_stats ids)) < length ids"
proof (induction ids rule: rev_nonempty_induct)
  case (single i)
  then show ?case by (simp add: run_stats_single)
next
  case (snoc i ids)
  define s where "s = run_stats ids"
  have IH: "unat (cs_gap_count s) + unat (cs_duplicate_count s) + unat (cs_reorder_count s) < length ids"
    using snoc by (simp add: s_def)
  show ?case
    using IH unat_Suc_le [of "cs_gap_count s"] unat_Suc_le [of "cs_duplicate_count s"] unat_Suc_le [of "cs_reorder_count s"]
    by (auto simp: run_stats_snoc [OF snoc.hyps] Let_def s_def [symmetric])
qed

text \<open>
  C23: conservation of frames.  In every run the frames counted and the frames missed are the
  ids from the first to the largest one, plus the duplicates and the late arrivals: the counters
  account for every frame exactly once (as the code's 64-bit arithmetic, with no bound).
\<close>

theorem loss_detector_accounting:
  assumes "ids \<noteq> []"
  shows "cs_frame_count (run_stats ids) + cs_missing_frame_count (run_stats ids)
    = (Max (set ids) - hd ids + 1)
      + cs_duplicate_count (run_stats ids) + cs_reorder_count (run_stats ids)"
proof -
  have "cs_frame_count (run_stats ids) + cs_missing_frame_count (run_stats ids)
    = (cs_last_frame_id (run_stats ids) - cs_first_frame_id (run_stats ids) + 1)
      + cs_duplicate_count (run_stats ids) + cs_reorder_count (run_stats ids)"
    using assms
  proof (induction ids rule: rev_nonempty_induct)
    case (snoc i ids)
    define s where "s = run_stats ids"
    consider "i = cs_last_frame_id s" | "i < cs_last_frame_id s"
      | "cs_last_frame_id s < i" "i = cs_last_frame_id s + 1"
      | "cs_last_frame_id s < i" "cs_last_frame_id s + 1 < i"
      using gap_iff [of "cs_last_frame_id s" i] by fastforce
    then show ?case
      using snoc by cases (auto simp: run_stats_snoc Let_def s_def [symmetric] max_def algebra_simps)
  qed (simp add: run_stats_single)
  then show ?thesis using assms by (simp add: run_first run_last)
qed

theorem loss_detector_accounting_witness:
  "cs_frame_count (run_stats [10, 12, 11, 13]) + cs_missing_frame_count (run_stats [10, 12, 11, 13])
    = (Max (set [10, 12, 11, 13 :: u64]) - hd [10, 12, 11, 13] + 1)
      + cs_duplicate_count (run_stats [10, 12, 11, 13]) + cs_reorder_count (run_stats [10, 12, 11, 13])"
  by (rule loss_detector_accounting) simp

section \<open>A clean report\<close>

definition clean :: "continuity_stats \<Rightarrow> bool" where
  "clean s \<longleftrightarrow> cs_gap_count s = 0 \<and> cs_duplicate_count s = 0 \<and> cs_reorder_count s = 0"

lemma clean_snoc:
  assumes "ids \<noteq> []" and "length ids + 1 < 2 ^ 64"
  shows "clean (run_stats (ids @ [i])) \<longleftrightarrow>
    clean (run_stats ids) \<and> unat i = unat (cs_last_frame_id (run_stats ids)) + 1"
proof -
  define s where "s = run_stats ids"
  have no_wrap: "x + 1 \<noteq> 0" if "unat x < length ids" for x :: u64
  proof -
    have "unat (x + 1) = unat x + 1" using that assms(2) by (simp add: unat_word_ariths)
    then show ?thesis by auto
  qed
  have bounds: "cs_gap_count s + 1 \<noteq> 0" "cs_duplicate_count s + 1 \<noteq> 0" "cs_reorder_count s + 1 \<noteq> 0"
    using run_events_bounded [OF assms(1)] assms(2) by (intro no_wrap; simp add: s_def)+
  have next_id: "cs_last_frame_id s < i \<and> i = cs_last_frame_id s + 1
      \<longleftrightarrow> unat i = unat (cs_last_frame_id s) + 1"
    using above_not_max [of "cs_last_frame_id s" i] unat_u64_less [of i]
    by (auto simp: word_less_nat_alt word_unat_eq_iff unat_word_ariths)
  consider "i = cs_last_frame_id s" | "i < cs_last_frame_id s" | "cs_last_frame_id s < i"
    by fastforce
  then show ?thesis
    using bounds gap_iff [of "cs_last_frame_id s" i] next_id
    by cases (auto simp: clean_def run_stats_snoc [OF assms(1)] Let_def s_def [symmetric])
qed

lemma clean_last: "ids \<noteq> [] \<Longrightarrow> length ids < 2 ^ 64 \<Longrightarrow> clean (run_stats ids) \<Longrightarrow>
    cs_last_frame_id (run_stats ids) = last ids"
proof (induction ids rule: rev_nonempty_induct)
  case (snoc i ids)
  then have "unat i = unat (cs_last_frame_id (run_stats ids)) + 1"
    by (simp add: clean_snoc)
  then have "cs_last_frame_id (run_stats ids) < i" by (simp add: word_less_nat_alt)
  then show ?case using snoc.hyps by (auto simp: run_stats_snoc Let_def max_def dest: leD)
qed (simp add: run_stats_single)

lemma run_clean_iff:
  assumes "ids \<noteq> []" and "length ids < 2 ^ 64"
  shows "clean (run_stats ids) \<longleftrightarrow> map unat ids = [unat (hd ids) ..< unat (hd ids) + length ids]"
  using assms
proof (induction ids rule: rev_nonempty_induct)
  case (single i)
  then show ?case by (simp add: clean_def run_stats_single)
next
  case (snoc i ids)
  let ?a = "unat (hd ids)"
  have last: "unat (last ids) = ?a + length ids - 1" if "map unat ids = [?a ..< ?a + length ids]"
  proof -
    have "unat (last ids) = last (map unat ids)" using snoc.hyps by (simp add: last_map)
    then show ?thesis using that snoc.hyps by simp
  qed
  have "clean (run_stats (ids @ [i])) \<longleftrightarrow> clean (run_stats ids) \<and> unat i = unat (last ids) + 1"
    using snoc clean_last [of ids] by (auto simp: clean_snoc)
  also have "\<dots> \<longleftrightarrow> map unat ids = [?a ..< ?a + length ids] \<and> unat i = ?a + length ids"
    using snoc last by (cases ids) auto
  finally show ?case using snoc.hyps by simp
qed

text \<open>
  A clean report means an unbroken stream.  For a run of fewer than \<open>2 ^ 64\<close> frames the
  gap, duplicate and reorder counters are all zero exactly when the ids are consecutive.
\<close>

theorem loss_detector_clean_iff:
  assumes "ids \<noteq> []" and "length ids < 2 ^ 64"
  shows "clean (run_stats ids) \<longleftrightarrow> map unat ids = [unat (hd ids) ..< unat (hd ids) + length ids]"
  using assms by (rule run_clean_iff)

theorem loss_detector_clean_iff_witness:
  "clean (run_stats [10, 11, 12]) \<longleftrightarrow>
    map unat [10, 11, 12 :: u64] = [unat (hd [10 :: u64, 11, 12]) ..< unat (hd [10 :: u64, 11, 12]) + length [10 :: u64, 11, 12]]"
  by (rule loss_detector_clean_iff) simp_all

end
