(* ===== verification/Tcp_Receiver.thy ===== *)
theory Tcp_Receiver
  imports Sockets
begin

text \<open>
  \<open>receiver/tcp_receiver.{h,cpp}\<close>: listening, accepting one client, and receiving an exact number of
  bytes from a stream that arrives in pieces of any size.
\<close>

section \<open>State and operations\<close>

record tcp_receiver =
  tr_listen_socket :: int
  tr_client_socket :: int

definition new_tcp_receiver :: tcp_receiver where
  "new_tcp_receiver = \<lparr>tr_listen_socket = kInvalidSocket, tr_client_socket = kInvalidSocket\<rparr>"

text \<open>\<open>TcpReceiver::close\<close>\<close>

definition close_receiver :: "tcp_receiver \<times> tcp_world \<Rightarrow> tcp_receiver \<times> tcp_world" where
  "close_receiver = (\<lambda>(r, w).
     let (r1, w1) = (if tr_client_socket r \<noteq> kInvalidSocket
                     then (r\<lparr>tr_client_socket := kInvalidSocket\<rparr>, close_handle (tr_client_socket r) w)
                     else (r, w))
     in if tr_listen_socket r1 \<noteq> kInvalidSocket
        then (r1\<lparr>tr_listen_socket := kInvalidSocket\<rparr>, close_handle (tr_listen_socket r1) w1)
        else (r1, w1))"

text \<open>
  The loop of \<open>TcpReceiver::listen_on\<close>; in an attempt, \<open>at_binds\<close> is the outcome of the one
  \<open>bind\<close> and \<open>at_connects\<close> that of \<open>listen\<close>.
\<close>

fun listen_loop :: "attempt list \<Rightarrow> tcp_receiver \<times> tcp_world \<Rightarrow> bool \<times> tcp_receiver \<times> tcp_world" where
  "listen_loop [] st = (False, st)"
| "listen_loop (a # rest) (r, w) =
     (let r1 = r\<lparr>tr_listen_socket := at_socket a\<rparr>
      in if tr_listen_socket r1 = kInvalidSocket then listen_loop rest (r1, w)
         else
           let w1 = open_handle (at_socket a) w
           in if at_binds a = [True] \<and> at_connects a then (True, r1, w1)
              else listen_loop rest (close_receiver (r1, w1)))"

text \<open>\<open>listen_on\<close>; the argument of \<open>getaddrinfo\<close> is null for the wildcard address.\<close>

definition listen_node :: "string \<Rightarrow> string option" where
  "listen_node bind_host = (if bind_host = [] \<or> bind_host = ''0.0.0.0'' then None else Some bind_host)"

definition listen_on ::
  "(string option \<Rightarrow> attempt list option) \<Rightarrow> string \<Rightarrow> tcp_receiver \<times> tcp_world \<Rightarrow> bool \<times> tcp_receiver \<times> tcp_world" where
  "listen_on getaddrinfo bind_host st =
     (let (r, w) = close_receiver st
      in case getaddrinfo (listen_node bind_host) of
           None \<Rightarrow> (False, r, w)
         | Some attempts \<Rightarrow>
             let (listening, r2, w2) = listen_loop attempts (r, new_address_list w)
             in (listening, r2, free_address_list w2))"

text \<open>\<open>accept_one\<close>; the argument is the answer of \<open>accept\<close>\<close>

definition accept_one :: "int \<Rightarrow> tcp_receiver \<times> tcp_world \<Rightarrow> bool \<times> tcp_receiver \<times> tcp_world" where
  "accept_one answer = (\<lambda>(r, w).
     if tr_listen_socket r = kInvalidSocket then (False, r, w)
     else
       let r1 = r\<lparr>tr_client_socket := answer\<rparr>
       in (tr_client_socket r1 \<noteq> kInvalidSocket, r1, if answer \<noteq> kInvalidSocket then open_handle answer w else w))"

text \<open>The loop of \<open>receive_exact\<close>; \<open>out\<close> is the caller's buffer, \<open>pieces\<close> the stream.\<close>

function receive_loop :: "bytes \<Rightarrow> nat \<Rightarrow> bytes list \<Rightarrow> bool \<times> bytes \<times> bytes list" where
  "receive_loop out received pieces =
     (if received < length out
      then
        let remaining = length out - received;
            chunk = min remaining (64 * 1024);
            (data, pieces') = recv chunk pieces
        in if data = [] then (False, out, pieces')
           else receive_loop (take received out @ data @ drop (received + length data) out)
                  (received + length data) pieces'
      else (True, out, pieces))"
  by pat_completeness auto
termination
proof (relation "measure (\<lambda>(out, received, pieces). length out - received)", simp)
  fix out :: bytes and received pieces remaining chunk x data pieces'
  assume "received < length out" "remaining = length out - received" "chunk = min remaining (64 * 1024)"
    "x = recv chunk pieces" "(data, pieces') = x" "data \<noteq> []"
  then have "length data \<le> length out - received" "0 < length data"
    using recv_concat [of chunk pieces data pieces'] by auto
  then show "((take received out @ data @ drop (received + length data) out, received + length data, pieces'),
      out, received, pieces) \<in> measure (\<lambda>(out, received, pieces). length out - received)"
    using \<open>received < length out\<close> by (simp del: length_greater_0_conv)
qed

declare receive_loop.simps [simp del]

definition receive_exact :: "bytes \<Rightarrow> bytes list \<Rightarrow> tcp_receiver \<Rightarrow> bool \<times> bytes \<times> bytes list" where
  "receive_exact out pieces r =
     (if tr_client_socket r = kInvalidSocket then (False, out, pieces) else receive_loop out 0 pieces)"

text \<open>The overload that resizes the buffer first; new bytes are zero.\<close>

definition receive_exact_resized :: "bytes \<Rightarrow> nat \<Rightarrow> bytes list \<Rightarrow> tcp_receiver \<Rightarrow> bool \<times> bytes \<times> bytes list" where
  "receive_exact_resized out byte_count pieces r =
     receive_exact (take byte_count out @ replicate (byte_count - length out) 0) pieces r"

section \<open>Receiving\<close>

lemma receive_loop_spec:
  assumes "receive_loop out received pieces = (ok, out', pieces')" "received \<le> length out"
    and "[] \<notin> set pieces"
  shows "length out' = length out \<and> [] \<notin> set pieces' \<and>
    (if length out - received \<le> length (concat pieces)
     then ok \<and> out' = take received out @ take (length out - received) (concat pieces) \<and>
       concat pieces' = drop (length out - received) (concat pieces)
     else \<not> ok \<and> pieces' = [])"
  using assms
proof (induction out received pieces rule: receive_loop.induct)
  case (1 out received pieces)
  show ?case
  proof (cases "received < length out")
    case False
    then have "receive_loop out received pieces = (True, out, pieces)" by (subst receive_loop.simps) simp
    then show ?thesis using "1.prems" False by simp
  next
    case True
    let ?chunk = "min (length out - received) (64 * 1024)"
    obtain data pieces1 where step: "recv ?chunk pieces = (data, pieces1)" by (metis surj_pair)
    have cc: "concat pieces = data @ concat pieces1" "length data \<le> length out - received"
      using recv_concat [OF step] by auto
    have ne: "[] \<notin> set pieces1" "data = [] \<longleftrightarrow> pieces = []"
      using recv_nonempty [OF step _ "1.prems"(3)] True by auto
    show ?thesis
    proof (cases "data = []")
      case empty: True
      then have "receive_loop out received pieces = (False, out, pieces1)"
        using True step by (subst receive_loop.simps) (simp add: Let_def)
      moreover have "pieces1 = []" using step empty ne(2) by auto
      ultimately show ?thesis using "1.prems" True empty ne(2) by auto
    next
      case False
      let ?out = "take received out @ data @ drop (received + length data) out"
      have len: "length ?out = length out" using cc(2) True by simp
      have "receive_loop ?out (received + length data) pieces1 = (ok, out', pieces')"
        using "1.prems"(1) True step False by (subst (asm) receive_loop.simps) (simp add: Let_def)
      have bound: "received + length data \<le> length out" using cc(2) True by simp
      from "1.IH" [OF True refl refl step [symmetric] refl False \<open>receive_loop ?out _ _ = _\<close>, unfolded len, OF bound ne(1)]
      have IH: "length out' = length out \<and> [] \<notin> set pieces' \<and>
        (if length out - (received + length data) \<le> length (concat pieces1)
         then ok \<and> out' = take (received + length data) ?out @ take (length out - (received + length data)) (concat pieces1) \<and>
           concat pieces' = drop (length out - (received + length data)) (concat pieces1)
         else \<not> ok \<and> pieces' = [])"
        .
      have "take (received + length data) ?out = take received out @ data" using True by simp
      moreover have "length out - received \<le> length (concat pieces)
          \<longleftrightarrow> length out - (received + length data) \<le> length (concat pieces1)"
        using cc by auto
      ultimately show ?thesis using IH cc by (auto split: if_splits)
    qed
  qed
qed

section \<open>Resources\<close>

definition receiver_holds :: "tcp_receiver \<Rightarrow> int list" where
  "receiver_holds r = filter (\<lambda>h. h \<noteq> kInvalidSocket) [tr_client_socket r, tr_listen_socket r]"

lemma close_receiver_releases:
  "close_receiver (r, w) = (new_tcp_receiver, w\<lparr>tw_open := foldl (\<lambda>hs h. remove1 h hs) (tw_open w) (receiver_holds r)\<rparr>)"
  by (cases r) (simp add: close_receiver_def new_tcp_receiver_def receiver_holds_def close_handle_def)

lemma listen_loop_resources:
  assumes "listen_loop attempts (r, w) = (ok, r', w')" "tr_client_socket r = kInvalidSocket"
    and "\<forall>a \<in> set attempts. at_socket a \<notin> set (tw_open w)" "attempts = [] \<longrightarrow> tr_listen_socket r = kInvalidSocket"
  shows "tw_address_lists w' = tw_address_lists w \<and> tr_client_socket r' = kInvalidSocket \<and>
    (if ok then tr_listen_socket r' \<noteq> kInvalidSocket \<and> tw_open w' = tr_listen_socket r' # tw_open w
     else tr_listen_socket r' = kInvalidSocket \<and> tw_open w' = tw_open w)"
  using assms
proof (induction attempts arbitrary: r w)
  case (Cons a rest)
  let ?r = "r\<lparr>tr_listen_socket := at_socket a\<rparr>"
  consider (invalid) "at_socket a = kInvalidSocket"
    | (closed) "at_socket a \<noteq> kInvalidSocket" "\<not> (at_binds a = [True] \<and> at_connects a)"
    | (up) "at_socket a \<noteq> kInvalidSocket" "at_binds a = [True] \<and> at_connects a" by blast
  then show ?case
  proof cases
    case invalid
    then show ?thesis using Cons.IH [of ?r w] Cons.prems by simp
  next
    case closed
    have "close_receiver (?r, open_handle (at_socket a) w) = (new_tcp_receiver, w)"
      using closed(1) Cons.prems(2) by (simp add: close_receiver_releases receiver_holds_def open_handle_def)
    then have "listen_loop rest (new_tcp_receiver, w) = (ok, r', w')"
      using Cons.prems(1) closed by (auto simp: Let_def split: if_splits)
    then show ?thesis using Cons.IH [of new_tcp_receiver w] Cons.prems(3) by (simp add: new_tcp_receiver_def)
  next
    case up
    then have "ok" "r' = ?r" "w' = open_handle (at_socket a) w" using Cons.prems(1) by (auto simp: Let_def)
    then show ?thesis using up(1) Cons.prems(2) by (simp add: open_handle_def)
  qed
qed auto

section \<open>Correctness\<close>

text \<open>
  C25: \<open>receive_exact\<close> does not depend on how the stream is cut into pieces.  If enough bytes arrive
  before the stream ends it fills the whole buffer with exactly the next bytes of the stream and
  leaves the rest of the stream; otherwise it reports the end.
\<close>

theorem receive_exact_reassembles:
  assumes "receive_exact out pieces r = (ok, out', pieces')" and "tr_client_socket r \<noteq> kInvalidSocket"
    and "[] \<notin> set pieces"
  shows "length out' = length out \<and> (ok \<longleftrightarrow> length out \<le> length (concat pieces)) \<and>
    (ok \<longrightarrow> concat pieces = out' @ concat pieces')"
proof -
  have "receive_loop out 0 pieces = (ok, out', pieces')" using assms by (simp add: receive_exact_def)
  from receive_loop_spec [OF this _ assms(3)] show ?thesis by (auto split: if_splits)
qed

theorem receive_exact_reassembles_witness:
  "\<exists>pieces'. receive_exact [0, 0, 0] [[1], [2, 3, 4], [5]] (new_tcp_receiver\<lparr>tr_client_socket := 7\<rparr>)
     = (True, [1, 2, 3], pieces') \<and> concat pieces' = [4, 5]"
proof -
  obtain ok out' pieces' where run:
    "receive_exact [0, 0, 0] [[1], [2, 3, 4], [5]] (new_tcp_receiver\<lparr>tr_client_socket := 7\<rparr>) = (ok, out', pieces')"
    by (metis prod_cases3)
  have whole: "concat [[1], [2, 3, 4], [5]] = [1, 2, 3] @ [4, 5 :: byte]" by simp
  from receive_exact_reassembles [OF run, unfolded whole]
  have "ok" "length [1, 2, 3 :: byte] = length out'" "[1, 2, 3] @ [4, 5] = out' @ concat pieces'"
    by (simp_all add: kInvalidSocket_def)
  then have "out' = [1, 2, 3] \<and> concat pieces' = [4, 5]" by (metis append_eq_append_conv)
  then show ?thesis using run \<open>ok\<close> by simp
qed

text \<open>
  Listening and accepting hold exactly the descriptors the receiver remembers, and closing gives
  them all back: after \<open>listen_on\<close>, one \<open>accept_one\<close> and \<open>close\<close> the process holds what it held before,
  whatever the outcomes, and the address list is freed.
\<close>

theorem receiver_session_no_leak:
  assumes "listen_on getaddrinfo host (new_tcp_receiver, w) = (listening, r1, w1)"
    and "accept_one answer (r1, w1) = (accepted, r2, w2)"
    and "\<forall>node attempts. getaddrinfo node = Some attempts \<longrightarrow> (\<forall>a \<in> set attempts. at_socket a \<notin> set (tw_open w))"
    and "answer \<notin> set (tw_open w1)"
  shows "tw_address_lists w1 = tw_address_lists w \<and>
    (listening \<longleftrightarrow> tr_listen_socket r1 \<noteq> kInvalidSocket) \<and> (accepted \<longrightarrow> listening) \<and>
    tw_open (snd (close_receiver (r2, w2))) = tw_open w"
proof -
  have c0: "close_receiver (new_tcp_receiver, w) = (new_tcp_receiver, w)"
    by (simp add: close_receiver_def new_tcp_receiver_def)
  have listen: "tw_address_lists w1 = tw_address_lists w \<and> tr_client_socket r1 = kInvalidSocket \<and>
    (if listening then tr_listen_socket r1 \<noteq> kInvalidSocket \<and> tw_open w1 = tr_listen_socket r1 # tw_open w
     else tr_listen_socket r1 = kInvalidSocket \<and> tw_open w1 = tw_open w)"
  proof (cases "getaddrinfo (listen_node host)")
    case None
    then have "\<not> listening" "r1 = new_tcp_receiver" "w1 = w" using assms(1) by (simp_all add: listen_on_def c0)
    then show ?thesis by (simp add: new_tcp_receiver_def)
  next
    case (Some attempts)
    obtain ok r3 w3 where loop: "listen_loop attempts (new_tcp_receiver, new_address_list w) = (ok, r3, w3)"
      by (metis prod_cases3)
    have "tw_address_lists w3 = tw_address_lists (new_address_list w) \<and> tr_client_socket r3 = kInvalidSocket \<and>
      (if ok then tr_listen_socket r3 \<noteq> kInvalidSocket \<and> tw_open w3 = tr_listen_socket r3 # tw_open (new_address_list w)
       else tr_listen_socket r3 = kInvalidSocket \<and> tw_open w3 = tw_open (new_address_list w))"
      by (rule listen_loop_resources [OF loop])
        (use assms(3) Some in \<open>auto simp: new_tcp_receiver_def new_address_list_def\<close>)
    then show ?thesis
      using assms(1) Some loop by (auto simp: listen_on_def c0 new_address_list_def free_address_list_def split: if_splits)
  qed
  then show ?thesis
    using assms(2,4)
    by (cases listening) (auto simp: accept_one_def close_receiver_releases receiver_holds_def open_handle_def Let_def
        split: if_splits)
qed

text \<open>
  A second \<open>accept_one\<close> loses the first client's descriptor.  The member is overwritten without
  being closed, so after \<open>close\<close> the process still holds it.  (The program accepts once.)
\<close>

theorem second_accept_leaks:
  assumes "accept_one h1 (r, w) = (True, r1, w1)" and "accept_one h2 (r1, w1) = (True, r2, w2)"
    and "h1 \<noteq> h2" and "h1 \<noteq> tr_listen_socket r"
  shows "h1 \<in> set (tw_open (snd (close_receiver (r2, w2))))"
  using assms
  by (auto simp: accept_one_def close_receiver_releases receiver_holds_def open_handle_def Let_def in_set_remove1
      split: if_splits)

definition listening_receiver :: "tcp_receiver" where
  "listening_receiver = \<lparr>tr_listen_socket = 3, tr_client_socket = kInvalidSocket\<rparr>"

theorem receiver_session_no_leak_witness:
  "let getaddrinfo = (\<lambda>node :: string option. Some [\<lparr>at_socket = 3, at_binds = [True], at_connects = True\<rparr>]);
       (listening, r1, w1) = listen_on getaddrinfo ''0.0.0.0'' (new_tcp_receiver, \<lparr>tw_open = [0, 1, 2], tw_address_lists = 0\<rparr>);
       (accepted, r2, w2) = accept_one 4 (r1, w1)
   in listening \<and> accepted \<and> tw_open (snd (close_receiver (r2, w2))) = [0, 1, 2]"
proof -
  let ?g = "\<lambda>node :: string option. Some [\<lparr>at_socket = 3, at_binds = [True], at_connects = True\<rparr>]"
  let ?w = "\<lparr>tw_open = [0, 1, 2], tw_address_lists = 0\<rparr>"
  let ?w1 = "\<lparr>tw_open = [3, 0, 1, 2], tw_address_lists = 0\<rparr>"
  have listen: "listen_on ?g ''0.0.0.0'' (new_tcp_receiver, ?w) = (True, listening_receiver, ?w1)"
    by (simp add: listen_on_def close_receiver_def new_tcp_receiver_def kInvalidSocket_def listening_receiver_def
        open_handle_def new_address_list_def free_address_list_def)
  have acc: "accept_one 4 (listening_receiver, ?w1)
      = (True, listening_receiver\<lparr>tr_client_socket := 4\<rparr>, \<lparr>tw_open = [4, 3, 0, 1, 2], tw_address_lists = 0\<rparr>)"
    by (simp add: accept_one_def listening_receiver_def kInvalidSocket_def open_handle_def)
  from receiver_session_no_leak [OF listen acc] show ?thesis unfolding Let_def listen by (simp add: acc)
qed

theorem second_accept_leaks_witness:
  "let (ok1, r1, w1) = accept_one 4 (listening_receiver, \<lparr>tw_open = [3], tw_address_lists = 0\<rparr>);
       (ok2, r2, w2) = accept_one 5 (r1, w1)
   in 4 \<in> set (tw_open (snd (close_receiver (r2, w2))))"
proof -
  let ?w1 = "\<lparr>tw_open = [4, 3], tw_address_lists = 0\<rparr>"
  have a1: "accept_one 4 (listening_receiver, \<lparr>tw_open = [3], tw_address_lists = 0\<rparr>)
      = (True, listening_receiver\<lparr>tr_client_socket := 4\<rparr>, ?w1)"
    by (simp add: accept_one_def listening_receiver_def kInvalidSocket_def open_handle_def)
  have a2: "accept_one 5 (listening_receiver\<lparr>tr_client_socket := 4\<rparr>, ?w1)
      = (True, listening_receiver\<lparr>tr_client_socket := 5\<rparr>, \<lparr>tw_open = [5, 4, 3], tw_address_lists = 0\<rparr>)"
    by (simp add: accept_one_def listening_receiver_def kInvalidSocket_def open_handle_def)
  have "4 \<noteq> tr_listen_socket listening_receiver" by (simp add: listening_receiver_def)
  from second_accept_leaks [OF a1 a2 _ this] show ?thesis
    unfolding Let_def a1 prod.case a2 by simp
qed

end
