(* ===== verification/Receiver_Main.thy ===== *)
theory Receiver_Main
  imports Receiver_Options Data_Simulator Loss_Detector Latency_Stats Tcp_Receiver Process_Io Steady_Clock
begin

text \<open>
  \<open>receiver/main.cpp\<close>, the thread that receives: start-up, one turn of the acquisition loop, and the
  report at the end.  The clock readings of a turn are an argument (nanoseconds of the steady clock,
  whose representation does not overflow).  The capture worker and the interleaving of the two
  threads are in \<open>Capture_Pipeline\<close>.
\<close>

section \<open>Time\<close>

definition kRecvDeadlineSlackUs :: u64 where "kRecvDeadlineSlackUs = 500"
definition kStorageFlushFrames :: nat where "kStorageFlushFrames = 200"

definition recv_deadline :: "receiver_options \<Rightarrow> u64" where
  "recv_deadline opts = of_nat (1000000 div unat (ro_rate_hz opts)) + kRecvDeadlineSlackUs"

section \<open>Start-up\<close>

text \<open>
  What the environment answers during start-up: whether the directories can be made and the three files
  opened, what the appended files hold already, and the answers of the socket calls.
\<close>

record receiver_env =
  re_directories :: bool
  re_log_file :: "string list option"
  re_metrics_file :: "string list option"
  re_timing_opens :: bool
  re_timing_device :: device
  re_getaddrinfo :: "string option \<Rightarrow> attempt list option"
  re_accept :: int
  re_world :: tcp_world

record receiver_session =
  rs_options :: receiver_options
  rs_timing :: text_stream
  rs_io :: process_io
  rs_receiver :: tcp_receiver
  rs_world :: tcp_world
  rs_queue :: capture_queue

definition timing_header :: string where
  "timing_header =
     ''frame_id,wire_complete_steady_ns,wire_complete_gap_us,deadline_us,late_us,deadline_miss,parse_us,queue_depth''"

definition receiver_usage :: string where
  "receiver_usage =
     ''usage: receiver [port] [expected_frame_count] [bind_host]'' @
     '' [--module-id <id>] [--timing-log <path>] [--capture-queue-frames <count>] [--rate-hz <n>]''"

text \<open>From the listening socket to the accepted client.\<close>

definition receiver_listen ::
  "receiver_env \<Rightarrow> receiver_options \<Rightarrow> text_stream \<Rightarrow> process_io \<Rightarrow> ending + receiver_session" where
  "receiver_listen env opts timing pio =
     (let address = ro_bind_host opts @ '':'' @ to_string (unat (ro_port opts));
          (listening, r1, w1) = listen_on (re_getaddrinfo env) (ro_bind_host opts) (new_tcp_receiver, re_world env)
      in if \<not> listening then Inl (Returned 1 (log_error (''failed to listen on '' @ address) pio))
         else
           let pio1 = to_stdout (''receiver listening on '' @ address) (log_info (''listening on '' @ address) pio)
           in case new_capture_queue (ro_capture_queue_frames opts) of
                Inl e \<Rightarrow> Inl (Terminated pio1)
              | Inr queue \<Rightarrow>
                  let (accepted, r2, w2) = accept_one (re_accept env) (r1, w1)
                  in if \<not> accepted then Inl (Returned 2 (log_error ''failed to accept client'' pio1))
                     else Inr \<lparr>rs_options = opts, rs_timing = timing,
                               rs_io = log_info ''client accepted'' pio1, rs_receiver = r2,
                               rs_world = w2, rs_queue = queue\<rparr>)"

text \<open>From the command line to the accepted client.\<close>

definition receiver_start :: "receiver_env \<Rightarrow> string list \<Rightarrow> ending + receiver_session" where
  "receiver_start env args =
     (let nothing = new_process_io [] []
      in case parse_receiver_options args of
        Inl e \<Rightarrow> Inl (Returned 64 (to_stderr (''receiver argument error: '' @ what e) (to_stderr receiver_usage nothing)))
      | Inr opts \<Rightarrow>
          (case (re_directories env, re_log_file env, re_metrics_file env) of
             (True, Some log_file, Some metrics_file) \<Rightarrow>
               let pio = new_process_io log_file (write_metrics_header metrics_file);
                   timing = (if ro_timing_log opts \<noteq> []
                             then open_stream (re_timing_opens env) (re_timing_device env) unopened_stream
                             else unopened_stream)
               in if ro_timing_log opts \<noteq> [] \<and> \<not> st_good timing
                  then Inl (Returned 8 (log_error ''failed to open receiver timing log'' pio))
                  else receiver_listen env opts
                         (if ro_timing_log opts \<noteq> [] then write_line timing_header timing else timing) pio
           | _ \<Rightarrow> Inl (Terminated nothing)))"

section \<open>One turn of the acquisition loop\<close>

text \<open>The locals of \<open>main\<close> that the loop updates, and the stream still to be received.\<close>

record acquisition =
  aq_pieces :: "bytes list"
  aq_snapshot :: metrics_snapshot
  aq_continuity :: loss_detector
  aq_gap_stats :: latency_stats
  aq_parse_stats :: latency_stats
  aq_previous :: int
  aq_first :: int
  aq_has_previous :: bool
  aq_frame :: frame
  aq_timing :: text_stream
  aq_io :: process_io

definition new_acquisition :: "bytes list \<Rightarrow> text_stream \<Rightarrow> process_io \<Rightarrow> acquisition" where
  "new_acquisition pieces timing pio =
     \<lparr>aq_pieces = pieces, aq_snapshot = empty_snapshot, aq_continuity = new_loss_detector,
      aq_gap_stats = new_latency_stats, aq_parse_stats = new_latency_stats, aq_previous = 0, aq_first = 0,
      aq_has_previous = False, aq_frame = default_frame, aq_timing = timing, aq_io = pio\<rparr>"

record turn_clock =
  tc_wire_complete :: int
  tc_parse_start :: int
  tc_parse_end :: int

text \<open>What a turn hands to the line of the timing log: \<open>gap_us\<close>, \<open>late_us\<close>, \<open>parse_us\<close>.\<close>

record turn_times =
  tt_gap_us :: u64
  tt_late_us :: u64
  tt_deadline_miss :: bool
  tt_parse_us :: u64

definition note_disconnect :: "acquisition \<Rightarrow> acquisition" where
  "note_disconnect aq = aq
     \<lparr>aq_snapshot := (aq_snapshot aq)\<lparr>mt_tcp_disconnect_count := mt_tcp_disconnect_count (aq_snapshot aq) + 1\<rparr>,
      aq_io := log_error ''failed to read complete frame'' (aq_io aq)\<rparr>"

text \<open>The part of the turn that measures the gap since the frame before.\<close>

definition note_arrival :: "u64 \<Rightarrow> int \<Rightarrow> acquisition \<Rightarrow> turn_times \<times> acquisition" where
  "note_arrival deadline_us wire_complete aq =
     (let gap = micros_between (aq_previous aq) wire_complete;
          (tms, aq1) =
            (if aq_has_previous aq
             then
               let aq0 = aq\<lparr>aq_gap_stats := add_latency gap (aq_gap_stats aq)\<rparr>
               in if deadline_us < gap
                  then
                    let late = gap - deadline_us; s = aq_snapshot aq0
                    in (\<lparr>tt_gap_us = gap, tt_late_us = late, tt_deadline_miss = True, tt_parse_us = 0\<rparr>,
                        aq0\<lparr>aq_snapshot := s\<lparr>mt_recv_deadline_miss_count := mt_recv_deadline_miss_count s + 1,
                                            mt_recv_max_late_us := max (mt_recv_max_late_us s) late\<rparr>\<rparr>)
                  else (\<lparr>tt_gap_us = gap, tt_late_us = 0, tt_deadline_miss = False, tt_parse_us = 0\<rparr>, aq0)
             else (\<lparr>tt_gap_us = 0, tt_late_us = 0, tt_deadline_miss = False, tt_parse_us = 0\<rparr>, aq));
          aq2 = (if \<not> aq_has_previous aq1 then aq1\<lparr>aq_first := wire_complete\<rparr> else aq1)
      in (tms, aq2\<lparr>aq_previous := wire_complete, aq_has_previous := True\<rparr>))"

definition note_parse_failure :: "parse_error \<Rightarrow> string \<Rightarrow> acquisition \<Rightarrow> acquisition" where
  "note_parse_failure e message aq =
     (let s = (aq_snapshot aq)\<lparr>mt_parse_fail_count := mt_parse_fail_count (aq_snapshot aq) + 1\<rparr>;
          s1 = (if e = kPayloadCrc \<or> e = kHeaderCrc then s\<lparr>mt_crc_error_count := mt_crc_error_count s + 1\<rparr> else s)
      in aq\<lparr>aq_snapshot := s1, aq_io := log_error (''parse failed: '' @ message) (aq_io aq)\<rparr>)"

definition note_mismatch :: "string \<Rightarrow> acquisition \<Rightarrow> acquisition" where
  "note_mismatch message aq = aq
     \<lparr>aq_snapshot := (aq_snapshot aq)\<lparr>mt_parse_fail_count := mt_parse_fail_count (aq_snapshot aq) + 1\<rparr>,
      aq_io := log_error message (aq_io aq)\<rparr>"

text \<open>
  From \<open>receive_exact\<close> into the producer's slot to the point just before \<open>publish\<close>.  \<open>Inl\<close> is the exit
  code with which the loop ends.
\<close>

definition receive_frame ::
  "receiver_options \<Rightarrow> tcp_receiver \<Rightarrow> turn_clock \<Rightarrow> captured_frame \<Rightarrow> acquisition
     \<Rightarrow> (u64 + turn_times) \<times> captured_frame \<times> acquisition" where
  "receive_frame opts tcp clock slot aq =
     (case receive_exact (cf_wire slot) (aq_pieces aq) tcp of
        (False, wire, pieces) \<Rightarrow> (Inl 3, slot\<lparr>cf_wire := wire\<rparr>, note_disconnect (aq\<lparr>aq_pieces := pieces\<rparr>))
      | (True, wire, pieces) \<Rightarrow>
          let slot1 = slot\<lparr>cf_wire := wire\<rparr>;
              (tms, aq1) = note_arrival (recv_deadline opts) (tc_wire_complete clock) (aq\<lparr>aq_pieces := pieces\<rparr>);
              (e, frame, message) = parse_frame_into wire (aq_frame aq1);
              parse_us = micros_between (tc_parse_start clock) (tc_parse_end clock);
              aq2 = aq1\<lparr>aq_frame := frame, aq_parse_stats := add_latency parse_us (aq_parse_stats aq1)\<rparr>;
              h = fr_header frame
          in if e \<noteq> kNone then (Inl 4, slot1, note_parse_failure e message aq2)
             else if hdr_sample_rate_hz h \<noteq> ro_rate_hz opts
             then (Inl 5, slot1, note_mismatch
                    (''unexpected sample_rate_hz: '' @ to_string (unat (hdr_sample_rate_hz h)) @ '', expected ''
                       @ to_string (unat (ro_rate_hz opts))) aq2)
             else if ro_validate_module_id opts \<and> hdr_module_id h \<noteq> ro_expected_module_id opts
             then (Inl 5, slot1, note_mismatch
                    (''unexpected module_id: '' @ to_string (unat (hdr_module_id h)) @ '', expected ''
                       @ to_string (unat (ro_expected_module_id opts))) aq2)
             else
               (Inr (tms\<lparr>tt_parse_us := parse_us\<rparr>),
                slot1\<lparr>cf_frame_id := hdr_frame_id h, cf_wire_complete_steady_ns := steady_ns (tc_wire_complete clock)\<rparr>,
                aq2\<lparr>aq_continuity := observe (hdr_frame_id h) (aq_continuity aq2)\<rparr>))"

text \<open>The line of the timing log, written after \<open>publish\<close>.\<close>

definition log_timing :: "receiver_options \<Rightarrow> turn_clock \<Rightarrow> turn_times \<Rightarrow> nat \<Rightarrow> acquisition \<Rightarrow> acquisition" where
  "log_timing opts clock tms queue_depth aq = aq
     \<lparr>aq_timing := write_line (comma_separated
        [u64_text (hdr_frame_id (fr_header (aq_frame aq))), u64_text (steady_ns (tc_wire_complete clock)),
         u64_text (tt_gap_us tms), u64_text (recv_deadline opts), u64_text (tt_late_us tms),
         if tt_deadline_miss tms then ''1'' else ''0'', u64_text (tt_parse_us tms), to_string queue_depth])
        (aq_timing aq)\<rparr>"

section \<open>The end\<close>

definition final_snapshot :: "receiver_options \<Rightarrow> capture_queue \<Rightarrow> u64 \<Rightarrow> latency_stats \<Rightarrow> acquisition \<Rightarrow> metrics_snapshot" where
  "final_snapshot opts queue high_water write_stats aq =
     (let c = ld_stats (aq_continuity aq)
      in (aq_snapshot aq)
        \<lparr>mt_frame_id_begin := (if 0 < cs_frame_count c then cs_first_frame_id c else 0),
         mt_frame_id_end := (if 0 < cs_frame_count c then cs_last_frame_id c else 0),
         mt_frame_count := cs_frame_count c,
         mt_recv_gap_avg_us := latency_average (aq_gap_stats aq),
         mt_recv_span_us := (if aq_has_previous aq then micros_between (aq_first aq) (aq_previous aq) else 0),
         mt_recv_gap_max_us := ls_max (aq_gap_stats aq),
         mt_recv_gap_p999_us := percentile p999 (aq_gap_stats aq),
         mt_recv_deadline_us := recv_deadline opts,
         mt_recv_parse_avg_us := latency_average (aq_parse_stats aq),
         mt_recv_parse_max_us := ls_max (aq_parse_stats aq),
         mt_capture_queue_capacity := cq_capacity queue,
         mt_capture_queue_high_water := high_water,
         mt_storage_write_avg_us := latency_average write_stats,
         mt_storage_write_max_us := ls_max write_stats\<rparr>)"

text \<open>After \<open>join\<close>: the exit code, the line of the metrics file, the last messages.\<close>

definition receiver_finish ::
  "(rat \<Rightarrow> string) \<Rightarrow> string \<Rightarrow> receiver_options \<Rightarrow> capture_queue \<Rightarrow> u64 \<Rightarrow> latency_stats \<Rightarrow> bool \<Rightarrow> u64
     \<Rightarrow> acquisition \<Rightarrow> ending" where
  "receiver_finish show_double now opts queue high_water write_stats writer_failed exit_code aq =
     (let (code, pio) =
            (if writer_failed \<and> exit_code = 0 then (7, log_error ''capture worker failed'' (aq_io aq))
             else (exit_code, aq_io aq));
          snapshot = final_snapshot opts queue high_water write_stats aq;
          pio1 = pio\<lparr>pi_metrics := append_metrics show_double now snapshot (pi_metrics pio)\<rparr>;
          received = u64_text (mt_frame_count snapshot)
      in if code \<noteq> 0 then Returned code pio1
         else Returned (if mt_frame_count snapshot = ro_expected_frames opts then 0 else 6)
                (to_stdout (''receiver received '' @ received @ '' frames'')
                  (log_info (''received '' @ received @ '' frames'') pio1)))"

section \<open>The verdict on one frame\<close>

lemma note_arrival_fields [simp]:
  assumes "note_arrival d t aq = (tms, aq')"
  shows "aq_pieces aq' = aq_pieces aq" "aq_continuity aq' = aq_continuity aq" "aq_frame aq' = aq_frame aq"
    "aq_timing aq' = aq_timing aq"
  using assms by (auto simp: note_arrival_def Let_def split: if_splits)

text \<open>What the next bytes of the stream are worth to a receiver with given options.\<close>

definition frame_verdict :: "receiver_options \<Rightarrow> bytes \<Rightarrow> u64" where
  "frame_verdict opts stream =
     (let wire = take kWireFrameSize stream; h = fr_header (frame_at wire)
      in if length stream < kWireFrameSize then 3
         else if \<not> acceptable wire then 4
         else if hdr_sample_rate_hz h \<noteq> ro_rate_hz opts then 5
         else if ro_validate_module_id opts \<and> hdr_module_id h \<noteq> ro_expected_module_id opts then 5
         else 0)"

lemma receive_frame_parsed:
  assumes "receive_exact (cf_wire slot) (aq_pieces aq) tcp = (True, wire, pieces)"
    and "note_arrival (recv_deadline opts) (tc_wire_complete clock) (aq\<lparr>aq_pieces := pieces\<rparr>) = (tms, aq1)"
    and "parse_frame_into wire (aq_frame aq) = (kNone, frame, message)"
  defines "h \<equiv> fr_header frame"
  obtains (rate) aq2 where "hdr_sample_rate_hz h \<noteq> ro_rate_hz opts"
      "receive_frame opts tcp clock slot aq = (Inl 5, slot\<lparr>cf_wire := wire\<rparr>, aq2)" "aq_continuity aq2 = aq_continuity aq"
  | (module) aq2 where "hdr_sample_rate_hz h = ro_rate_hz opts" "ro_validate_module_id opts"
      "hdr_module_id h \<noteq> ro_expected_module_id opts"
      "receive_frame opts tcp clock slot aq = (Inl 5, slot\<lparr>cf_wire := wire\<rparr>, aq2)" "aq_continuity aq2 = aq_continuity aq"
  | (ok) tms' aq2 where "hdr_sample_rate_hz h = ro_rate_hz opts"
      "ro_validate_module_id opts \<longrightarrow> hdr_module_id h = ro_expected_module_id opts"
      "receive_frame opts tcp clock slot aq =
         (Inr tms', slot\<lparr>cf_wire := wire, cf_frame_id := hdr_frame_id h,
                       cf_wire_complete_steady_ns := steady_ns (tc_wire_complete clock)\<rparr>, aq2)"
      "aq_continuity aq2 = observe (hdr_frame_id h) (aq_continuity aq)" "aq_pieces aq2 = pieces"
proof -
  note arrived = note_arrival_fields [OF assms(2)]
  then have parse: "parse_frame_into wire (aq_frame aq1) = (kNone, frame, message)" using assms(3) by simp
  let ?p = "micros_between (tc_parse_start clock) (tc_parse_end clock)"
  let ?aq2 = "aq1\<lparr>aq_frame := frame, aq_parse_stats := add_latency ?p (aq_parse_stats aq1)\<rparr>"
  note unfolded = receive_frame_def Let_def assms(1,2) parse prod.case bool.case simp_thms if_True if_False
  show thesis
  proof (cases "hdr_sample_rate_hz h = ro_rate_hz opts")
    case False
    then have "\<exists>m. receive_frame opts tcp clock slot aq = (Inl 5, slot\<lparr>cf_wire := wire\<rparr>, note_mismatch m ?aq2)"
      unfolding h_def by (simp only: unfolded) blast
    then show thesis using False by (auto intro: rate simp: note_mismatch_def arrived)
  next
    case same_rate: True
    show thesis
    proof (cases "ro_validate_module_id opts \<longrightarrow> hdr_module_id h = ro_expected_module_id opts")
      case False
      then have "\<exists>m. receive_frame opts tcp clock slot aq = (Inl 5, slot\<lparr>cf_wire := wire\<rparr>, note_mismatch m ?aq2)"
        using same_rate unfolding h_def by (simp only: unfolded not_imp) blast
      then show thesis using False same_rate by (auto intro: module simp: note_mismatch_def arrived)
    next
      case True
      then have "receive_frame opts tcp clock slot aq =
         (Inr (tms\<lparr>tt_parse_us := ?p\<rparr>), slot\<lparr>cf_wire := wire, cf_frame_id := hdr_frame_id h,
            cf_wire_complete_steady_ns := steady_ns (tc_wire_complete clock)\<rparr>,
          ?aq2\<lparr>aq_continuity := observe (hdr_frame_id h) (aq_continuity ?aq2)\<rparr>)"
        using same_rate unfolding h_def by (auto simp: receive_frame_def assms(1,2) parse Let_def)
      then show thesis using True same_rate by (intro ok) (assumption | simp add: arrived)+
    qed
  qed
qed

lemma receive_frame_spec:
  assumes "receive_frame opts tcp clock slot aq = (res, slot', aq')"
    and "tr_client_socket tcp \<noteq> kInvalidSocket" "[] \<notin> set (aq_pieces aq)" "length (cf_wire slot) = kWireFrameSize"
  shows "length (cf_wire slot') = kWireFrameSize \<and>
    (case res of
       Inl code \<Rightarrow> code = frame_verdict opts (concat (aq_pieces aq)) \<and> code \<noteq> 0 \<and> aq_continuity aq' = aq_continuity aq
     | Inr tms \<Rightarrow> frame_verdict opts (concat (aq_pieces aq)) = 0 \<and>
         concat (aq_pieces aq) = cf_wire slot' @ concat (aq_pieces aq') \<and> [] \<notin> set (aq_pieces aq') \<and>
         acceptable (cf_wire slot') \<and> cf_frame_id slot' = hdr_frame_id (fr_header (frame_at (cf_wire slot'))) \<and>
         cf_wire_complete_steady_ns slot' = steady_ns (tc_wire_complete clock) \<and>
         aq_continuity aq' = observe (cf_frame_id slot') (aq_continuity aq))"
proof -
  obtain ok wire pieces where recv: "receive_exact (cf_wire slot) (aq_pieces aq) tcp = (ok, wire, pieces)"
    by (metis prod_cases3)
  then have "receive_loop (cf_wire slot) 0 (aq_pieces aq) = (ok, wire, pieces)"
    using assms(2) by (simp add: receive_exact_def)
  from receive_loop_spec [OF this _ assms(3)] assms(4)
  have spec: "length wire = kWireFrameSize \<and> [] \<notin> set pieces \<and>
    (if kWireFrameSize \<le> length (concat (aq_pieces aq))
     then ok \<and> wire = take kWireFrameSize (concat (aq_pieces aq)) \<and>
       concat pieces = drop kWireFrameSize (concat (aq_pieces aq)) else \<not> ok \<and> pieces = [])"
    by simp
  show ?thesis
  proof (cases ok)
    case False
    then have "length (concat (aq_pieces aq)) < kWireFrameSize" using spec by (simp split: if_splits)
    then show ?thesis
      using assms(1) recv False spec
      by (auto simp: receive_frame_def note_disconnect_def frame_verdict_def Let_def)
  next
    case True
    then have long: "kWireFrameSize \<le> length (concat (aq_pieces aq))"
        and wire: "wire = take kWireFrameSize (concat (aq_pieces aq))"
        and rest: "concat (aq_pieces aq) = wire @ concat pieces"
      using spec by (auto split: if_splits)
    obtain tms aq1 where arr: "note_arrival (recv_deadline opts) (tc_wire_complete clock) (aq\<lparr>aq_pieces := pieces\<rparr>) = (tms, aq1)"
      by (metis surj_pair)
    obtain e frame message where parse: "parse_frame_into wire (aq_frame aq1) = (e, frame, message)" by (metis prod_cases3)
    have ok_iff: "e = kNone \<longleftrightarrow> acceptable wire" using parse_frame_into_kNone_iff [of wire "aq_frame aq1"] parse by simp
    show ?thesis
    proof (cases "acceptable wire")
      case bad: False
      then have "res = Inl 4 \<and> cf_wire slot' = wire \<and> aq_continuity aq' = aq_continuity aq"
        using assms(1) recv True arr parse ok_iff
        by (auto simp: receive_frame_def Let_def note_parse_failure_def)
      then show ?thesis using spec bad long by (auto simp: frame_verdict_def wire Let_def)
    next
      case good: True
      then have frame: "frame = frame_at wire" "e = kNone" using parse_frame_into_kNone [OF good] parse by auto
      have recv1: "receive_exact (cf_wire slot) (aq_pieces aq) tcp = (True, wire, pieces)" using recv True by simp
      have parse1: "parse_frame_into wire (aq_frame aq) = (kNone, frame, message)"
        using parse frame note_arrival_fields [OF arr] by simp
      have stored: "frame_at (take kWireFrameSize (concat (aq_pieces aq))) = frame" using wire frame by simp
      have taken: "acceptable (take kWireFrameSize (concat (aq_pieces aq)))" using good wire by simp
      have verdict: "frame_verdict opts (concat (aq_pieces aq)) =
          (if hdr_sample_rate_hz (fr_header frame) \<noteq> ro_rate_hz opts then 5
           else if ro_validate_module_id opts \<and> hdr_module_id (fr_header frame) \<noteq> ro_expected_module_id opts
           then 5 else 0)"
        unfolding frame_verdict_def Let_def stored using long taken by (simp add: not_less)
      show ?thesis
        using recv1 arr parse1
      proof (cases rule: receive_frame_parsed)
        case (rate aq2)
        then have "res = Inl 5" "cf_wire slot' = wire" "aq_continuity aq' = aq_continuity aq"
          using assms(1) by auto
        moreover have "frame_verdict opts (concat (aq_pieces aq)) = 5" using verdict rate(1) by simp
        ultimately show ?thesis using spec by simp
      next
        case (module aq2)
        then have "res = Inl 5" "cf_wire slot' = wire" "aq_continuity aq' = aq_continuity aq"
          using assms(1) by auto
        moreover have "frame_verdict opts (concat (aq_pieces aq)) = 5" using verdict module(1-3) by simp
        ultimately show ?thesis using spec by simp
      next
        case (ok tms' aq2)
        have "frame_verdict opts (concat (aq_pieces aq)) = 0" using verdict ok(1,2) by simp
        moreover have "res = Inr tms'" "cf_wire slot' = wire" "cf_frame_id slot' = hdr_frame_id (fr_header frame)"
          "cf_wire_complete_steady_ns slot' = steady_ns (tc_wire_complete clock)" "aq' = aq2"
          using assms(1) ok(3) by auto
        moreover have "length wire = kWireFrameSize" "[] \<notin> set pieces" using spec by simp_all
        ultimately show ?thesis using rest good frame(1) ok(4,5) by simp
      qed
    qed
  qed
qed

text \<open>
  C18: every frame gets the verdict that the exit codes document.  From the stream, however it is cut,
  the receiver takes the next 13684 bytes: 3 if the stream ends before, 4 if they are not an acceptable
  frame, 5 if the frame has another rate or module than configured.  Otherwise the frame is in the
  slot with its id and arrival time, the stream is one frame shorter, and the id has been observed.
\<close>

theorem receive_frame_verdict:
  assumes "receive_frame opts tcp clock slot aq = (res, slot', aq')"
    and "tr_client_socket tcp \<noteq> kInvalidSocket" and "[] \<notin> set (aq_pieces aq)"
    and "length (cf_wire slot) = kWireFrameSize"
  shows "case res of
      Inl code \<Rightarrow> code = frame_verdict opts (concat (aq_pieces aq)) \<and> code \<noteq> 0
    | Inr tms \<Rightarrow> frame_verdict opts (concat (aq_pieces aq)) = 0 \<and>
        concat (aq_pieces aq) = cf_wire slot' @ concat (aq_pieces aq') \<and>
        cf_frame_id slot' = hdr_frame_id (fr_header (frame_at (cf_wire slot'))) \<and>
        cf_wire_complete_steady_ns slot' = steady_ns (tc_wire_complete clock) \<and>
        aq_continuity aq' = observe (cf_frame_id slot') (aq_continuity aq)"
  using receive_frame_spec [OF assms] by (auto split: sum.splits)

text \<open>Which options accept which simulated frame.\<close>

lemma verdict_of_simulated:
  assumes "0 < rate" "rate \<le> kMaxSampleRateHz" "ro_rate_hz opts = rate"
    and "ro_validate_module_id opts \<longrightarrow> ro_expected_module_id opts = m"
  shows "frame_verdict opts (encode_frame (fill_frame f i ts m rate) @ rest) = 0"
proof -
  let ?w = "encode_frame (fill_frame f i ts m rate)"
  note parsed = parse_filled [OF assms(1,2), of f i ts m default_frame]
  then have ok: "acceptable ?w" by (metis fst_conv parse_frame_into_kNone_iff)
  then have "length ?w = kWireFrameSize" by (simp add: acceptable_length)
  moreover have "frame_at ?w = sealed_frame (fill_frame f i ts m rate)"
    using parsed parse_frame_into_kNone [OF ok, of default_frame] by simp
  ultimately show ?thesis
    using ok assms by (simp add: frame_verdict_def Let_def fill_frame_header)
qed

theorem receive_frame_verdict_witness:
  "\<exists>tms slot' aq'. receive_frame default_receiver_options (new_tcp_receiver\<lparr>tr_client_socket := 5\<rparr>)
      \<lparr>tc_wire_complete = 9, tc_parse_start = 9, tc_parse_end = 10\<rparr> blank_slot
      (new_acquisition [encode_frame (fill_frame default_frame 7 0 0 200)] unopened_stream (new_process_io [] []))
    = (Inr tms, slot', aq') \<and> cf_wire_complete_steady_ns slot' = 9"
proof -
  let ?w = "encode_frame (fill_frame default_frame 7 0 0 200)"
  have ok: "frame_verdict default_receiver_options (?w @ []) = 0"
    by (rule verdict_of_simulated) (simp_all add: default_receiver_options_def kSampleRateHz_def kMaxSampleRateHz_def)
  then have "?w \<noteq> []" by (auto simp: frame_verdict_def split: if_splits)
  obtain res slot' aq' where run: "receive_frame default_receiver_options (new_tcp_receiver\<lparr>tr_client_socket := 5\<rparr>)
      \<lparr>tc_wire_complete = 9, tc_parse_start = 9, tc_parse_end = 10\<rparr> blank_slot
      (new_acquisition [?w] unopened_stream (new_process_io [] [])) = (res, slot', aq')" by (metis prod_cases3)
  from receive_frame_verdict [OF run] ok \<open>?w \<noteq> []\<close> show ?thesis
    unfolding run
    by (cases res) (auto simp: new_acquisition_def kInvalidSocket_def blank_slot_def steady_ns_def)
qed

end
