(* ===== verification/Sender_Properties.thy ===== *)
theory Sender_Properties
  imports Sender_Main Receiver_Main
begin

text \<open>
  What the sender puts on the wire: one invariant of its loop, and from it what a completed run and an
  aborted run have sent.
\<close>

section \<open>Answers of \<open>::send\<close>\<close>

text \<open>
  The documented answers over a whole run: never more bytes than were offered, where the next frame is
  offered once the one before is complete.
\<close>

fun honest_stream :: "nat \<Rightarrow> int list \<Rightarrow> bool" where
  "honest_stream remaining [] \<longleftrightarrow> True"
| "honest_stream remaining (rc # rcs) \<longleftrightarrow>
     (let offered = (if remaining = 0 then kWireFrameSize else remaining)
      in rc \<le> 0 \<or> rc \<le> int offered \<and> honest_stream (offered - nat rc) rcs)"

lemma honest_stream_answers:
  "honest_stream r rcs \<Longrightarrow> r \<le> kWireFrameSize \<Longrightarrow> honest_answers r rcs"
proof (induction r rcs rule: honest_stream.induct)
  case (2 r rc rcs)
  then show ?case by (auto simp: Let_def split: if_splits)
qed simp

lemma honest_stream_full: "honest_stream 0 rcs \<longleftrightarrow> honest_stream kWireFrameSize rcs"
  by (cases rcs) simp_all

lemma honest_stream_after:
  assumes "send_loop bytes sent rcs passed = (True, passed', rcs')" "honest_stream (length bytes - sent) rcs"
    and "sent \<le> length bytes"
  shows "honest_stream 0 rcs'"
  using assms
proof (induction bytes sent rcs passed rule: send_loop.induct)
  case (2 bytes sent rc rcs passed)
  show ?case
  proof (cases "sent < length bytes")
    case True
    then have rc: "0 < rc" using "2.prems"(1) by (auto split: if_splits)
    then have "honest_stream (length bytes - (sent + nat rc)) rcs" "sent + nat rc \<le> length bytes"
      using "2.prems"(2) True by (auto simp: Let_def split: if_splits)
    then show ?thesis using "2.IH" [OF True refl refl] True rc "2.prems"(1) by simp
  next
    case False
    then show ?thesis using "2.prems" by simp
  qed
qed simp

lemma send_bytes_honest:
  assumes "send_bytes bytes rcs s = (ok, passed, rcs', s')" "length bytes = kWireFrameSize" "honest_stream 0 rcs"
  shows "prefix passed bytes \<and> (ok \<longrightarrow> passed = bytes \<and> honest_stream 0 rcs' \<and>
    ts_sent_frames s' = ts_sent_frames s + 1)"
proof (cases "ts_socket s = kInvalidSocket")
  case True
  then show ?thesis using assms(1) by (auto simp: send_bytes_def)
next
  case False
  have full: "honest_stream (length bytes) rcs" using assms(2,3) honest_stream_full by simp
  obtain ok1 passed1 rcs1 where loop: "send_loop bytes 0 rcs [] = (ok1, passed1, rcs1)" by (metis prod_cases3)
  have "prefix passed1 bytes \<and> (ok1 \<longleftrightarrow> passed1 = bytes)"
    by (rule send_loop_spec [OF _ _ _ loop]) (use honest_stream_answers [OF full] assms(2) in simp_all)
  moreover have "ok1 \<Longrightarrow> honest_stream 0 rcs1"
    using honest_stream_after [of bytes 0 rcs "[]" passed1 rcs1] loop full by simp
  ultimately show ?thesis
    using assms(1) False loop by (cases ok1) (auto simp: send_bytes_def)
qed

section \<open>The frame that is sent\<close>

text \<open>
  A frame the receiver accepts, at the rate and with the module of the command line; the module of a
  replayed frame is only checked if --module-id was given.
\<close>

definition sendable :: "sender_options \<Rightarrow> bytes \<Rightarrow> bool" where
  "sendable opts wire \<longleftrightarrow> acceptable wire
     \<and> hdr_sample_rate_hz (fr_header (frame_at wire)) = so_rate_hz opts
     \<and> (so_input_path opts = [] \<or> so_validate_input_module opts \<longrightarrow> hdr_module_id (fr_header (frame_at wire)) = so_module_id opts)"

definition generated :: "sender_options \<Rightarrow> u64 \<Rightarrow> u64 \<Rightarrow> bytes" where
  "generated opts timestamp frame_id =
     encode_frame (fill_frame default_frame frame_id timestamp (so_module_id opts) (so_rate_hz opts))"

lemma encode_fill_any: "encode_frame (fill_frame f i ts m r) = encode_frame (fill_frame g i ts m r)"
  by (simp add: encode_frame_def serialize_frame_layout fill_frame_payload sealed_frame_def sealed_header_def
      fill_frame_header)

lemma encode_into_eq: "encode_frame_into f out = encode_frame f"
  by (simp add: encode_frame_into_def serialize_frame_into_ignores encode_frame_def)

lemma generated_frame:
  assumes "0 < so_rate_hz opts" "so_rate_hz opts \<le> kMaxSampleRateHz"
  shows "acceptable (generated opts ts i)"
    "frame_at (generated opts ts i) = sealed_frame (fill_frame default_frame i ts (so_module_id opts) (so_rate_hz opts))"
  unfolding generated_def encode_frame_def
  by (rule serialized_acceptable; simp add: fill_frame_payload header_fields_ok_fill assms)+

lemma generated_sendable:
  assumes "0 < so_rate_hz opts" "so_rate_hz opts \<le> kMaxSampleRateHz"
  shows "sendable opts (generated opts ts i)"
  by (simp add: sendable_def generated_frame [OF assms] sealed_frame_header fill_frame_header)

lemma deserialize_message: "deserialize_frame_into wire f = (Inl message, f') \<Longrightarrow> message \<noteq> []"
  by (auto simp: deserialize_frame_into_def decode_header_def Let_def split: prod.splits sum.splits if_splits)

lemma input_problem_ok:
  assumes "input_problem wire f = ([], g)"
  shows "acceptable wire \<and> g = frame_at wire"
proof (cases "well_sized wire")
  case True
  then show ?thesis using assms by (auto simp: input_problem_def deserialize_well_sized acceptable_def)
next
  case False
  then have "fst (deserialize_frame_into wire f) \<noteq> Inr ()" by (simp add: deserialize_ok_iff)
  then show ?thesis
    using assms deserialize_message [of wire f] by (auto simp: input_problem_def split: prod.splits sum.splits)
qed

section \<open>The invariant of the loop\<close>

definition input_frames :: "sender_env \<Rightarrow> sender_options \<Rightarrow> bytes list" where
  "input_frames env opts = files_frames (se_fs env) (capture_files (se_fs env) (to_path (so_input_path opts)))"

definition generated_frames :: "sender_env \<Rightarrow> sender_options \<Rightarrow> nat \<Rightarrow> bytes list" where
  "generated_frames env opts k =
     map (\<lambda>i. generated opts (monotonic_ns (te_monotonic (se_turn env (of_nat i)))) (of_nat i)) [0..<k]"

text \<open>
  The frames that are saved do not touch the files that are replayed: nothing is saved, or no input file
  lies in the directory that the segments are written to.
\<close>

definition input_undisturbed :: "sender_env \<Rightarrow> sender_options \<Rightarrow> bool" where
  "input_undisturbed env opts \<longleftrightarrow> so_save_sent_dir opts = []
     \<or> (\<forall>p\<in>set (capture_files (se_fs env) (to_path (so_input_path opts))).
          \<not> in_directory (to_path (so_save_sent_dir opts)) p)"

definition files_in_place :: "sender_env \<Rightarrow> sender_options \<Rightarrow> sending \<Rightarrow> bool" where
  "files_in_place env opts st \<longleftrightarrow> (input_undisturbed env opts \<longrightarrow>
     (\<forall>p\<in>set (capture_files (se_fs env) (to_path (so_input_path opts))).
        file_contents (sg_fs st) p = file_contents (se_fs env) p))"

lemma input_undisturbed_unsaved [simp]: "so_save_sent_dir opts = [] \<Longrightarrow> input_undisturbed env opts"
  by (simp add: input_undisturbed_def)

lemma files_in_place_same [simp]: "sg_fs st = se_fs env \<Longrightarrow> files_in_place env opts st"
  by (simp add: files_in_place_def)

definition source_inv :: "sender_env \<Rightarrow> sender_options \<Rightarrow> bytes list \<Rightarrow> sending \<Rightarrow> bool" where
  "source_inv env opts frames st \<longleftrightarrow>
     (case sg_input st of
        None \<Rightarrow> so_input_path opts = [] \<and> frames = generated_frames env opts (length frames)
      | Some r \<Rightarrow> so_input_path opts \<noteq> [] \<and> length (sg_bytes st) = kWireFrameSize
                 \<and> rd_files r = capture_files (se_fs env) (to_path (so_input_path opts))
                 \<and> (input_undisturbed env opts \<longrightarrow> input_frames env opts = frames @ rest_frames (se_fs env) r))"

definition saved_inv :: "sender_env \<Rightarrow> sender_options \<Rightarrow> bytes list \<Rightarrow> sending \<Rightarrow> bool" where
  "saved_inv env opts frames st \<longleftrightarrow>
     (case sg_capture st of
        None \<Rightarrow> so_save_sent_dir opts = [] \<and> sg_fs st = se_fs env
      | Some w \<Rightarrow> so_save_sent_dir opts \<noteq> [] \<and> cw_root w = to_path (so_save_sent_dir opts) \<and> cw_frames_per_segment w = 10000
                 \<and> writer_inv (se_fs env) frames (w, sg_fs st)
                 \<and> (\<forall>q. \<not> in_directory (cw_root w) q \<longrightarrow> file_contents (sg_fs st) q = file_contents (se_fs env) q))"

lemma saved_files_in_place:
  assumes "saved_inv env opts frames st"
  shows "files_in_place env opts st"
  using assms by (auto simp: saved_inv_def files_in_place_def input_undisturbed_def split: option.splits)

definition sender_inv :: "sender_env \<Rightarrow> sender_options \<Rightarrow> bytes list \<Rightarrow> sending \<Rightarrow> bool" where
  "sender_inv env opts frames st \<longleftrightarrow>
     sg_wire st = concat frames \<and> (\<forall>f\<in>set frames. sendable opts f) \<and> honest_stream 0 (sg_answers st)
     \<and> ts_sent_frames (sg_sender st) = of_nat (length frames) \<and> source_inv env opts frames st
     \<and> saved_inv env opts frames st"

lemma input_failure_simps [simp]:
  "sg_wire (input_failure a b st) = sg_wire st" "sg_wire (log_failure a st) = sg_wire st"
  by (simp_all add: input_failure_def log_failure_def)

lemma replay_frame_spec:
  assumes "replay_frame opts frame_id r st = (ok, st1)" "length (sg_bytes st) = kWireFrameSize"
    and "so_input_path opts \<noteq> []"
  shows "sg_wire st1 = sg_wire st \<and> sg_answers st1 = sg_answers st \<and> sg_sender st1 = sg_sender st
    \<and> sg_capture st1 = sg_capture st \<and> sg_fs st1 = sg_fs st
    \<and> (ok \<longrightarrow> sendable opts (sg_bytes st1) \<and> (\<exists>r1. sg_input st1 = Some r1 \<and> rd_files r1 = rd_files r
         \<and> rest_frames (sg_fs st) r = sg_bytes st1 # rest_frames (sg_fs st) r1))"
proof -
  obtain more wire r1 where nx: "reader_next (sg_fs st) (sg_bytes st) r = (more, wire, r1)" by (metis prod_cases3)
  obtain problem frame where pr: "input_problem wire (sg_frame st) = (problem, frame)" by (metis surj_pair)
  show ?thesis
  proof (cases more)
    case True
    then have "reader_next (sg_fs st) (sg_bytes st) r = (True, wire, r1)" using nx by simp
    then have rest: "rest_frames (sg_fs st) r = wire # rest_frames (sg_fs st) r1"
      using rd.next_frame [OF assms(2)] by blast
    have files: "rd_files r1 = rd_files r"
      using nx next_loop_spec [of "sg_fs st" "sg_bytes st" r] assms(2) by (simp add: reader_next_def)
    show ?thesis
      using assms(1,3) True nx pr rest files input_problem_ok [of wire "sg_frame st" frame]
      by (auto simp: replay_frame_def input_failure_def sendable_def Let_def split: if_splits)
  next
    case False
    then show ?thesis using assms(1) nx by (auto simp: replay_frame_def input_failure_def)
  qed
qed

lemma generated_frames_Suc: "generated_frames env opts (Suc k) = generated_frames env opts k
    @ [generated opts (monotonic_ns (te_monotonic (se_turn env (of_nat k)))) (of_nat k)]"
  by (simp add: generated_frames_def)

lemma prepare_frame_spec:
  assumes "prepare_frame opts (se_turn env (of_nat (length frames))) (of_nat (length frames)) st = (ok, st1)"
    and "source_inv env opts frames st" "0 < so_rate_hz opts" "so_rate_hz opts \<le> kMaxSampleRateHz"
    and "files_in_place env opts st"
  shows "sg_wire st1 = sg_wire st \<and> sg_answers st1 = sg_answers st \<and> sg_sender st1 = sg_sender st
    \<and> sg_capture st1 = sg_capture st \<and> sg_fs st1 = sg_fs st
    \<and> (ok \<longrightarrow> sendable opts (sg_bytes st1) \<and> source_inv env opts (frames @ [sg_bytes st1]) st1)"
proof (cases "sg_input st")
  case None
  let ?ts = "monotonic_ns (te_monotonic (se_turn env (of_nat (length frames))))"
  have "encode_frame_into (fill_frame (sg_frame st) (of_nat (length frames)) ?ts (so_module_id opts) (so_rate_hz opts)) (sg_bytes st)
      = generated opts ?ts (of_nat (length frames))"
    unfolding encode_into_eq generated_def by (rule encode_fill_any)
  then have st1: "ok" "sg_bytes st1 = generated opts ?ts (of_nat (length frames))" "sg_input st1 = None"
    "sg_wire st1 = sg_wire st" "sg_answers st1 = sg_answers st" "sg_sender st1 = sg_sender st"
    "sg_capture st1 = sg_capture st" "sg_fs st1 = sg_fs st"
    using assms(1) None by (auto simp: prepare_frame_def Let_def)
  then show ?thesis
    using assms(2-4) None generated_sendable [of opts ?ts "of_nat (length frames)"]
    by (simp add: source_inv_def generated_frames_Suc)
next
  case (Some r)
  then have size: "length (sg_bytes st) = kWireFrameSize"
    and path: "so_input_path opts \<noteq> []"
    and files: "rd_files r = capture_files (se_fs env) (to_path (so_input_path opts))"
    and rest: "input_undisturbed env opts \<longrightarrow> input_frames env opts = frames @ rest_frames (se_fs env) r"
    using assms(2) by (simp_all add: source_inv_def)
  have same: "rest_frames (sg_fs st) r' = rest_frames (se_fs env) r'"
    if "rd_files r' = rd_files r" "input_undisturbed env opts" for r'
    using assms(5) files that by (intro rest_frames_cong) (simp add: files_in_place_def)
  have run: "replay_frame opts (of_nat (length frames)) r st = (ok, st1)" using assms(1) Some by (simp add: prepare_frame_def)
  have "sendable opts (sg_bytes st1) \<Longrightarrow> length (sg_bytes st1) = kWireFrameSize"
    by (simp add: sendable_def acceptable_length)
  then show ?thesis
    using replay_frame_spec [OF run size path] rest path files same by (fastforce simp: source_inv_def)
qed

text \<open>What an aborted run has sent: whole frames, and the beginning of one more.\<close>

definition sent_in_part :: "sender_options \<Rightarrow> bytes list \<Rightarrow> bytes \<Rightarrow> bool" where
  "sent_in_part opts frames wire \<longleftrightarrow>
     (\<exists>part f. wire = concat frames @ part \<and> prefix part f \<and> (part = [] \<or> sendable opts f))"

lemma note_times_fields [simp]:
  "sg_wire (note_times opts sch env i st) = sg_wire st" "sg_answers (note_times opts sch env i st) = sg_answers st"
  "sg_sender (note_times opts sch env i st) = sg_sender st" "sg_capture (note_times opts sch env i st) = sg_capture st"
  "sg_fs (note_times opts sch env i st) = sg_fs st" "sg_input (note_times opts sch env i st) = sg_input st"
  "sg_bytes (note_times opts sch env i st) = sg_bytes st"
  by (simp_all add: note_times_def Let_def)

lemma note_frame_id_fields [simp]:
  "sg_wire (note_frame_id i st) = sg_wire st" "sg_answers (note_frame_id i st) = sg_answers st"
  "sg_sender (note_frame_id i st) = sg_sender st" "sg_capture (note_frame_id i st) = sg_capture st"
  "sg_fs (note_frame_id i st) = sg_fs st" "sg_input (note_frame_id i st) = sg_input st"
  "sg_bytes (note_frame_id i st) = sg_bytes st"
  by (simp_all add: note_frame_id_def Let_def)

lemma source_inv_cong:
  "sg_input t = sg_input s \<Longrightarrow> sg_bytes t = sg_bytes s \<Longrightarrow> 
    source_inv env opts frames t = source_inv env opts frames s"
  by (simp add: source_inv_def split: option.splits)

lemma saved_inv_cong:
  "sg_capture t = sg_capture s \<Longrightarrow> sg_fs t = sg_fs s \<Longrightarrow> saved_inv env opts frames t = saved_inv env opts frames s"
  by (simp add: saved_inv_def split: option.split)

lemma save_frame_spec:
  assumes "save_frame env st = (ok, st1)" "saved_inv senv opts frames st" "length frames + 1 < 2 ^ 64"
  shows "sg_wire st1 = sg_wire st \<and> sg_answers st1 = sg_answers st \<and> sg_sender st1 = sg_sender st
    \<and> sg_input st1 = sg_input st \<and> sg_bytes st1 = sg_bytes st \<and> (sg_capture st1 = None \<longleftrightarrow> sg_capture st = None)
    \<and> (ok \<longrightarrow> saved_inv senv opts (frames @ [sg_bytes st]) st1)"
proof (cases "sg_capture st")
  case None
  then show ?thesis using assms(1,2) by (auto simp: save_frame_def saved_inv_def)
next
  case (Some w)
  obtain wrote w1 fs where run: "write_frame (sg_bytes st) env (w, sg_fs st) = (wrote, w1, fs)" by (metis prod_cases3)
  have "writer_inv (se_fs senv) frames (w, sg_fs st)" using assms(2) Some by (simp add: saved_inv_def)
  from write_frame_inv [OF this _ assms(3)] write_frame_elsewhere [OF this run] show ?thesis
    using assms(1,2) Some run write_frame_config [OF run] by (auto simp: save_frame_def saved_inv_def)
qed

lemma send_turn_spec:
  assumes "send_turn opts start (se_turn env (of_nat (length frames))) (of_nat (length frames)) st = (res, st')"
    and inv: "sender_inv env opts frames st" and rate: "0 < so_rate_hz opts" "so_rate_hz opts \<le> kMaxSampleRateHz"
    and n: "length frames + 1 < 2 ^ 64"
  shows "case res of
      None \<Rightarrow> \<exists>f. sender_inv env opts (frames @ [f]) st'
    | Some c \<Rightarrow> c \<in> {2, 9, 10} \<and> sent_in_part opts frames (sg_wire st')"
proof -
  let ?id = "of_nat (length frames) :: u64" and ?te = "se_turn env (of_nat (length frames))"
  have src: "source_inv env opts frames st" and wire: "sg_wire st = concat frames"
    and saved: "saved_inv env opts frames st" and honest: "honest_stream 0 (sg_answers st)"
    using inv by (auto simp: sender_inv_def)
  note fs = saved_files_in_place [OF saved]
  obtain ok st1 where pr: "prepare_frame opts ?te ?id st = (ok, st1)" by (metis surj_pair)
  note prep = prepare_frame_spec [OF pr src rate fs]
  show ?thesis
  proof (cases ok)
    case False
    then have "res = Some 10" "st' = st1" using assms(1) pr by (auto simp: send_turn_def)
    then show ?thesis using prep wire by (auto simp: sent_in_part_def)
  next
    case ready: True
    let ?st1 = "note_frame_id ?id st1"
    have good: "sendable opts (sg_bytes st1)" and size: "length (sg_bytes st1) = kWireFrameSize"
      using prep ready by (simp_all add: sendable_def acceptable_length)
    obtain sent passed answers sender where sb: "send_bytes (sg_bytes st1) (sg_answers st1) (sg_sender st1)
        = (sent, passed, answers, sender)" by (metis prod_cases4)
    let ?st2 = "?st1\<lparr>sg_sender := sender, sg_answers := answers, sg_wire := sg_wire ?st1 @ passed\<rparr>"
    have ps: "pass_frame ?st1 = (sent, ?st2)" using sb by (simp add: pass_frame_def)
    have hon: "prefix passed (sg_bytes st1)"
      and hon_ok: "sent \<longrightarrow> passed = sg_bytes st1 \<and> honest_stream 0 answers \<and> ts_sent_frames sender = ts_sent_frames (sg_sender st1) + 1"
      using send_bytes_honest [OF sb size] prep honest by auto
    show ?thesis
    proof (cases sent)
      case False
      then have "res = Some 2" "sg_wire st' = sg_wire st1 @ passed"
        using assms(1) pr ready ps by (auto simp: send_turn_def)
      then show ?thesis using prep wire hon good by (auto simp: sent_in_part_def)
    next
      case sent: True
      obtain kept st3 where sv: "save_frame (te_write ?te) ?st2 = (kept, st3)" by (metis surj_pair)
      have "saved_inv env opts frames ?st2" using saved prep saved_inv_cong [of ?st2 st env opts frames] by simp
      note save = save_frame_spec [OF sv this n]
      have wire3: "sg_wire st3 = concat (frames @ [sg_bytes st1])" using save prep wire hon_ok sent by simp
      show ?thesis
      proof (cases kept)
        case False
        then have "res = Some 9" "sg_wire st' = sg_wire st3"
          using assms(1) pr ready ps sent sv by (auto simp: send_turn_def)
        then show ?thesis using wire3 good by (auto simp: sent_in_part_def intro!: exI [of _ "sg_bytes st1"])
      next
        case True
        then have st': "res = None" "st' = note_times opts (scheduled_at start (so_rate_hz opts) ?id) ?te ?id st3"
          using assms(1) pr ready ps sent sv by (auto simp: send_turn_def)
        have "source_inv env opts (frames @ [sg_bytes st1]) st'"
          using prep ready save by (subst source_inv_cong [of _ st1]) (simp_all add: st')
        moreover have "saved_inv env opts (frames @ [sg_bytes st1]) st'" 
          using save True saved_inv_cong [of st' st3] by (simp add: st')
        ultimately have "sender_inv env opts (frames @ [sg_bytes st1]) st'"
          using inv wire3 good save prep hon_ok sent by (auto simp: sender_inv_def st' add.commute)
        then show ?thesis using st' by auto
      qed
    qed
  qed
qed

lemma send_frames_spec:
  assumes "send_frames opts start (se_turn env) n (of_nat (length frames)) st = (res, st')"
    and "sender_inv env opts frames st" and rate: "0 < so_rate_hz opts" "so_rate_hz opts \<le> kMaxSampleRateHz"
    and "length frames + n < 2 ^ 64"
  shows "case res of
      None \<Rightarrow> \<exists>fs. length fs = n \<and> sender_inv env opts (frames @ fs) st'
    | Some c \<Rightarrow> c \<in> {2, 9, 10} \<and> (\<exists>fs. length fs < n \<and> (\<forall>f\<in>set fs. sendable opts f)
                                \<and> sent_in_part opts (frames @ fs) (sg_wire st'))"
  using assms(1,2,5)
proof (induction n arbitrary: frames st)
  case 0
  then show ?case by (auto intro!: exI [of _ "[]"])
next
  case (Suc n)
  obtain r st1 where turn: "send_turn opts start (se_turn env (of_nat (length frames))) (of_nat (length frames)) st = (r, st1)"
    by (metis surj_pair)
  note spec = send_turn_spec [OF turn Suc.prems(2) rate]
  show ?case
  proof (cases r)
    case (Some c)
    then show ?thesis
      using spec Suc.prems(1,3) turn by (auto intro!: exI [of _ "[]"])
  next
    case None
    then obtain f where f: "sender_inv env opts (frames @ [f]) st1" using spec Suc.prems(3) by auto
    have "send_frames opts start (se_turn env) n (of_nat (length (frames @ [f]))) st1 = (res, st')"
      using Suc.prems(1) turn None by (simp add: add.commute)
    from Suc.IH [OF this f] Suc.prems(3)
    have IH: "case res of None \<Rightarrow> \<exists>fs. length fs = n \<and> sender_inv env opts ((frames @ [f]) @ fs) st'
      | Some c \<Rightarrow> c \<in> {2, 9, 10} \<and> (\<exists>fs. length fs < n \<and> (\<forall>f\<in>set fs. sendable opts f)
          \<and> sent_in_part opts ((frames @ [f]) @ fs) (sg_wire st'))" by simp
    have "sendable opts f" using f by (simp add: sender_inv_def)
    show ?thesis
    proof (cases res)
      case None
      then obtain fs where "length fs = n" "sender_inv env opts ((frames @ [f]) @ fs) st'" using IH by auto
      then show ?thesis using None by (auto intro!: exI [of _ "f # fs"])
    next
      case (Some c)
      then obtain fs where "length fs < n" "\<forall>f\<in>set fs. sendable opts f" "c \<in> {2, 9, 10}"
        "sent_in_part opts ((frames @ [f]) @ fs) (sg_wire st')" using IH by auto
      then show ?thesis using Some \<open>sendable opts f\<close> by (auto intro!: exI [of _ "f # fs"])
    qed
  qed
qed

section \<open>The whole program\<close>

lemma connect_loop_count: "connect_loop binding attempts (s, w) = (ok, s', w') \<Longrightarrow> ts_sent_frames s' = ts_sent_frames s"
  by (induction binding attempts "(s, w)" arbitrary: s w rule: connect_loop.induct)
    (force simp: close_sender_def Let_def split: if_splits)+

lemma connect_to_count:
  "connect_to answer bind_host resolves (s, w) = (ok, s', w') \<Longrightarrow> ts_sent_frames s' = ts_sent_frames s"
  by (auto simp: connect_to_def close_sender_def Let_def dest: connect_loop_count
      split: if_splits option.splits prod.splits)

lemma new_sending_inv:
  assumes "new_sending env opts sender timing pio = Inr st" "ts_sent_frames sender = 0" "honest_stream 0 (se_answers env)"
  shows "sender_inv env opts [] st"
proof -
  have "source_inv env opts [] st" "saved_inv env opts [] st" "sg_wire st = []" "sg_answers st = se_answers env"
    "sg_sender st = sender"
    using assms(1) new_reader_rest(1) [of "se_fs env" "to_path (so_input_path opts)"]
      new_reader_files [of "se_fs env" "to_path (so_input_path opts)"]
      new_writer_inv [of 10000 "se_fs env" "to_path (so_save_sent_dir opts)"]
    by (auto simp: new_sending_def source_inv_def saved_inv_def generated_frames_def input_frames_def Let_def
        new_capture_writer_def split: option.splits if_splits)
  then show ?thesis using assms(2,3) by (simp add: sender_inv_def)
qed

lemma sender_start_inv:
  assumes "sender_start env opts = Inr st" "honest_stream 0 (se_answers env)"
  shows "sender_inv env opts [] st"
proof -
  obtain timing pio where "sender_connect env opts timing pio = Inr st"
    using assms(1) by (auto simp: sender_start_def Let_def split: prod.splits bool.splits option.splits if_splits)
  then obtain sender world pio1 where up: "connect_to (se_host_answer env) (so_bind_host opts) (se_bind_resolves env)
        (new_tcp_sender, se_world env) = (True, sender, world)" "new_sending env opts sender timing pio1 = Inr st"
    by (auto simp: sender_connect_def Let_def split: prod.splits if_splits sum.splits)
  have "ts_sent_frames sender = 0" using connect_to_count [OF up(1)] by (simp add: new_tcp_sender_def)
  then show ?thesis using new_sending_inv [OF up(2) _ assms(2)] by simp
qed

lemma sender_finish_spec:
  assumes "sender_finish show_double now env opts st = (c, st')" "sender_inv env opts frames st"
  shows "c \<in> {0, 8, 9} \<and> sg_wire st' = sg_wire st \<and> (c = 0 \<longrightarrow> saved_inv env opts frames st')"
proof (cases "sg_capture st")
  case None
  then show ?thesis
    using assms by (auto simp: sender_finish_def Let_def log_failure_def sender_inv_def saved_inv_def split: if_splits)
next
  case (Some w)
  obtain ok w1 where fl: "flush_writer (se_flush_ok env) w = (ok, w1)" by (metis surj_pair)
  have inv: "cw_root w1 = to_path (so_save_sent_dir opts) \<and> cw_frames_per_segment w1 = 10000 \<and>
      so_save_sent_dir opts \<noteq> [] \<and> (ok \<longrightarrow> writer_inv (se_fs env) frames (w1, sg_fs st))
      \<and> (\<forall>q. \<not> in_directory (cw_root w1) q \<longrightarrow> file_contents (sg_fs st) q = file_contents (se_fs env) q)"
    using assms(2) Some flush_writer_inv [OF fl, of frames "[]" "sg_fs st" "se_fs env"]
    by (simp add: sender_inv_def saved_inv_def)
  show ?thesis
  proof (cases ok)
    case True
    then show ?thesis
      using assms(1) Some fl inv by (auto simp: sender_finish_def Let_def log_failure_def saved_inv_def split: if_splits)
  next
    case False
    then show ?thesis using assms(1) Some fl by (auto simp: sender_finish_def Let_def)
  qed
qed

text \<open>The frames of a run, whatever its end.\<close>

lemma sender_main_spec:
  assumes parsed: "parse_sender_options args = Inr opts" and honest: "honest_stream 0 (se_answers env)"
    and run: "sender_main show_double now env args = (e, wire, fs)"
  shows "\<exists>frames st. (\<forall>f\<in>set frames. sendable opts f) \<and> length frames \<le> unat (so_frame_count opts)
    \<and> sent_in_part opts frames wire
    \<and> (e = Returned 0 (left_by e) \<longrightarrow>
         length frames = unat (so_frame_count opts) \<and> wire = concat frames \<and> source_inv env opts frames st
         \<and> saved_inv env opts frames st \<and> sg_fs st = fs)"
proof -
  have rate: "0 < so_rate_hz opts" "so_rate_hz opts \<le> kMaxSampleRateHz"
    using parse_sender_options_range [OF parsed] by (auto simp: word_less_nat_alt word_le_nat_alt)
  show ?thesis
  proof (cases "sender_start env opts")
    case (Inl e1)
    then have "e = e1" "wire = []" using run parsed by (simp_all add: sender_main_def)
    moreover have "e1 \<noteq> Returned 0 (left_by e1)"
      using Inl by (auto simp: sender_start_def sender_connect_def Let_def split: prod.splits bool.splits option.splits
          if_splits sum.splits)
    ultimately show ?thesis
      by (intro exI [of _ "[]"] exI [of _ undefined]) (auto simp: sent_in_part_def)
  next
    case (Inr st)
    let ?n = "unat (so_frame_count opts)"
    note inv = sender_start_inv [OF Inr honest]
    obtain res st1 where loop: "send_frames opts (se_schedule_start env) (se_turn env) ?n 0 st = (res, st1)"
      by (metis surj_pair)
    have spec: "case res of
        None \<Rightarrow> \<exists>fs. length fs = ?n \<and> sender_inv env opts ([] @ fs) st1
      | Some c \<Rightarrow> c \<in> {2, 9, 10} \<and> (\<exists>fs. length fs < ?n \<and> (\<forall>f\<in>set fs. sendable opts f)
                                    \<and> sent_in_part opts ([] @ fs) (sg_wire st1))"
      by (rule send_frames_spec [OF _ inv rate]) (use loop unat_u64_less in simp_all)
    show ?thesis
    proof (cases res)
      case (Some c)
      then obtain frames where f: "length frames < ?n" "\<forall>f\<in>set frames. sendable opts f"
        "sent_in_part opts frames (sg_wire st1)" "c \<in> {2, 9, 10}" using spec by auto
      moreover have "e = Returned c (sg_io st1)" "wire = sg_wire st1"
        using run parsed Inr loop Some by (simp_all add: sender_main_def)
      ultimately show ?thesis by (intro exI [of _ frames] exI [of _ st1]) auto
    next
      case None
      then obtain frames where f: "length frames = ?n" "sender_inv env opts frames st1" using spec by auto
      obtain c st2 where fin: "sender_finish show_double now env opts st1 = (c, st2)" by (metis surj_pair)
      have e: "e = Returned c (sg_io st2)" "wire = sg_wire st2" "fs = sg_fs st2"
        using run parsed Inr loop None fin by (simp_all add: sender_main_def)
      note fin' = sender_finish_spec [OF fin f(2)]
      have src: "source_inv env opts frames st1" and w: "sg_wire st1 = concat frames" and s: "\<forall>f\<in>set frames. sendable opts f"
        using f(2) by (simp_all add: sender_inv_def)
      let ?st = "st1\<lparr>sg_capture := sg_capture st2, sg_fs := sg_fs st2\<rparr>"
      have "c = 0 \<longrightarrow> source_inv env opts frames ?st \<and> saved_inv env opts frames ?st"
      proof
        assume "c = 0"
        then have sv: "saved_inv env opts frames st2" using fin' by simp
        have "saved_inv env opts frames ?st" using sv saved_inv_cong [of ?st st2] by simp
        then show "source_inv env opts frames ?st \<and> saved_inv env opts frames ?st"
          using src source_inv_cong [of ?st st1] by simp
      qed
      then show ?thesis
        using f(1) s w e fin' by (intro exI [of _ frames] exI [of _ ?st]) (auto simp: sent_in_part_def)
    qed
  qed
qed

section \<open>A run with one frame\<close>

definition one_send_options :: sender_options where
  "one_send_options = default_sender_options\<lparr>so_frame_count := 1, so_deadline_us := 5500\<rparr>"

definition quiet_sender_env :: sender_env where
  "quiet_sender_env = \<lparr>se_directories = True, se_log_file = Some [], se_metrics_file = Some [], se_timing_opens = True,
     se_timing_device = \<lparr>dv_room = 0, dv_spills = []\<rparr>, se_host_answer = Some [\<lparr>at_socket = 3, at_binds = [True], at_connects = True\<rparr>],
     se_bind_resolves = True, se_world = \<lparr>tw_open = [0, 1, 2], tw_address_lists = 0\<rparr>,
     se_answers = [13684], se_fs = [], se_schedule_start = 0,
     se_turn = (\<lambda>_. \<lparr>te_send_start = 0, te_monotonic = 0, te_socket_start = 0, te_send_end = 0,
       te_write = \<lparr>mkdir_ok = True, open_ok = True, accepts = 0\<rparr>\<rparr>), se_flush_ok = True, se_timing_flush_ok = True\<rparr>"

lemma parse_one_send: "parse_sender_options (sender_command_line one_send_options) = Inr one_send_options"
  by (rule parse_sender_command_line)
    (simp_all add: one_send_options_def default_sender_options_def sender_options_ok_def starts_with_def
      kMaxSampleRateHz_def kSampleRateHz_def)

lemma honest_quiet: "honest_stream 0 (se_answers quiet_sender_env)"
  by (simp add: quiet_sender_env_def kWireFrameSize_def)

section \<open>Properties\<close>

text \<open>
  C15: whatever happens during a run of the sender (a bad input file, a broken connection, a full disk),
  the connection has taken whole frames that the receiver's parser accepts, with the rate and, where it
  is checked, the module id of the command line, and at most the beginning of one more; and never more
  frames than were asked for.
\<close>

theorem sender_sends_only_valid:
  assumes "parse_sender_options args = Inr opts" and "honest_stream 0 (se_answers env)"
    and "sender_main show_double now env args = (e, wire, fs)"
  shows "\<exists>frames part f. wire = concat frames @ part \<and> prefix part f
    \<and> (\<forall>g\<in>set frames. sendable opts g) \<and> (part \<noteq> [] \<longrightarrow> sendable opts f)
    \<and> length frames \<le> unat (so_frame_count opts)"
  using sender_main_spec [OF assms] unfolding sent_in_part_def by blast

text \<open>
  C14: a run of the sender that returns 0 has sent exactly the frames asked for: the simulated frames
  with ids 0, 1, 2, ... in order, or the first frames of the input, byte for byte.  With --save-sent the
  segment files hold what was sent, and without it no file changes.  A replay may be saved at the same
  time; only when an input file lies in the very directory to which the segments are written (where they
  may truncate it while it is being read) nothing is said of what it sends.
\<close>

theorem sender_run_complete:
  assumes "parse_sender_options args = Inr opts" and "honest_stream 0 (se_answers env)"
    and "sender_main show_double now env args = (Returned 0 pio, wire, fs)"
  shows "\<exists>frames. wire = concat frames \<and> length frames = unat (so_frame_count opts)
    \<and> (\<forall>f\<in>set frames. sendable opts f)
    \<and> (so_input_path opts = [] \<longrightarrow> frames = generated_frames env opts (unat (so_frame_count opts)))
    \<and> (so_input_path opts \<noteq> [] \<and> input_undisturbed env opts \<longrightarrow>
         frames = take (unat (so_frame_count opts)) (input_frames env opts))
    \<and> (so_save_sent_dir opts = [] \<longrightarrow> fs = se_fs env)
    \<and> (so_save_sent_dir opts \<noteq> [] \<longrightarrow> (\<exists>w. cw_root w = to_path (so_save_sent_dir opts)
         \<and> cw_frames_per_segment w = 10000 \<and> writer_inv (se_fs env) frames (w, fs)))"
proof -
  obtain frames st where run: "\<forall>f\<in>set frames. sendable opts f" "length frames = unat (so_frame_count opts)"
    "wire = concat frames" and src: "source_inv env opts frames st" and saved: "saved_inv env opts frames st"
    and fs: "sg_fs st = fs"
    using sender_main_spec [OF assms] by auto
  have "so_input_path opts = [] \<longrightarrow> frames = generated_frames env opts (length frames)"
    using src by (simp add: source_inv_def split: option.splits)
  moreover have "so_input_path opts \<noteq> [] \<and> input_undisturbed env opts \<longrightarrow> frames = take (length frames) (input_frames env opts)"
    using src by (auto simp: source_inv_def split: option.splits)
  moreover have "so_save_sent_dir opts = [] \<longrightarrow> fs = se_fs env" "so_save_sent_dir opts \<noteq> [] \<longrightarrow> (\<exists>w. cw_root w = to_path (so_save_sent_dir opts)
         \<and> cw_frames_per_segment w = 10000 \<and> writer_inv (se_fs env) frames (w, fs))"
    using saved fs by (auto simp: saved_inv_def split: option.splits)
  ultimately show ?thesis using run by (intro exI [of _ frames]) simp
qed

lemma unat_ucast_up: "unat (ucast (r :: u16) :: u64) = unat r"
  using unat_less_exp [of r] by (simp add: unsigned_ucast_eq take_bit_nat_eq_self)

lemma sint_u64:
  assumes "unat (q :: u64) < 2 ^ 63"
  shows "sint q = int (unat q)"
proof -
  have u: "uint q = int (unat q)" by (rule uint_nat)
  have "signed_take_bit 63 (int (unat q)) = int (unat q)"
  proof (rule signed_take_bit_int_eq_self)
    show "- (2 ^ 63) \<le> int (unat q)" by (rule order_trans [of _ 0]) (simp_all only: of_nat_0_le_iff, simp)
    have "int (unat q) < int (2 ^ 63)" using assms by (simp only: of_nat_less_iff)
    then show "int (unat q) < 2 ^ 63" by (simp only: of_nat_power of_nat_numeral)
  qed
  then show ?thesis unfolding sint_uint u by simp
qed

text \<open>
  C38: frames are due at the times \<open>start + id / rate\<close>, rounded down to a nanosecond: the rounding does
  not accumulate, as the comment says, for the first 9.2 billion frames (106 days at 1000 frames per second).
\<close>

theorem schedule_exact:
  assumes "unat frame_id * 1000000000 < 2 ^ 63" and "rate \<noteq> 0"
  shows "scheduled_at start rate frame_id = start + int (unat frame_id * 1000000000 div unat rate)"
proof -
  let ?q = "frame_id * 1000000000 div ucast rate :: u64"
  have "unat (frame_id * 1000000000) = unat frame_id * 1000000000"
    using assms(1) by (subst unat_mult_lem [THEN iffD1]) simp_all
  then have q: "unat ?q = unat frame_id * 1000000000 div unat rate"
    by (simp add: unat_div unat_ucast_up)
  then have "unat ?q \<le> unat frame_id * 1000000000" by simp
  then have "unat ?q < 2 ^ 63" using assms(1) by (rule le_less_trans)
  then have "sint ?q = int (unat ?q)" by (rule sint_u64)
  then show ?thesis unfolding scheduled_at_def q by simp
qed

text \<open>
  After 213 days at 1000 frames per second the product \<open>frame_id * 1000000000\<close> overflows 64 bits, and
  the frame is due before the second frame of the run: the sender stops pacing and every frame counts
  as late.
\<close>

theorem schedule_wraps:
  "scheduled_at start 1000 18446744074 < scheduled_at start 1000 1
    \<and> 18446744074 div 1000 div 86400 = (213 :: nat)"
  by (simp add: scheduled_at_def)

section \<open>Instances\<close>

lemma prepare_frame_timing: "prepare_frame opts te i st = (ok, st1) \<Longrightarrow> sg_timing st1 = sg_timing st"
  by (auto simp: prepare_frame_def replay_frame_def input_failure_def Let_def split: option.splits prod.splits bool.splits if_splits)

text \<open>A run with one frame, generated or replayed, in which nothing goes wrong.\<close>

lemma one_frame_run:
  fixes files :: filesystem and turn :: "u64 \<Rightarrow> sender_turn"
  defines "env \<equiv> quiet_sender_env\<lparr>se_fs := files, se_turn := turn\<rparr>"
  assumes parsed: "parse_sender_options args = Inr opts" and one: "so_frame_count opts = 1"
    and plain: "so_timing_log opts = []" "so_bind_host opts = []"
    and input: "so_input_path opts = [] \<or> capture_files files (to_path (so_input_path opts)) \<noteq> []"
    and saves: "\<And>f. so_save_sent_dir opts \<noteq> [] \<Longrightarrow> length f = kWireFrameSize \<Longrightarrow>
      \<exists>w fs. write_frame f (te_write (turn 0)) (new_capture_writer (to_path (so_save_sent_dir opts)) 10000, files) = (True, w, fs)"
    and ready: "\<And>st. sender_start env opts = Inr st \<Longrightarrow> \<exists>st1. prepare_frame opts (turn 0) 0 st = (True, st1)"
  shows "\<exists>pio wire fs. sender_main show_double now env args = (Returned 0 pio, wire, fs)
    \<and> (so_save_sent_dir opts = [] \<longrightarrow> fs = files)
    \<and> (so_save_sent_dir opts \<noteq> [] \<longrightarrow> (\<exists>f w. write_frame f (te_write (turn 0))
          (new_capture_writer (to_path (so_save_sent_dir opts)) 10000, files) = (True, w, fs)))"
proof -
  let ?te = "turn 0" and ?dir = "so_save_sent_dir opts"
  define capture where "capture = (if ?dir \<noteq> [] then Some (new_capture_writer (to_path ?dir) 10000) else None)"
  have "\<exists>st. sender_start env opts = Inr st \<and> sg_capture st = capture \<and> sg_fs st = files
      \<and> sg_answers st = [13684] \<and> sg_timing st = unopened_stream \<and> ts_socket (sg_sender st) = 3"
    using input by (auto simp: env_def sender_start_def quiet_sender_env_def plain sender_connect_def connect_to_def close_sender_def
        new_tcp_sender_def new_sending_def Let_def open_handle_def kInvalidSocket_def new_capture_reader_def reader_ok_def capture_def)
  then obtain st where start: "sender_start env opts = Inr st"
    and st: "sg_capture st = capture" "sg_fs st = files" "sg_answers st = [13684]"
      "sg_timing st = unopened_stream" "ts_socket (sg_sender st) = 3" by blast
  obtain st1 where pr: "prepare_frame opts ?te 0 st = (True, st1)" using ready [OF start] by blast
  have rate: "0 < so_rate_hz opts" "so_rate_hz opts \<le> kMaxSampleRateHz"
    using parse_sender_options_range [OF parsed] by (auto simp: word_less_nat_alt word_le_nat_alt)
  have src: "source_inv env opts [] st"
    using sender_start_inv [OF start] honest_quiet by (simp add: sender_inv_def env_def quiet_sender_env_def)
  have turn: "se_turn env = turn" "se_fs env = files" "se_schedule_start env = 0" "se_flush_ok env"
    by (simp_all add: env_def quiet_sender_env_def)
  have "files_in_place env opts st" using st(2) turn(2) by simp
  note prep = prepare_frame_spec [of opts env "[]" st True st1, unfolded turn, simplified, OF pr src rate this]
  have same: "sg_capture st1 = capture" "sg_fs st1 = files" "sg_answers st1 = [13684]" "sg_sender st1 = sg_sender st"
    and good: "sendable opts (sg_bytes st1)"
    using prep st by simp_all
  have size: "length (sg_bytes st1) = kWireFrameSize" using acceptable_length [of "sg_bytes st1"] good by (simp add: sendable_def)
  then have sent: "send_loop (sg_bytes st1) 0 [13684] [] = (True, sg_bytes st1, [])"
    by (simp add: slice_def kWireFrameSize_def)
  define st2 where "st2 = snd (pass_frame (note_frame_id 0 st1))"
  have pass: "pass_frame (note_frame_id 0 st1) = (True, st2)" and st2: "sg_capture st2 = capture" "sg_fs st2 = files"
      "sg_timing st2 = unopened_stream" "sg_bytes st2 = sg_bytes st1"
    using sent same st(4,5) prepare_frame_timing [OF pr]
    by (simp_all add: st2_def pass_frame_def send_bytes_def kInvalidSocket_def note_frame_id_def Let_def)
  define st3 where "st3 = snd (save_frame (te_write ?te) st2)"
  have save: "save_frame (te_write ?te) st2 = (True, st3)" and timing: "sg_timing st3 = unopened_stream"
    and st3: "?dir = [] \<longrightarrow> sg_fs st3 = files \<and> sg_capture st3 = None"
      "?dir \<noteq> [] \<longrightarrow> (\<exists>w. sg_capture st3 = Some w \<and> write_frame (sg_bytes st1) (te_write ?te) (new_capture_writer (to_path ?dir) 10000, files)
          = (True, w, sg_fs st3))"
    using saves [OF _ size] st2 by (auto simp: st3_def save_frame_def capture_def)
  define st4 where "st4 = note_times opts (scheduled_at 0 (so_rate_hz opts) 0) ?te 0 st3"
  have st4: "sg_capture st4 = sg_capture st3" "sg_fs st4 = sg_fs st3" "\<not> st_good (sg_timing st4)"
    using timing by (simp_all add: st4_def note_times_def Let_def unopened_stream_def write_line_def)
  have loop: "send_frames opts 0 turn (Suc 0) 0 st = (None, st4)"
    using pr pass save by (simp add: send_turn_def st4_def)
  have flush: "fst (flush_writer True w)"
    if "write_frame f te (new_capture_writer (to_path ?dir) 10000, files) = (True, w, fs1)" for f te w fs1
  proof -
    have "writer_inv files [] (new_capture_writer (to_path ?dir) 10000, files)" by (rule new_writer_inv) simp
    from write_frame_inv [OF this that] have "cw_good w" by (simp add: writer_inv_def)
    then show ?thesis by (simp add: flush_writer_def Let_def)
  qed
  have "\<exists>st5. sender_finish show_double now env opts st4 = (0, st5) \<and> sg_fs st5 = sg_fs st4"
    using st3 st4 flush turn(4) by (cases "?dir = []") (fastforce simp: sender_finish_def Let_def split: prod.splits)+
  then obtain pio wire where run: "sender_main show_double now env args = (Returned 0 pio, wire, sg_fs st3)"
    using parsed start loop st4(2) by (auto simp: sender_main_def one turn)
  then show ?thesis using st3 by blast
qed

lemma quiet_run:
  "\<exists>pio wire. sender_main (\<lambda>_. []) [] quiet_sender_env (sender_command_line one_send_options) = (Returned 0 pio, wire, [])"
proof -
  have env: "quiet_sender_env\<lparr>se_fs := [], se_turn := se_turn quiet_sender_env\<rparr> = quiet_sender_env"
    by (simp add: quiet_sender_env_def)
  have opts: "so_input_path one_send_options = []" and plain: "so_timing_log one_send_options = []" "so_bind_host one_send_options = []"
    "so_frame_count one_send_options = 1" "so_save_sent_dir one_send_options = []"
    by (simp_all add: one_send_options_def default_sender_options_def)
  have "\<exists>st1. prepare_frame one_send_options te 0 st = (True, st1)" if "sender_start quiet_sender_env one_send_options = Inr st" for te st
    using sender_start_inv [OF that honest_quiet] opts
    by (auto simp: prepare_frame_def sender_inv_def source_inv_def Let_def split: option.splits)
  then show ?thesis
    using one_frame_run [OF parse_one_send, of "[]" "se_turn quiet_sender_env" "\<lambda>_. []" "[]"]
    by (simp add: env opts plain)
qed

theorem sender_sends_only_valid_witness:
  "\<exists>pio wire frames part. sender_main (\<lambda>_. []) [] quiet_sender_env (sender_command_line one_send_options) = (Returned 0 pio, wire, [])
     \<and> wire = concat frames @ part \<and> (\<forall>g\<in>set frames. sendable one_send_options g) \<and> length frames \<le> 1"
proof -
  obtain pio wire where run: "sender_main (\<lambda>_. []) [] quiet_sender_env (sender_command_line one_send_options)
    = (Returned 0 pio, wire, [])" using quiet_run by blast
  have "unat (so_frame_count one_send_options) = 1" by (simp add: one_send_options_def)
  then show ?thesis using run sender_sends_only_valid [OF parse_one_send honest_quiet run] by metis
qed

theorem sender_run_complete_witness:
  "\<exists>pio wire. sender_main (\<lambda>_. []) [] quiet_sender_env (sender_command_line one_send_options) = (Returned 0 pio, wire, [])
     \<and> wire = generated one_send_options 0 0"
proof -
  obtain pio wire where run: "sender_main (\<lambda>_. []) [] quiet_sender_env (sender_command_line one_send_options)
    = (Returned 0 pio, wire, [])" using quiet_run by blast
  have opts: "unat (so_frame_count one_send_options) = 1" "so_input_path one_send_options = []"
    by (simp_all add: one_send_options_def default_sender_options_def)
  have "wire = concat (generated_frames quiet_sender_env one_send_options 1)"
    using sender_run_complete [OF parse_one_send honest_quiet run] unfolding opts by blast
  then show ?thesis
    using run by (simp add: generated_frames_def quiet_sender_env_def monotonic_ns_def)
qed

theorem schedule_exact_witness: "scheduled_at 7 240 3 = 7 + 12500000"
  using schedule_exact [of 3 240 7] by simp

end
