(* ===== verification/Frame_Gen.thy ===== *)
theory Frame_Gen
  imports Sender_Properties
begin

text \<open>
  \<open>tools/frame_check/frame_gen.cpp\<close>: a file of simulated or pseudo-random frames for the sender's
  --input.  The frames are written through a \<open>CaptureWriter\<close> with one segment in a temporary directory,
  and the segment is renamed.  Relative paths start at the current directory, so the parent ``.'' of a
  bare file name is the empty path.
\<close>

unbundle bit_operations_syntax

section \<open>Options\<close>

record gen_options =
  go_output :: string
  go_frames :: u64
  go_module_id :: u16
  go_random :: bool
  go_seed :: u64
  go_rate_hz :: u16

definition default_gen_options :: gen_options where
  "default_gen_options =
     \<lparr>go_output = [], go_frames = 0, go_module_id = 0, go_random = False, go_seed = 0x434D4231,
      go_rate_hz = kSampleRateHz\<rparr>"

text \<open>The loop of \<open>parse\<close>; an option without a value is an unknown option.\<close>

fun parse_gen_args :: "string list \<Rightarrow> string list \<Rightarrow> gen_options \<Rightarrow> error + string list \<times> gen_options" where
  "parse_gen_args [] positional opts = Inr (positional, opts)"
| "parse_gen_args [arg] positional opts =
     (if starts_with ''--'' arg then Inl (Invalid_argument (''unknown option: '' @ arg))
      else Inr (positional @ [arg], opts))"
| "parse_gen_args (arg # v # rest) positional opts =
     (if arg = ''--module-id'' then
        and_then (std_stoul v) (\<lambda>value.
          if 65535 < value then Inl (Out_of_range ''module_id must be in 0..65535'')
          else parse_gen_args rest positional (opts\<lparr>go_module_id := ucast value\<rparr>))
      else if arg = ''--pattern'' then
        (if v \<noteq> ''counter'' \<and> v \<noteq> ''random'' then Inl (Invalid_argument ''pattern must be counter or random'')
         else parse_gen_args rest positional (opts\<lparr>go_random := (v = ''random'')\<rparr>))
      else if arg = ''--rate-hz'' then
        and_then (std_stoul v) (\<lambda>value.
          if value = 0 \<or> ucast kMaxSampleRateHz < value
          then Inl (Out_of_range (''rate_hz must be in 1..'' @ to_string (unat kMaxSampleRateHz)))
          else parse_gen_args rest positional (opts\<lparr>go_rate_hz := ucast value\<rparr>))
      else if arg = ''--seed'' then
        and_then (std_stoull v) (\<lambda>value. parse_gen_args rest positional (opts\<lparr>go_seed := value\<rparr>))
      else if starts_with ''--'' arg then Inl (Invalid_argument (''unknown option: '' @ arg))
      else parse_gen_args (v # rest) (positional @ [arg]) opts)"

definition parse_gen :: "string list \<Rightarrow> error + gen_options" where
  "parse_gen args =
     and_then (parse_gen_args args [] default_gen_options) (\<lambda>(positional, opts).
       if length positional \<noteq> 2 then Inl (Invalid_argument ''expected <output.bin> <frame_count>'')
       else and_then (std_stoull (positional ! 1)) (\<lambda>frames.
         if frames = 0 then Inl (Invalid_argument ''frame_count must be positive'')
         else Inr (opts\<lparr>go_output := positional ! 0, go_frames := frames,
                        go_seed := (if go_seed opts = 0 then 1 else go_seed opts)\<rparr>)))"

section \<open>Random samples\<close>

text \<open>The value returned and the new state.\<close>

definition xorshift64star :: "u64 \<Rightarrow> u64 \<times> u64" where
  "xorshift64star state =
     (let s1 = state XOR drop_bit 12 state;
          s2 = s1 XOR push_bit 25 s1;
          s3 = s2 XOR drop_bit 27 s2
      in (s3 * 0x2545F4914F6CDD1D, s3))"

definition random_sample :: "u64 \<Rightarrow> complex_sample \<times> u64" where
  "random_sample state =
     (let (word, state') = xorshift64star state
      in (\<lparr>re = ucast word, im = ucast (drop_bit 32 word)\<rparr>, state'))"

text \<open>The range-based loop over the payload.\<close>

fun random_samples :: "nat \<Rightarrow> u64 \<Rightarrow> complex_sample list \<times> u64" where
  "random_samples 0 state = ([], state)"
| "random_samples (Suc n) state =
     (let (sample, state1) = random_sample state; (samples, state2) = random_samples n state1
      in (sample # samples, state2))"

section \<open>The frames\<close>

record generating =
  gn_state :: u64
  gn_frame :: frame
  gn_bytes :: bytes
  gn_writer :: capture_writer
  gn_fs :: filesystem

definition gen_payload :: "bool \<Rightarrow> u64 \<Rightarrow> frame \<Rightarrow> frame \<times> u64" where
  "gen_payload random state frame =
     (if random
      then let (samples, state') = random_samples (length (fr_payload frame)) state
           in (frame\<lparr>fr_payload := samples\<rparr>, state')
      else (frame, state))"

text \<open>One turn of the loop; \<open>False\<close> ends the program with code 1.\<close>

definition gen_turn :: "gen_options \<Rightarrow> write_env \<Rightarrow> u64 \<Rightarrow> generating \<Rightarrow> bool \<times> generating" where
  "gen_turn opts env frame_id g =
     (let filled = fill_frame (gn_frame g) frame_id (frame_id * 1000000000 div ucast (go_rate_hz opts)) (go_module_id opts)
                     (go_rate_hz opts);
          (frame, state) = gen_payload (go_random opts) (gn_state g) filled;
          bytes = serialize_frame_into frame (gn_bytes g);
          (wrote, w, fs) = write_frame bytes env (gn_writer g, gn_fs g)
      in (wrote, \<lparr>gn_state = state, gn_frame = frame, gn_bytes = bytes, gn_writer = w, gn_fs = fs\<rparr>))"

text \<open>The loop, with the number of turns that are left; \<open>Inl\<close> is the id of the frame that was not written.\<close>

fun gen_loop :: "gen_options \<Rightarrow> (u64 \<Rightarrow> write_env) \<Rightarrow> nat \<Rightarrow> u64 \<Rightarrow> generating \<Rightarrow> (u64 + unit) \<times> generating" where
  "gen_loop opts env 0 frame_id g = (Inr (), g)"
| "gen_loop opts env (Suc n) frame_id g =
     (case gen_turn opts (env frame_id) frame_id g of
        (False, g1) \<Rightarrow> (Inl frame_id, g1)
      | (True, g1) \<Rightarrow> gen_loop opts env n (frame_id + 1) g1)"

section \<open>The program\<close>

definition under :: "path \<Rightarrow> path \<Rightarrow> bool" where
  "under dir p \<longleftrightarrow> prefix (components dir) (components p)"

definition remove_all :: "path \<Rightarrow> filesystem \<Rightarrow> filesystem" where
  "remove_all dir fs = filter (\<lambda>(p, _). \<not> under dir p) fs"

text \<open>\<open>std::filesystem::rename\<close> of a file; a missing source or a directory in the way is an error.\<close>

definition rename_file :: "path \<Rightarrow> path \<Rightarrow> filesystem \<Rightarrow> filesystem option" where
  "rename_file source target fs =
     (case map_of fs source of
        Some node \<Rightarrow> if is_directory fs target then None else Some (set_node target node (AList.delete source fs))
      | None \<Rightarrow> None)"

text \<open>What the operating system answers; each file operation that may throw can be made to fail.\<close>

record gen_env =
  ge_remove_ok :: bool
  ge_write :: "u64 \<Rightarrow> write_env"
  ge_flush_ok :: bool
  ge_rename_ok :: bool
  ge_cleanup_ok :: bool

text \<open>The exit code with the lines of both streams, or an exception that nothing catches.\<close>

datatype gen_outcome = Gen_exit int "string list" "string list" | Gen_terminated

definition gen_usage :: string where
  "gen_usage = ''usage: frame_gen <output.bin> <frame_count> [--module-id <id>]'' @
     '' [--pattern counter|random] [--seed <n>] [--rate-hz <n>]''"

definition gen_tmp_dir :: "path \<Rightarrow> path" where
  "gen_tmp_dir output = Path (butlast (components output) @ [path_filename output @ ''.tmp''])"

definition gen_finish :: "gen_env \<Rightarrow> gen_options \<Rightarrow> filesystem \<Rightarrow> gen_outcome \<times> filesystem" where
  "gen_finish env opts fs =
     (let output = to_path (go_output opts); tmp_dir = gen_tmp_dir output
      in case (ge_rename_ok env, rename_file (path_join tmp_dir ''segment-000000.bin'') output fs) of
           (True, Some fs1) \<Rightarrow>
             if \<not> ge_cleanup_ok env then (Gen_terminated, fs1)
             else (Gen_exit 0
                     [''frame_gen wrote '' @ to_string (unat (go_frames opts)) @ '' frames ('' @
                      to_string (unat (go_frames opts * of_nat kWireFrameSize)) @ '' bytes) to '' @ go_output opts] [],
                   remove_all tmp_dir fs1)
         | _ \<Rightarrow> (Gen_terminated, fs))"

definition frame_gen :: "gen_env \<Rightarrow> filesystem \<Rightarrow> string list \<Rightarrow> gen_outcome \<times> filesystem" where
  "frame_gen env fs args =
     (case parse_gen args of
        Inl e \<Rightarrow> (Gen_exit 64 [] [gen_usage, ''frame_gen argument error: '' @ what e], fs)
      | Inr opts \<Rightarrow>
          let tmp_dir = gen_tmp_dir (to_path (go_output opts)) in
          if \<not> ge_remove_ok env then (Gen_terminated, fs)
          else
            let g = \<lparr>gn_state = go_seed opts, gn_frame = default_frame, gn_bytes = [],
                     gn_writer = new_capture_writer tmp_dir (go_frames opts), gn_fs = remove_all tmp_dir fs\<rparr>
            in case gen_loop opts (ge_write env) (unat (go_frames opts)) 0 g of
                 (Inl frame_id, g1) \<Rightarrow> (Gen_exit 1 [] [''frame_gen: failed to write frame '' @ to_string (unat frame_id)], gn_fs g1)
               | (Inr _, g1) \<Rightarrow>
                   if fst (flush_writer (ge_flush_ok env) (gn_writer g1)) then gen_finish env opts (gn_fs g1)
                   else (Gen_exit 1 [] [''frame_gen: failed to flush output''], gn_fs g1))"

section \<open>The generator of the random samples\<close>

lemma xor_drop_bit_inj:
  assumes "0 < k" "(x :: u64) XOR drop_bit k x = y XOR drop_bit k y"
  shows "x = y"
proof -
  have "bit x n = bit y n" if "64 - n = m" for m n :: nat
    using that
  proof (induction m arbitrary: n rule: less_induct)
    case (less m)
    show ?case
    proof (cases "n < 64")
      case True
      then have "bit x (k + n) = bit y (k + n)" using less.IH [of "64 - (k + n)"] less.prems assms(1) by simp
      then show ?thesis
        using arg_cong [OF assms(2), of "\<lambda>w. bit w n"] by (auto simp: bit_xor_iff bit_drop_bit_eq add.commute)
    next
      case False
      then show ?thesis by (simp add: impossible_bit)
    qed
  qed
  then have "bit x n = bit y n" for n by blast
  then show ?thesis by (rule bit_eqI)
qed

lemma xor_push_bit_inj:
  assumes "0 < k" "(x :: u64) XOR push_bit k x = y XOR push_bit k y"
  shows "x = y"
proof -
  have "bit x n = bit y n" for n
  proof (induction n rule: less_induct)
    case (less n)
    have "bit (x XOR push_bit k x) n = bit (y XOR push_bit k y) n" using assms(2) by simp
    moreover have "bit x (n - k) = bit y (n - k)" if "k \<le> n" using less.IH [of "n - k"] that assms(1) by simp
    ultimately show ?case by (auto simp: bit_simps)
  qed
  then show ?thesis by (simp add: bit_eq_iff)
qed

lemma xorshift_inj: "snd (xorshift64star x) = snd (xorshift64star y) \<Longrightarrow> x = y"
  unfolding xorshift64star_def Let_def snd_conv
  by (drule xor_drop_bit_inj [rotated], simp, drule xor_push_bit_inj [rotated], simp, drule xor_drop_bit_inj [rotated], simp)

lemma xorshift_zero: "snd (xorshift64star 0) = 0"
  by (simp add: xorshift64star_def)

lemma xorshift_word:
  assumes "x \<noteq> 0"
  shows "snd (xorshift64star x) \<noteq> 0" "fst (xorshift64star x) \<noteq> 0"
proof -
  show state: "snd (xorshift64star x) \<noteq> 0" using assms xorshift_inj [of x 0] xorshift_zero by auto
  have word: "fst (xorshift64star x) = snd (xorshift64star x) * 0x2545F4914F6CDD1D"
    by (simp add: xorshift64star_def Let_def)
  have "fst (xorshift64star x) * 6415128727920758069 = snd (xorshift64star x) * (0x2545F4914F6CDD1D * 6415128727920758069)"
    unfolding word by (simp only: mult.assoc)
  moreover have "(0x2545F4914F6CDD1D * 6415128727920758069 :: u64) = 1" by simp
  ultimately have "fst (xorshift64star x) * 6415128727920758069 = snd (xorshift64star x)" by (simp only: mult_1_right)
  then show "fst (xorshift64star x) \<noteq> 0" using state by auto
qed

section \<open>Options in range\<close>

definition gen_options_ok :: "gen_options \<Rightarrow> bool" where
  "gen_options_ok opts \<longleftrightarrow> 0 < go_rate_hz opts \<and> go_rate_hz opts \<le> kMaxSampleRateHz"

lemma gen_rate_ok:
  assumes "value \<noteq> 0" "\<not> ucast kMaxSampleRateHz < (value :: u64)"
  shows "0 < (ucast value :: u16) \<and> (ucast value :: u16) \<le> kMaxSampleRateHz"
proof -
  have "unat value \<le> 1000" using assms(2) by (simp add: kMaxSampleRateHz_def word_less_nat_alt)
  then have "unat (ucast value :: u16) = unat value" by (intro unat_ucast_u16) simp
  then show ?thesis
    using assms(1) \<open>unat value \<le> 1000\<close> by (simp add: kMaxSampleRateHz_def word_less_nat_alt word_le_nat_alt unat_gt_0)
qed

lemma gen_options_ok_simps [simp]:
  "gen_options_ok (opts\<lparr>go_module_id := m\<rparr>) = gen_options_ok opts" "gen_options_ok (opts\<lparr>go_random := b\<rparr>) = gen_options_ok opts"
  "gen_options_ok (opts\<lparr>go_seed := x\<rparr>) = gen_options_ok opts"
  "value \<noteq> 0 \<Longrightarrow> \<not> ucast kMaxSampleRateHz < (value :: u64) \<Longrightarrow> gen_options_ok (opts\<lparr>go_rate_hz := ucast value\<rparr>)"
  using gen_rate_ok by (simp_all add: gen_options_ok_def)

lemma gen_args_cases:
  assumes parsed: "parse_gen_args (arg # v # rest) positional opts = Inr res"
  obtains (skip) "parse_gen_args (v # rest) (positional @ [arg]) opts = Inr res"
  | (set) opts1 where "parse_gen_args rest positional opts1 = Inr res" "gen_options_ok opts \<longrightarrow> gen_options_ok opts1"
proof -
  consider (module) "arg = ''--module-id''" | (pattern) "arg = ''--pattern''" | (rate) "arg = ''--rate-hz''" | (seed) "arg = ''--seed''"
    | (pos) "arg \<noteq> ''--module-id''" "arg \<noteq> ''--pattern''" "arg \<noteq> ''--rate-hz''" "arg \<noteq> ''--seed''"
    by blast
  then show thesis
  proof cases
    case pos
    then show thesis
      using parsed skip by (auto simp only: parse_gen_args.simps if_False split: if_split_asm)
  qed (use parsed in \<open>auto simp: and_then_Inr_iff intro: set split: if_split_asm\<close>)
qed

lemma parse_gen_args_ok:
  "parse_gen_args args positional opts = Inr res \<Longrightarrow> gen_options_ok opts \<Longrightarrow> gen_options_ok (snd res)"
proof (induction "length args" arbitrary: args positional opts rule: less_induct)
  case less
  show ?case
  proof (cases "(args, positional, opts)" rule: parse_gen_args.cases)
    case (3 arg v rest pos o1)
    then have "parse_gen_args (arg # v # rest) positional opts = Inr res" using less.prems(1) by simp
    then show ?thesis
    proof (cases rule: gen_args_cases)
      case skip
      show ?thesis by (rule less.hyps [OF _ skip]) (use 3 less.prems(2) in simp_all)
    next
      case (set opts1)
      show ?thesis by (rule less.hyps [OF _ set(1)]) (use 3 less.prems(2) set(2) in simp_all)
    qed
  qed (use less.prems in \<open>auto split: if_splits\<close>)
qed

lemma parse_gen_ok:
  assumes "parse_gen args = Inr opts"
  shows "gen_options_ok opts \<and> go_frames opts \<noteq> 0 \<and> go_seed opts \<noteq> 0"
proof -
  have "gen_options_ok default_gen_options"
    by (simp add: gen_options_ok_def default_gen_options_def kSampleRateHz_def kMaxSampleRateHz_def)
  then show ?thesis
    using assms parse_gen_args_ok [of args "[]" default_gen_options]
    by (fastforce simp: parse_gen_def and_then_Inr_iff gen_options_ok_def split: if_splits prod.splits)
qed

section \<open>The frames written\<close>

text \<open>
  The time stamp of frame \<open>i\<close>: \<open>i / rate\<close> seconds, in nanoseconds and rounded down, as the comment at the
  head of the file says.  That is what the file holds for its first 18446744074 frames (252 terabytes);
  from then on the product \<open>i * 1000000000\<close> does not fit 64 bits and the stamps begin again near zero.
\<close>

definition gen_stamp :: "u16 \<Rightarrow> nat \<Rightarrow> nat" where
  "gen_stamp rate i =
     (if i < 18446744074 then i * 1000000000 div unat rate
      else i * 1000000000 mod 2 ^ 64 div unat rate)"

lemma gen_stamp_word: "unat (i * 1000000000 div ucast rate :: u64) = gen_stamp rate (unat i)"
proof -
  have "unat (i * 1000000000) = unat i * 1000000000 mod 2 ^ 64" by (simp add: unat_word_ariths(2))
  moreover have "unat i * 1000000000 mod 2 ^ 64 = unat i * 1000000000" if "unat i < 18446744074" using that by simp
  ultimately show ?thesis by (simp add: gen_stamp_def unat_div unat_ucast_up)
qed

text \<open>What frame number \<open>i\<close> of the file is.\<close>

definition gen_frame_ok :: "gen_options \<Rightarrow> u64 \<Rightarrow> bytes \<Rightarrow> bool" where
  "gen_frame_ok opts i wire \<longleftrightarrow> acceptable wire
     \<and> (let f = frame_at wire; h = fr_header f
        in hdr_frame_id h = i \<and> unat (hdr_timestamp_ns h) = gen_stamp (go_rate_hz opts) (unat i)
           \<and> hdr_module_id h = go_module_id opts \<and> hdr_sample_rate_hz h = go_rate_hz opts
           \<and> length (fr_payload f) = 1704
           \<and> (\<not> go_random opts \<longrightarrow> wire = encode_frame (fill_frame default_frame i
                (hdr_timestamp_ns h) (go_module_id opts) (go_rate_hz opts)))
           \<and> (go_random opts \<longrightarrow> (\<forall>x\<in>set (fr_payload f). re x \<noteq> 0 \<or> im x \<noteq> 0)))"

lemma random_sample_nonzero:
  assumes "state \<noteq> 0" "random_sample state = (x, state')"
  shows "state' \<noteq> 0 \<and> (re x \<noteq> 0 \<or> im x \<noteq> 0)"
proof -
  obtain w where w: "xorshift64star state = (w, state')" and x: "x = \<lparr>re = ucast w, im = ucast (drop_bit 32 w)\<rparr>"
    using assms(2) by (auto simp: random_sample_def split: prod.splits)
  have nz: "w \<noteq> 0" "state' \<noteq> 0" using xorshift_word [OF assms(1)] by (simp_all add: w)
  have "re x \<noteq> 0 \<or> im x \<noteq> 0"
  proof (rule ccontr)
    assume "\<not> (re x \<noteq> 0 \<or> im x \<noteq> 0)"
    then have low: "(ucast w :: u32) = 0" and high: "(ucast (drop_bit 32 w) :: u32) = 0" by (simp_all add: x)
    have "\<not> bit w n" for n
    proof (cases "n < 32")
      case True
      then show ?thesis using arg_cong [OF low, of "\<lambda>v. bit v n"] by (simp add: bit_ucast_iff)
    next
      case False
      then show ?thesis
        using arg_cong [OF high, of "\<lambda>v. bit v (n - 32)"] bit_imp_le_length [of w n]
        by (cases "n < 64") (auto simp: bit_ucast_iff bit_drop_bit_eq)
    qed
    then show False using nz(1) by (simp add: bit_eq_iff)
  qed
  then show ?thesis using nz by simp
qed

lemma random_samples_spec:
  "state \<noteq> 0 \<Longrightarrow> random_samples n state = (xs, state') \<Longrightarrow>
     length xs = n \<and> state' \<noteq> 0 \<and> (\<forall>x\<in>set xs. re x \<noteq> 0 \<or> im x \<noteq> 0)"
proof (induction n arbitrary: state xs)
  case (Suc n)
  obtain x state1 where one: "random_sample state = (x, state1)" by (metis surj_pair)
  obtain ys where rest: "random_samples n state1 = (ys, state')" "xs = x # ys"
    using Suc.prems(2) one by (auto split: prod.splits)
  show ?case using random_sample_nonzero [OF Suc.prems(1) one] Suc.IH [OF _ rest(1)] rest(2) by auto
qed simp

lemma header_fields_ok_random: "header_fields_ok (fr_header (f\<lparr>fr_payload := ps\<rparr>)) = header_fields_ok (fr_header f)"
  by simp

lemma gen_payload_ok:
  assumes "gen_payload (go_random opts) state (fill_frame f i (i * 1000000000 div ucast (go_rate_hz opts))
      (go_module_id opts) (go_rate_hz opts)) = (frame, state')" "state \<noteq> 0" "gen_options_ok opts"
  shows "gen_frame_ok opts i (serialize_frame frame) \<and> state' \<noteq> 0"
proof -
  let ?ts = "i * 1000000000 div ucast (go_rate_hz opts)"
  let ?filled = "fill_frame f i ?ts (go_module_id opts) (go_rate_hz opts)"
  have filled: "length (fr_payload ?filled) = 1704" by (simp add: fill_frame_payload)
  have frame: "fr_header frame = fr_header ?filled \<and> length (fr_payload frame) = 1704 \<and> state' \<noteq> 0
      \<and> (\<not> go_random opts \<longrightarrow> frame = ?filled)
      \<and> (go_random opts \<longrightarrow> (\<forall>x\<in>set (fr_payload frame). re x \<noteq> 0 \<or> im x \<noteq> 0))"
  proof (cases "go_random opts")
    case True
    obtain xs where "random_samples 1704 state = (xs, state')" "frame = ?filled\<lparr>fr_payload := xs\<rparr>"
      using assms(1) True filled by (auto simp: gen_payload_def split: prod.splits)
    then show ?thesis using random_samples_spec [OF assms(2)] True by auto
  next
    case False
    then show ?thesis using assms(1,2) filled by (simp add: gen_payload_def)
  qed
  have "header_fields_ok (fr_header frame)"
    using frame assms(3) by (simp only: header_fields_ok_fill gen_options_ok_def)
  then have wire: "acceptable (serialize_frame frame)" "frame_at (serialize_frame frame) = sealed_frame frame"
    using serialized_acceptable [of frame] frame by blast+
  show ?thesis
    unfolding gen_frame_ok_def Let_def wire(2) sealed_frame_header
    using wire(1) frame encode_fill_any [of f i ?ts "go_module_id opts" "go_rate_hz opts" default_frame]
    by (simp add: fill_frame_header encode_frame_def gen_stamp_word)
qed

text \<open>From frame 18446744074 on a frame can be older than frame 1, against the comment of the program.\<close>

lemma gen_stamp_wraps:
  assumes "gen_frame_ok opts 18446744074 wire" "go_rate_hz opts = 1000"
  shows "unat (hdr_timestamp_ns (fr_header (frame_at wire))) < gen_stamp 1000 1"
    "18446744074 * 1000000000 div unat (go_rate_hz opts) \<noteq> unat (hdr_timestamp_ns (fr_header (frame_at wire)))"
  using assms by (simp_all add: gen_frame_ok_def gen_stamp_def Let_def)

definition gen_inv :: "gen_options \<Rightarrow> path \<Rightarrow> filesystem \<Rightarrow> bytes list \<Rightarrow> generating \<Rightarrow> bool" where
  "gen_inv opts dir fs0 frames g \<longleftrightarrow>
     writer_inv fs0 frames (gn_writer g, gn_fs g)
     \<and> cw_root (gn_writer g) = dir \<and> cw_frames_per_segment (gn_writer g) = go_frames opts
     \<and> (\<forall>i<length frames. gen_frame_ok opts (of_nat i) (frames ! i)) \<and> gn_state g \<noteq> 0
     \<and> (\<forall>p. \<not> in_directory dir p \<longrightarrow> file_contents (gn_fs g) p = file_contents fs0 p)"

lemma gen_turn_inv:
  assumes "gen_turn opts env (of_nat (length frames)) g = (True, g')" "gen_inv opts dir fs0 frames g"
    and "gen_options_ok opts" "length frames + 1 < 2 ^ 64"
  shows "\<exists>f. gen_inv opts dir fs0 (frames @ [f]) g'"
proof -
  let ?i = "of_nat (length frames) :: u64"
  obtain frame state where pay: "gen_payload (go_random opts) (gn_state g) (fill_frame (gn_frame g) ?i
      (?i * 1000000000 div ucast (go_rate_hz opts)) (go_module_id opts) (go_rate_hz opts)) = (frame, state)"
    by (metis surj_pair)
  obtain wrote w fs where wr: "write_frame (serialize_frame frame) env (gn_writer g, gn_fs g) = (wrote, w, fs)"
    by (metis prod_cases3)
  have g': "wrote" "g' = \<lparr>gn_state = state, gn_frame = frame, gn_bytes = serialize_frame frame, gn_writer = w, gn_fs = fs\<rparr>"
    using assms(1) pay wr by (auto simp: gen_turn_def serialize_frame_into_ignores Let_def split: prod.splits)
  have inv: "writer_inv fs0 frames (gn_writer g, gn_fs g)" and root: "cw_root (gn_writer g) = dir"
    and state: "gn_state g \<noteq> 0"
    using assms(2) by (simp_all add: gen_inv_def)
  have ok: "gen_frame_ok opts ?i (serialize_frame frame)" "state \<noteq> 0" using gen_payload_ok [OF pay state assms(3)] by simp_all
  have "writer_inv fs0 (frames @ [serialize_frame frame]) (w, fs)"
    using write_frame_inv [OF inv _ assms(4)] wr g'(1) by simp
  moreover have "\<forall>p. \<not> in_directory dir p \<longrightarrow> file_contents fs p = file_contents fs0 p"
    using write_frame_elsewhere [OF inv wr] assms(2) by (simp add: gen_inv_def root)
  ultimately have "gen_inv opts dir fs0 (frames @ [serialize_frame frame]) g'"
    using assms(2) ok write_frame_config [OF wr]
    by (simp add: gen_inv_def g'(2) nth_append less_Suc_eq)
  then show ?thesis ..
qed

lemma gen_loop_inv:
  "gen_loop opts env n (of_nat (length frames)) g = (Inr (), g') \<Longrightarrow> gen_inv opts dir fs0 frames g \<Longrightarrow>
    gen_options_ok opts \<Longrightarrow> length frames + n < 2 ^ 64 \<Longrightarrow>
    \<exists>fs. length fs = length frames + n \<and> gen_inv opts dir fs0 fs g'"
proof (induction n arbitrary: frames g)
  case (Suc n)
  obtain g1 where turn: "gen_turn opts (env (of_nat (length frames))) (of_nat (length frames)) g = (True, g1)"
    and rest: "gen_loop opts env n (of_nat (length frames) + 1) g1 = (Inr (), g')"
    using Suc.prems(1) by (auto split: prod.splits bool.splits)
  obtain f where f: "gen_inv opts dir fs0 (frames @ [f]) g1"
    using gen_turn_inv [OF turn Suc.prems(2,3)] Suc.prems(4) by auto
  have "gen_loop opts env n (of_nat (length (frames @ [f]))) g1 = (Inr (), g')" using rest by (simp add: add.commute)
  from Suc.IH [OF this f Suc.prems(3)] show ?case using Suc.prems(4) by simp
qed auto

lemma map_of_remove_all: "map_of (remove_all dir fs) p = (if under dir p then None else map_of fs p)"
  unfolding remove_all_def by (induction fs) auto

lemma file_contents_remove_all: "file_contents (remove_all dir fs) p = (if under dir p then None else file_contents fs p)"
  by (simp add: file_contents_def map_of_remove_all)

lemma not_under_tmp: "\<not> under (gen_tmp_dir output) output"
  by (cases "components output" rule: rev_cases)
    (auto simp: under_def gen_tmp_dir_def path_filename_def dest: prefix_length_le)

lemma file_contents_rename:
  assumes "rename_file source target fs = Some fs'" "source \<noteq> target"
  shows "file_contents fs' target = file_contents fs source"
    "p \<noteq> source \<Longrightarrow> p \<noteq> target \<Longrightarrow> file_contents fs' p = file_contents fs p"
  using assms by (auto simp: rename_file_def file_contents_def delete_conv' split: option.splits if_splits)

lemma segment_zero: "segment_name 0 = ''segment-000000.bin''"
  by code_simp

section \<open>The file\<close>

lemma frame_gen_written:
  assumes "parse_gen args = Inr opts" and "frame_gen env fs args = (Gen_exit 0 out err, fs')"
  shows "\<exists>frames. file_contents fs' (to_path (go_output opts)) = Some (concat frames)
    \<and> length frames = unat (go_frames opts) \<and> (\<forall>i<length frames. gen_frame_ok opts (of_nat i) (frames ! i))
    \<and> (\<forall>p. p \<noteq> to_path (go_output opts) \<longrightarrow> file_contents fs' p
         = (if under (gen_tmp_dir (to_path (go_output opts))) p then None else file_contents fs p))"
proof -
  let ?output = "to_path (go_output opts)"
  let ?tmp = "gen_tmp_dir ?output"
  let ?segment = "path_join ?tmp (segment_name 0)"
  let ?g = "\<lparr>gn_state = go_seed opts, gn_frame = default_frame, gn_bytes = [],
             gn_writer = new_capture_writer ?tmp (go_frames opts), gn_fs = remove_all ?tmp fs\<rparr>"
  note ok = parse_gen_ok [OF assms(1)]
  obtain g where loop: "gen_loop opts (ge_write env) (unat (go_frames opts)) 0 ?g = (Inr (), g)"
    and fin: "gen_finish env opts (gn_fs g) = (Gen_exit 0 out err, fs')"
    using assms by (auto simp: frame_gen_def Let_def split: if_splits prod.splits sum.splits)
  have "gen_inv opts ?tmp (remove_all ?tmp fs) [] ?g"
    using ok new_writer_inv [of "go_frames opts"] by (simp add: gen_inv_def) (simp add: new_capture_writer_def)
  from gen_loop_inv [of _ _ _ "[]", OF _ this] loop ok unat_u64_less
  obtain frames where frames: "length frames = unat (go_frames opts)" and inv: "gen_inv opts ?tmp (remove_all ?tmp fs) frames g"
    by fastforce
  have "0 < length frames" using frames ok by (simp add: unat_gt_0)
  moreover have "segments_hold frames [] (gn_writer g) (gn_fs g)" "segment_length (gn_writer g) = length frames"
    using inv frames by (simp_all add: gen_inv_def writer_inv_def segment_length_def)
  ultimately have "file_contents (gn_fs g) (segment (gn_writer g) 0) = Some (concat frames)"
    by (simp add: segments_hold_def segment_bytes_def)
  then have written: "file_contents (gn_fs g) ?segment = Some (concat frames)"
    using inv by (simp add: gen_inv_def segment_def segment_path_def)
  have in_tmp: "under ?tmp ?segment" "\<And>p. in_directory ?tmp p \<Longrightarrow> under ?tmp p"
    by (auto simp: under_def path_join_def in_directory_iff)
  then have neq: "?segment \<noteq> ?output" using not_under_tmp by metis
  obtain fs1 where ren: "rename_file ?segment ?output (gn_fs g) = Some fs1" and fs': "fs' = remove_all ?tmp fs1"
    using fin by (auto simp: gen_finish_def Let_def segment_zero split: bool.splits option.splits if_splits)
  have "file_contents fs' ?output = Some (concat frames)"
    using not_under_tmp file_contents_rename(1) [OF ren neq] written by (simp add: fs' file_contents_remove_all)
  moreover have "file_contents fs' p = (if under ?tmp p then None else file_contents fs p)" if "p \<noteq> ?output" for p
  proof (cases "under ?tmp p")
    case False
    then have "p \<noteq> ?segment" "\<not> in_directory ?tmp p" using in_tmp by auto
    then have "file_contents fs1 p = file_contents (remove_all ?tmp fs) p"
      using file_contents_rename(2) [OF ren neq] that inv by (simp add: gen_inv_def)
    then show ?thesis using False by (simp add: fs' file_contents_remove_all)
  qed (simp add: fs' file_contents_remove_all)
  ultimately show ?thesis using frames inv by (intro exI [of _ frames]) (simp add: gen_inv_def)
qed

section \<open>Properties\<close>

text \<open>
  C17: a run of frame_gen that returns 0 leaves in the output file exactly the frames asked for.  Each is
  accepted by the receiver's parser, has its number as id, the module and the rate of the
  command line, and as time stamp \<open>id / rate\<close> seconds in nanoseconds (up to id 18446744073, where the
  program's 64-bit product wraps: \<open>gen_stamp\<close>); in the counter pattern it is, byte for byte, the frame that the live sender would
  make, and in the random pattern no sample is zero.  No other file changes, except that the
  temporary directory, with whatever was in it, is gone.
\<close>

theorem frame_gen_output:
  assumes "parse_gen args = Inr opts" and "frame_gen env fs args = (Gen_exit 0 out err, fs')"
  shows "\<exists>frames. file_contents fs' (to_path (go_output opts)) = Some (concat frames)
    \<and> length frames = unat (go_frames opts) \<and> (\<forall>i<length frames. gen_frame_ok opts (of_nat i) (frames ! i))
    \<and> (\<forall>p. p \<noteq> to_path (go_output opts) \<longrightarrow> file_contents fs' p
         = (if under (gen_tmp_dir (to_path (go_output opts))) p then None else file_contents fs p))"
  using assms by (rule frame_gen_written)

section \<open>An instance\<close>

definition fine_gen_env :: gen_env where
  "fine_gen_env = \<lparr>ge_remove_ok = True, ge_write = (\<lambda>_. all_ok), ge_flush_ok = True, ge_rename_ok = True, ge_cleanup_ok = True\<rparr>"

definition one_gen_options :: gen_options where
  "one_gen_options = default_gen_options\<lparr>go_output := ''x.bin'', go_frames := 1\<rparr>"

lemma parse_one_gen: "parse_gen [''x.bin'', to_string 1] = Inr one_gen_options"
proof -
  have "std_stoull (to_string 1) = Inr 1" by (simp add: std_stoull_def std_unsigned_nat)
  then show ?thesis
    by (simp add: parse_gen_def one_gen_options_def starts_with_def [of _ "''x.bin''"] default_gen_options_def)
qed

lemma one_gen_run: "\<exists>out fs. frame_gen fine_gen_env [] [''x.bin'', to_string 1] = (Gen_exit 0 out [], fs)"
proof -
  let ?o = one_gen_options
  let ?tmp = "gen_tmp_dir (to_path ''x.bin'')"
  have paths: "gen_tmp_dir (Path [''x.bin'']) = Path [''x.bin.tmp'']" "to_path ''x.bin'' = Path [''x.bin'']"
    by (simp_all add: gen_tmp_dir_def to_path_def path_filename_def)
  let ?filled = "fill_frame default_frame 0 0 0 200"
  have wire: "length (serialize_frame ?filled) = kWireFrameSize"
    using serialized_acceptable(1) [of ?filled] acceptable_length
    by (simp add: fill_frame_payload header_fields_ok_fill kMaxSampleRateHz_def)
  have opts: "go_output ?o = ''x.bin''" "go_frames ?o = 1" "\<not> go_random ?o" "go_rate_hz ?o = 200" "go_module_id ?o = 0"
    by (simp_all add: one_gen_options_def default_gen_options_def kSampleRateHz_def)
  let ?w = "new_capture_writer ?tmp 1"
  obtain w fs where wr: "write_frame (serialize_frame ?filled) all_ok (?w, []) = (True, w, fs)"
    and seg: "map_of fs (path_join ?tmp (segment_name 0)) = Some (Regular True (serialize_frame ?filled))"
    and dir: "map_of fs (Path [''x.bin'']) = None" and good: "cw_good w"
    using wire
    by (simp add: write_frame_def open_segment_def new_capture_writer_def all_ok_def Let_def segment_path_def
        append_file_def paths create_directories_def path_join_def)
  have "gen_loop ?o (ge_write fine_gen_env) 1 0 \<lparr>gn_state = go_seed ?o, gn_frame = default_frame, gn_bytes = [],
             gn_writer = ?w, gn_fs = []\<rparr>
    = (Inr (), \<lparr>gn_state = go_seed ?o, gn_frame = ?filled, gn_bytes = serialize_frame ?filled, gn_writer = w, gn_fs = fs\<rparr>)"
    using wr by (simp add: gen_turn_def gen_payload_def opts fine_gen_env_def serialize_frame_into_ignores Let_def)
  moreover have "fst (flush_writer True w)" using good by (simp add: flush_writer_def)
  moreover have "\<exists>out fs'. gen_finish fine_gen_env ?o fs = (Gen_exit 0 out [], fs')"
    using seg dir by (simp add: gen_finish_def opts fine_gen_env_def rename_file_def is_directory_def Let_def paths(2) flip: segment_zero)
  ultimately show ?thesis
    using parse_one_gen by (simp add: frame_gen_def opts fine_gen_env_def remove_all_def)
qed

theorem frame_gen_output_witness:
  "\<exists>out fs wire. frame_gen fine_gen_env [] [''x.bin'', to_string 1] = (Gen_exit 0 out [], fs)
     \<and> file_contents fs (Path [''x.bin'']) = Some wire \<and> gen_frame_ok one_gen_options 0 wire"
proof -
  obtain out fs where run: "frame_gen fine_gen_env [] [''x.bin'', to_string 1] = (Gen_exit 0 out [], fs)"
    using one_gen_run by blast
  have opts: "to_path (go_output one_gen_options) = Path [''x.bin'']" "unat (go_frames one_gen_options) = 1"
    by (simp_all add: one_gen_options_def to_path_def)
  obtain frames where "file_contents fs (Path [''x.bin'']) = Some (concat frames)" "length frames = 1"
    "\<forall>i<length frames. gen_frame_ok one_gen_options (of_nat i) (frames ! i)"
    using frame_gen_output [OF parse_one_gen run] unfolding opts by blast
  then show ?thesis using run by (cases frames) auto
qed

end
