(* ===== verification/Capture_Pipeline.thy ===== *)
theory Capture_Pipeline
  imports Receiver_Main Capture_Queue Capture_Writer
begin

text \<open>
  \<open>receiver/main.cpp\<close>, lines 189 to 338: the receiving thread and the capture worker, interleaved.
  Every access to something the threads share (the two indices of the queue, a slot, the two flags,
  the condition variable) is a step of its own; what lies between two such accesses is local and
  belongs to the step before.  The clocks, the operating system's answers to writes and flushes, and
  the choice of the thread that moves next are open.
\<close>

section \<open>The state\<close>

text \<open>Where the receiving thread is: the next thing it does.\<close>

datatype main_pc =
    M_check
  | M_space
  | M_receive
  | M_publish turn_clock turn_times
  | M_depth turn_clock turn_times
  | M_notify turn_clock turn_times nat
  | M_timing turn_clock turn_times nat
  | M_set_done
  | M_notify_all
  | M_join
  | M_joined

text \<open>Where the worker is.  In \<open>W_waiting\<close> it is blocked in the condition variable.\<close>

datatype worker_pc =
    W_poll
  | W_write
  | W_release bool u64
  | W_flush
  | W_fail string
  | W_load_done
  | W_final_flush
  | W_test_done
  | W_test_empty
  | W_block
  | W_waiting
  | W_exited

text \<open>
  The last two members are not in the program: they record the frames in the order in which they were
  published, and those that were written.
\<close>

record pipeline =
  pl_main :: main_pc
  pl_worker :: worker_pc
  pl_queue :: capture_queue
  pl_done :: bool
  pl_failed :: bool
  pl_high_water :: u64
  pl_index :: u64
  pl_exit_code :: u64
  pl_aq :: acquisition
  pl_storage :: capture_writer
  pl_fs :: filesystem
  pl_write_stats :: latency_stats
  pl_since_flush :: nat
  pl_worker_log :: "string list"
  pl_published :: "captured_frame list"
  pl_stored :: "bytes list"

definition capture_root :: path where
  "capture_root = Path [''captures'', ''raw'']"

text \<open>The loop's test \<open>index < options.expected_frames\<close>.\<close>

definition next_turn :: "receiver_options \<Rightarrow> u64 \<Rightarrow> main_pc" where
  "next_turn opts index = (if index < ro_expected_frames opts then M_check else M_set_done)"

definition new_pipeline :: "receiver_session \<Rightarrow> bytes list \<Rightarrow> filesystem \<Rightarrow> pipeline" where
  "new_pipeline rs pieces fs =
     \<lparr>pl_main = next_turn (rs_options rs) 0, pl_worker = W_poll, pl_queue = rs_queue rs, pl_done = False,
      pl_failed = False, pl_high_water = 0, pl_index = 0, pl_exit_code = 0,
      pl_aq = new_acquisition pieces (rs_timing rs) (rs_io rs),
      pl_storage = new_capture_writer capture_root 10000, pl_fs = fs, pl_write_stats = new_latency_stats,
      pl_since_flush = 0, pl_worker_log = [], pl_published = [], pl_stored = []\<rparr>"

section \<open>The receiving thread\<close>

text \<open>\<open>break\<close> with an exit code\<close>

definition stop :: "u64 \<Rightarrow> acquisition \<Rightarrow> pipeline \<Rightarrow> pipeline" where
  "stop code aq s = s\<lparr>pl_aq := aq, pl_exit_code := code, pl_main := M_set_done\<rparr>"

definition check_worker :: "pipeline \<Rightarrow> pipeline" where
  "check_worker s =
     (let aq = pl_aq s
      in if pl_failed s then stop 7 (aq\<lparr>aq_io := log_error ''capture worker failed'' (aq_io aq)\<rparr>) s
         else s\<lparr>pl_main := M_space\<rparr>)"

definition note_overrun :: "acquisition \<Rightarrow> acquisition" where
  "note_overrun aq = aq
     \<lparr>aq_snapshot := (aq_snapshot aq)\<lparr>mt_capture_queue_overrun_count :=
                        mt_capture_queue_overrun_count (aq_snapshot aq) + 1\<rparr>,
      aq_io := log_error ''capture queue is full before frame receive'' (aq_io aq)\<rparr>"

definition check_space :: "pipeline \<Rightarrow> pipeline" where
  "check_space s =
     (if \<not> has_space (pl_queue s) then stop 9 (note_overrun (pl_aq s)) s else s\<lparr>pl_main := M_receive\<rparr>)"

definition receive_into_slot :: "receiver_options \<Rightarrow> tcp_receiver \<Rightarrow> turn_clock \<Rightarrow> pipeline \<Rightarrow> pipeline" where
  "receive_into_slot opts tcp clock s =
     (case receive_frame opts tcp clock (producer_slot (pl_queue s)) (pl_aq s) of
        (Inl code, slot, aq) \<Rightarrow> stop code aq (s\<lparr>pl_queue := set_producer_slot slot (pl_queue s)\<rparr>)
      | (Inr tms, slot, aq) \<Rightarrow>
          s\<lparr>pl_queue := set_producer_slot slot (pl_queue s), pl_aq := aq, pl_main := M_publish clock tms\<rparr>)"

definition publish_frame :: "turn_clock \<Rightarrow> turn_times \<Rightarrow> pipeline \<Rightarrow> pipeline" where
  "publish_frame clock tms s = s
     \<lparr>pl_queue := publish (pl_queue s), pl_published := pl_published s @ [producer_slot (pl_queue s)],
      pl_main := M_depth clock tms\<rparr>"

definition note_depth :: "turn_clock \<Rightarrow> turn_times \<Rightarrow> pipeline \<Rightarrow> pipeline" where
  "note_depth clock tms s =
     (let queue_depth = queue_size (pl_queue s)
      in s\<lparr>pl_high_water := (if pl_high_water s < of_nat queue_depth then of_nat queue_depth else pl_high_water s),
          pl_main := M_notify clock tms queue_depth\<rparr>)"

text \<open>A notification reaches the worker only if it is blocked; it then tests the predicate again.\<close>

definition wake :: "worker_pc \<Rightarrow> worker_pc" where
  "wake w = (if w = W_waiting then W_test_done else w)"

definition notify_worker :: "main_pc \<Rightarrow> pipeline \<Rightarrow> pipeline" where
  "notify_worker pc s = s\<lparr>pl_worker := wake (pl_worker s), pl_main := pc\<rparr>"

definition end_turn :: "receiver_options \<Rightarrow> turn_clock \<Rightarrow> turn_times \<Rightarrow> nat \<Rightarrow> pipeline \<Rightarrow> pipeline" where
  "end_turn opts clock tms queue_depth s = s
     \<lparr>pl_aq := (if st_good (aq_timing (pl_aq s)) then log_timing opts clock tms queue_depth (pl_aq s) else pl_aq s),
      pl_index := pl_index s + 1, pl_main := next_turn opts (pl_index s + 1)\<rparr>"

text \<open>
  One step of the receiving thread.  Receiving waits for the peer but not for the worker, so it can
  always be done; \<open>join\<close> waits for the worker, and after it the loop is over.
\<close>

definition main_step :: "receiver_options \<Rightarrow> tcp_receiver \<Rightarrow> turn_clock \<Rightarrow> pipeline \<Rightarrow> pipeline option" where
  "main_step opts tcp clock s =
     (case pl_main s of
        M_check \<Rightarrow> Some (check_worker s)
      | M_space \<Rightarrow> Some (check_space s)
      | M_receive \<Rightarrow> Some (receive_into_slot opts tcp clock s)
      | M_publish c tms \<Rightarrow> Some (publish_frame c tms s)
      | M_depth c tms \<Rightarrow> Some (note_depth c tms s)
      | M_notify c tms depth \<Rightarrow> Some (notify_worker (M_timing c tms depth) s)
      | M_timing c tms depth \<Rightarrow> Some (end_turn opts c tms depth s)
      | M_set_done \<Rightarrow> Some (s\<lparr>pl_done := True, pl_main := M_notify_all\<rparr>)
      | M_notify_all \<Rightarrow> Some (notify_worker M_join s)
      | M_join \<Rightarrow> (if pl_worker s = W_exited then Some (s\<lparr>pl_main := M_joined\<rparr>) else None)
      | M_joined \<Rightarrow> None)"

section \<open>The capture worker\<close>

text \<open>What the operating system and the clock answer during one step of the worker.\<close>

record worker_env =
  we_write :: write_env
  we_start :: int
  we_end :: int
  we_flush_ok :: bool

definition poll_queue :: "pipeline \<Rightarrow> pipeline" where
  "poll_queue s = s\<lparr>pl_worker := (if consumer_slot (pl_queue s) \<noteq> None then W_write else W_load_done)\<rparr>"

text \<open>The pointer that \<open>consumer_slot\<close> returned stays the slot at the consumer index.\<close>

definition captured_slot :: "pipeline \<Rightarrow> captured_frame" where
  "captured_slot s = cq_slots (pl_queue s) ! cq_consumer_index (pl_queue s)"

definition write_captured :: "worker_env \<Rightarrow> pipeline \<Rightarrow> pipeline" where
  "write_captured env s =
     (let captured = captured_slot s;
          (wrote, storage, fs) = write_frame (cf_wire captured) (we_write env) (pl_storage s, pl_fs s)
      in s\<lparr>pl_storage := storage, pl_fs := fs,
          pl_write_stats := add_latency (micros_between (we_start env) (we_end env)) (pl_write_stats s),
          pl_stored := (if wrote then pl_stored s @ [cf_wire captured] else pl_stored s),
          pl_worker := W_release wrote (cf_frame_id captured)\<rparr>)"

definition release_captured :: "bool \<Rightarrow> u64 \<Rightarrow> pipeline \<Rightarrow> pipeline" where
  "release_captured wrote frame_id s =
     (let s1 = s\<lparr>pl_queue := release (pl_queue s)\<rparr>
      in if \<not> wrote then s1\<lparr>pl_worker := W_fail (''failed to write capture frame '' @ u64_text frame_id)\<rparr>
         else if pl_since_flush s + 1 = kStorageFlushFrames then s1\<lparr>pl_since_flush := 0, pl_worker := W_flush\<rparr>
         else s1\<lparr>pl_since_flush := pl_since_flush s + 1, pl_worker := W_poll\<rparr>)"

text \<open>Both flushes: after a number of writes, and at the end.\<close>

definition flush_captured :: "worker_pc \<Rightarrow> string \<Rightarrow> worker_env \<Rightarrow> pipeline \<Rightarrow> pipeline" where
  "flush_captured go_on message env s =
     (let (flushed, storage) = flush_writer (we_flush_ok env) (pl_storage s)
      in s\<lparr>pl_storage := storage, pl_worker := (if flushed then go_on else W_fail message)\<rparr>)"

definition fail_worker :: "string \<Rightarrow> pipeline \<Rightarrow> pipeline" where
  "fail_worker message s =
     s\<lparr>pl_failed := True, pl_worker_log := pl_worker_log s @ [log_entry kError message], pl_worker := W_exited\<rparr>"

text \<open>
  One step of the worker.  \<open>queue_mutex\<close> is taken by no one else, so taking it never waits; the receiving
  thread notifies without it, also between a failed test of the predicate and the moment the worker blocks.
\<close>

definition worker_step :: "worker_env \<Rightarrow> pipeline \<Rightarrow> pipeline option" where
  "worker_step env s =
     (case pl_worker s of
        W_poll \<Rightarrow> Some (poll_queue s)
      | W_write \<Rightarrow> Some (write_captured env s)
      | W_release wrote frame_id \<Rightarrow> Some (release_captured wrote frame_id s)
      | W_flush \<Rightarrow> Some (flush_captured W_poll ''failed to flush capture files'' env s)
      | W_fail message \<Rightarrow> Some (fail_worker message s)
      | W_load_done \<Rightarrow> Some (s\<lparr>pl_worker := (if pl_done s then W_final_flush else W_test_done)\<rparr>)
      | W_final_flush \<Rightarrow>
          Some (flush_captured W_exited ''failed to flush capture files during shutdown'' env s)
      | W_test_done \<Rightarrow> Some (s\<lparr>pl_worker := (if pl_done s then W_poll else W_test_empty)\<rparr>)
      | W_test_empty \<Rightarrow> Some (s\<lparr>pl_worker := (if queue_empty (pl_queue s) then W_block else W_poll)\<rparr>)
      | W_block \<Rightarrow> Some (s\<lparr>pl_worker := W_waiting\<rparr>)
      | W_waiting \<Rightarrow> None
      | W_exited \<Rightarrow> None)"

section \<open>Both threads\<close>

inductive pipeline_step :: "receiver_options \<Rightarrow> tcp_receiver \<Rightarrow> pipeline \<Rightarrow> pipeline \<Rightarrow> bool"
  for opts :: receiver_options and tcp :: tcp_receiver where
  main_moves: "main_step opts tcp clock s = Some t \<Longrightarrow> pipeline_step opts tcp s t"
| worker_moves: "worker_step env s = Some t \<Longrightarrow> pipeline_step opts tcp s t"

text \<open>A condition variable may also wake its waiter without any notification.\<close>

inductive pipeline_step_spurious :: "receiver_options \<Rightarrow> tcp_receiver \<Rightarrow> pipeline \<Rightarrow> pipeline \<Rightarrow> bool"
  for opts :: receiver_options and tcp :: tcp_receiver where
  moves: "pipeline_step opts tcp s t \<Longrightarrow> pipeline_step_spurious opts tcp s t"
| wakes: "pl_worker s = W_waiting \<Longrightarrow> pipeline_step_spurious opts tcp s (s\<lparr>pl_worker := W_test_done\<rparr>)"

inductive reachable :: "receiver_session \<Rightarrow> bytes list \<Rightarrow> filesystem \<Rightarrow> pipeline \<Rightarrow> bool"
  for rs :: receiver_session and pieces :: "bytes list" and fs :: filesystem where
  start: "reachable rs pieces fs (new_pipeline rs pieces fs)"
| step: "reachable rs pieces fs s \<Longrightarrow> pipeline_step_spurious (rs_options rs) (rs_receiver rs) s t
     \<Longrightarrow> reachable rs pieces fs t"

text \<open>What the process returns once the threads have joined.\<close>

definition pipeline_result :: "(rat \<Rightarrow> string) \<Rightarrow> string \<Rightarrow> receiver_options \<Rightarrow> pipeline \<Rightarrow> ending" where
  "pipeline_result show_double now opts s =
     receiver_finish show_double now opts (pl_queue s) (pl_high_water s) (pl_write_stats s) (pl_failed s)
       (pl_exit_code s) (pl_aq s)"

end
