(* ===== verification/Pipeline_Safety.thy ===== *)
theory Pipeline_Safety
  imports Capture_Pipeline
begin

text \<open>
  What holds in every reachable state of the two threads: the slots are never used by both at once,
  the frames published are the received stream, and the frames stored are the frames published.
  Each part is a predicate that every step of either thread keeps.
\<close>

named_theorems main_defs "the steps of the receiving thread"
named_theorems worker_defs "the steps of the capture worker"

lemmas [main_defs] = main_step_def check_worker_def stop_def check_space_def note_overrun_def
  publish_frame_def note_depth_def notify_worker_def end_turn_def next_turn_def Let_def

lemmas [worker_defs] = worker_step_def poll_queue_def write_captured_def release_captured_def
  flush_captured_def fail_worker_def Let_def

lemma any_step:
  assumes "pipeline_step_spurious opts tcp s t"
  obtains (main) clock where "main_step opts tcp clock s = Some t"
  | (worker) env where "worker_step env s = Some t"
  | (wakes) "pl_worker s = W_waiting" "t = s\<lparr>pl_worker := W_test_done\<rparr>"
  using assms by (auto elim!: pipeline_step_spurious.cases pipeline_step.cases)

lemma wake_simps [simp]:
  "wake w = W_write \<longleftrightarrow> w = W_write" "wake w = W_release b i \<longleftrightarrow> w = W_release b i"
  "wake w = W_exited \<longleftrightarrow> w = W_exited" "wake w = W_fail m \<longleftrightarrow> w = W_fail m"
  by (auto simp: wake_def)

lemma wake_W_waiting [simp]: "wake W_waiting = W_test_done" "w \<noteq> W_waiting \<Longrightarrow> wake w = w"
  by (simp_all add: wake_def)

section \<open>The queue seen from both threads\<close>

lemma queue_items_set_producer_slot [simp]:
  assumes "queue_inv q"
  shows "queue_items (set_producer_slot c q) = queue_items q"
proof -
  have "cq_producer_index q \<noteq> (cq_consumer_index q + i) mod length (cq_slots q)" if "i < queue_size q" for i
    using that assms queue_size_bound [OF assms] producer_from_size [OF assms]
      ring_index_inj [of i "length (cq_slots q)" "queue_size q" "cq_consumer_index q"]
    by (metis nat_less_le not_less queue_inv_def le_less_trans less_Suc_eq_le add.commute plus_1_eq_Suc less_trans)
  moreover have "queue_size (set_producer_slot c q) = queue_size q"
    by (simp add: queue_size_def set_producer_slot_def)
  ultimately show ?thesis by (simp add: queue_items_def set_producer_slot_def)
qed

lemma queue_inv_set_producer_slot [simp]: "queue_inv (set_producer_slot c q) = queue_inv q"
  by (simp add: queue_inv_def set_producer_slot_def)

lemma has_space_set_producer_slot [simp]: "has_space (set_producer_slot c q) = has_space q"
  by (simp add: has_space_def next_index_def set_producer_slot_def)

lemma producer_slot_set [simp]: "queue_inv q \<Longrightarrow> producer_slot (set_producer_slot c q) = c"
  by (simp add: queue_inv_def producer_slot_def set_producer_slot_def)

lemma producer_slot_release [simp]: "producer_slot (release q) = producer_slot q"
  by (simp add: producer_slot_def release_def)

lemma publish_put: "publish q = put_frame (producer_slot q) q"
  by (simp add: publish_def put_frame_def set_producer_slot_def producer_slot_def next_index_def)

lemma queue_items_publish: "queue_inv q \<Longrightarrow> has_space q \<Longrightarrow> queue_items (publish q) = queue_items q @ [producer_slot q]"
  unfolding publish_put by (rule queue_items_put)

lemma queue_inv_publish: "queue_inv q \<Longrightarrow> queue_inv (publish q)"
  unfolding publish_put by (rule put_frame_inv)

lemma queue_items_release_not_empty:
  "queue_inv q \<Longrightarrow> queue_items q \<noteq> [] \<Longrightarrow> queue_items (release q) = tl (queue_items q)"
  by (simp add: queue_items_release queue_empty_iff)

lemma has_space_release: "queue_inv q \<Longrightarrow> queue_items q \<noteq> [] \<Longrightarrow> has_space (release q)"
  using has_space_iff [OF release_inv, of q] queue_size_bound [of q] queue_size_release [of q]
    length_queue_items [of q]
  by (cases "queue_items q") (auto simp: queue_empty_iff simp del: length_queue_items)

text \<open>The parts of the program in which a thread holds a reference to a slot.\<close>

fun filling :: "main_pc \<Rightarrow> bool" where
  "filling M_receive = True"
| "filling (M_publish _ _) = True"
| "filling _ = False"

fun draining :: "worker_pc \<Rightarrow> bool" where
  "draining W_write = True"
| "draining (W_release _ _) = True"
| "draining _ = False"

definition slots_safe :: "pipeline \<Rightarrow> bool" where
  "slots_safe s \<longleftrightarrow> queue_inv (pl_queue s) \<and> (filling (pl_main s) \<longrightarrow> has_space (pl_queue s))
     \<and> (draining (pl_worker s) \<longrightarrow> queue_items (pl_queue s) \<noteq> [])"

lemma filling_next_turn [simp]: "\<not> filling (next_turn opts i)"
  by (simp add: next_turn_def)

lemma draining_wake [simp]: "draining (wake w) = draining w"
  by (simp add: wake_def)

lemma slots_safe_main: "main_step opts tcp clock s = Some t \<Longrightarrow> slots_safe s \<Longrightarrow> slots_safe t"
  by (cases "pl_main s")
    (auto simp: slots_safe_def main_defs receive_into_slot_def queue_inv_publish queue_items_publish
      simp del: next_turn_def split: if_splits sum.splits prod.splits)

lemma slots_safe_worker: "worker_step env s = Some t \<Longrightarrow> slots_safe s \<Longrightarrow> slots_safe t"
  by (cases "pl_worker s")
    (auto simp: slots_safe_def worker_defs release_inv has_space_release consumer_slot_items
      split: if_splits prod.splits)

lemma slots_safe_step:
  "pipeline_step_spurious opts tcp s t \<Longrightarrow> slots_safe s \<Longrightarrow> slots_safe t"
  by (erule any_step) (blast intro: slots_safe_main slots_safe_worker, blast intro: slots_safe_main slots_safe_worker, simp add: slots_safe_def)

section \<open>What each thread leaves alone\<close>

lemma worker_leaves:
  assumes "worker_step env s = Some t"
  shows "pl_main t = pl_main s" "pl_aq t = pl_aq s" "pl_exit_code t = pl_exit_code s" "pl_index t = pl_index s"
    "pl_published t = pl_published s" "pl_done t = pl_done s"
    "cq_slots (pl_queue t) = cq_slots (pl_queue s)" "producer_slot (pl_queue t) = producer_slot (pl_queue s)"
  using assms
  by (cases "pl_worker s"; auto simp: worker_defs release_def producer_slot_def split: if_splits prod.splits)+

lemma main_leaves:
  assumes "main_step opts tcp clock s = Some t"
  shows "pl_storage t = pl_storage s" "pl_fs t = pl_fs s" "pl_stored t = pl_stored s" "pl_failed t = pl_failed s"
    "pl_since_flush t = pl_since_flush s" "pl_worker t = pl_worker s \<or> pl_worker t = wake (pl_worker s)"
  using assms
  by (cases "pl_main s"; auto simp: main_defs receive_into_slot_def split: if_splits prod.splits sum.splits)+

section \<open>The frames received\<close>

fun in_loop :: "main_pc \<Rightarrow> bool" where
  "in_loop M_check = True"
| "in_loop M_space = True"
| "in_loop M_receive = True"
| "in_loop (M_publish _ _) = True"
| "in_loop (M_depth _ _) = True"
| "in_loop (M_notify _ _ _) = True"
| "in_loop (M_timing _ _ _) = True"
| "in_loop _ = False"

text \<open>A frame is complete before it is published.\<close>

definition pending :: "pipeline \<Rightarrow> captured_frame list" where
  "pending s = (case pl_main s of M_publish _ _ \<Rightarrow> [producer_slot (pl_queue s)] | _ \<Rightarrow> [])"

definition received :: "pipeline \<Rightarrow> captured_frame list" where
  "received s = pl_published s @ pending s"

definition good_frame :: "receiver_options \<Rightarrow> captured_frame \<Rightarrow> bool" where
  "good_frame opts c \<longleftrightarrow> length (cf_wire c) = kWireFrameSize \<and> frame_verdict opts (cf_wire c) = 0
     \<and> cf_frame_id c = hdr_frame_id (fr_header (frame_at (cf_wire c)))"

text \<open>The codes with which the loop can end.\<close>

definition documented :: "u64 \<Rightarrow> bool" where
  "documented c \<longleftrightarrow> c \<in> {0, 3, 4, 5, 7, 9}"

text \<open>Those that a frame is to blame for.\<close>

definition stream_code :: "u64 \<Rightarrow> bool" where
  "stream_code c \<longleftrightarrow> c \<in> {3, 4, 5}"

lemma stream_code_simps [simp]:
  "\<not> stream_code 0" "\<not> stream_code 7" "\<not> stream_code 9" "stream_code 3" "stream_code 4" "stream_code 5"
  by (simp_all add: stream_code_def)

definition stream_inv :: "receiver_options \<Rightarrow> bytes list \<Rightarrow> pipeline \<Rightarrow> bool" where
  "stream_inv opts pieces s \<longleftrightarrow>
     (\<forall>c\<in>set (cq_slots (pl_queue s)). length (cf_wire c) = kWireFrameSize)
     \<and> (\<forall>c\<in>set (received s). good_frame opts c)
     \<and> aq_continuity (pl_aq s) = observe_run (map cf_frame_id (received s))
     \<and> (\<exists>rest. concat pieces = concat (map cf_wire (received s)) @ rest
          \<and> (pl_exit_code s = 0 \<longrightarrow> [] \<notin> set (aq_pieces (pl_aq s)) \<and> rest = concat (aq_pieces (pl_aq s)))
          \<and> (stream_code (pl_exit_code s) \<longrightarrow> frame_verdict opts rest = pl_exit_code s))
     \<and> (pl_exit_code s \<noteq> 0 \<longrightarrow> \<not> in_loop (pl_main s))
     \<and> documented (pl_exit_code s)"

lemma documented_simps [simp]:
  "documented 0" "documented 3" "documented 4" "documented 5" "documented 7" "documented 9" "\<not> documented 6"
  by (simp_all add: documented_def)

lemma documented_verdict [simp]: "documented (frame_verdict opts stream)"
  by (simp add: frame_verdict_def Let_def)

lemma received_worker: "received (s\<lparr>pl_worker := w\<rparr>) = received s"
  by (cases "pl_main s") (simp_all add: received_def pending_def)

lemma worker_received: "worker_step env s = Some t \<Longrightarrow> received t = received s"
  by (cases "pl_main s") (simp_all add: received_def pending_def worker_leaves)

lemma stream_inv_worker: "worker_step env s = Some t \<Longrightarrow> stream_inv opts pieces s \<Longrightarrow> stream_inv opts pieces t"
  by (simp add: stream_inv_def worker_received worker_leaves)

lemma received_cong:
  "pl_published t = pl_published s \<Longrightarrow> pl_queue t = pl_queue s \<Longrightarrow>
    (\<And>c m. pl_main s \<noteq> M_publish c m) \<Longrightarrow> (\<And>c m. pl_main t \<noteq> M_publish c m) \<Longrightarrow> received t = received s"
  by (auto simp: received_def pending_def split: main_pc.splits)

lemma next_turn_simps [simp]: "next_turn opts i \<noteq> M_publish c m" "M_publish c m \<noteq> next_turn opts i"
  by (simp_all add: next_turn_def)

lemma stream_inv_receive:
  assumes "receive_into_slot opts tcp clock s = t" "pl_main s = M_receive" "stream_inv opts pieces s"
    and "queue_inv (pl_queue s)" "tr_client_socket tcp \<noteq> kInvalidSocket"
  shows "stream_inv opts pieces t \<and> (pl_exit_code t = 0 \<longrightarrow> in_loop (pl_main t))"
proof -
  let ?q = "pl_queue s" and ?aq = "pl_aq s"
  obtain res slot aq where run: "receive_frame opts tcp clock (producer_slot ?q) ?aq = (res, slot, aq)"
    by (metis prod_cases3)
  have "producer_slot ?q \<in> set (cq_slots ?q)" using assms(4) by (simp add: queue_inv_def producer_slot_def)
  then have sized: "length (cf_wire (producer_slot ?q)) = kWireFrameSize" using assms(3) by (simp add: stream_inv_def)
  have code: "pl_exit_code s = 0" using assms(2,3) by (auto simp: stream_inv_def)
  then have pieces: "[] \<notin> set (aq_pieces ?aq)"
    and stream: "concat pieces = concat (map cf_wire (received s)) @ concat (aq_pieces ?aq)"
    using assms(3) by (auto simp: stream_inv_def)
  note spec = receive_frame_spec [OF run assms(5) pieces sized]
  have slots: "\<forall>c\<in>set (cq_slots (set_producer_slot slot ?q)). length (cf_wire c) = kWireFrameSize"
    using spec assms(3) set_update_subset_insert [of "cq_slots ?q" "cq_producer_index ?q" slot]
    by (auto simp: set_producer_slot_def stream_inv_def)
  show ?thesis
  proof (cases res)
    case (Inl c)
    then have t: "t = stop c aq (s\<lparr>pl_queue := set_producer_slot slot ?q\<rparr>)"
      using assms(1) run by (simp add: receive_into_slot_def)
    have "received t = received s" using assms(2) by (simp add: t received_def pending_def stop_def)
    then show ?thesis
      using assms(3) spec slots stream Inl by (auto simp: stream_inv_def t stop_def)
  next
    case (Inr tms)
    then have t: "t = s\<lparr>pl_queue := set_producer_slot slot ?q, pl_aq := aq, pl_main := M_publish clock tms\<rparr>"
      using assms(1) run by (simp add: receive_into_slot_def)
    have rec: "received t = received s @ [slot]"
      using assms(2,4) by (simp add: t received_def pending_def)
    have frame: "frame_verdict opts (concat (aq_pieces ?aq)) = 0"
      "concat (aq_pieces ?aq) = cf_wire slot @ concat (aq_pieces aq)" "[] \<notin> set (aq_pieces aq)"
      "cf_frame_id slot = hdr_frame_id (fr_header (frame_at (cf_wire slot)))"
      "aq_continuity aq = observe (cf_frame_id slot) (aq_continuity ?aq)" "length (cf_wire slot) = kWireFrameSize"
      using spec Inr by auto
    have "frame_verdict opts (cf_wire slot) = 0"
      using frame(1,6) unfolding frame(2) by (simp add: frame_verdict_def)
    then have "good_frame opts slot" using frame by (simp add: good_frame_def)
    then show ?thesis
      using assms(3) slots stream code frame
      by (auto simp: stream_inv_def rec) (simp_all add: t observe_run_snoc)
  qed
qed

lemma stream_inv_main:
  assumes "main_step opts tcp clock s = Some t" "stream_inv opts pieces s"
    and "queue_inv (pl_queue s)" "tr_client_socket tcp \<noteq> kInvalidSocket"
  shows "stream_inv opts pieces t"
proof (cases "pl_main s")
  case M_receive
  then have "receive_into_slot opts tcp clock s = t" using assms(1) by (simp add: main_step_def)
  then show ?thesis using stream_inv_receive [OF _ M_receive assms(2-)] by blast
next
  case (M_publish c m)
  then have "received t = received s" "cq_slots (pl_queue t) = cq_slots (pl_queue s)" "pl_aq t = pl_aq s"
    "pl_exit_code t = pl_exit_code s" "pl_main t = M_depth c m"
    using assms(1) by (auto simp: main_defs received_def pending_def publish_def)
  then show ?thesis using assms(2) M_publish by (auto simp: stream_inv_def)
qed (use assms(1,2) in \<open>auto simp: main_defs stream_inv_def received_def pending_def log_timing_def split: if_splits\<close>)

section \<open>The count of turns\<close>

fun after_publish :: "main_pc \<Rightarrow> bool" where
  "after_publish (M_depth _ _) = True"
| "after_publish (M_notify _ _ _) = True"
| "after_publish (M_timing _ _ _) = True"
| "after_publish _ = False"

definition count_inv :: "receiver_options \<Rightarrow> pipeline \<Rightarrow> bool" where
  "count_inv opts s \<longleftrightarrow>
     (in_loop (pl_main s) \<longrightarrow> pl_index s < ro_expected_frames opts)
     \<and> length (pl_published s) = unat (pl_index s) + (if after_publish (pl_main s) then 1 else 0)
     \<and> pl_index s \<le> ro_expected_frames opts
     \<and> (\<not> in_loop (pl_main s) \<and> pl_exit_code s = 0 \<longrightarrow> pl_index s = ro_expected_frames opts)"

lemma in_loop_next_turn [simp]: "in_loop (next_turn opts i) \<longleftrightarrow> i < ro_expected_frames opts"
  by (simp add: next_turn_def)

lemma after_publish_next_turn [simp]: "\<not> after_publish (next_turn opts i)"
  by (simp add: next_turn_def)

lemma after_publish_in_loop: "after_publish pc \<Longrightarrow> in_loop pc"
  by (cases pc) simp_all

lemma count_inv_worker: "worker_step env s = Some t \<Longrightarrow> count_inv opts s \<Longrightarrow> count_inv opts t"
  by (simp add: count_inv_def worker_leaves)

lemma receive_stops_or_publishes:
  "receive_into_slot opts tcp clock s = t \<Longrightarrow>
    pl_published t = pl_published s \<and> pl_index t = pl_index s \<and>
    (pl_main t = M_set_done \<or> (\<exists>tms. pl_main t = M_publish clock tms \<and> pl_exit_code t = pl_exit_code s))"
  by (auto simp: receive_into_slot_def stop_def split: sum.splits prod.splits)

lemma count_inv_main:
  assumes "main_step opts tcp clock s = Some t" "count_inv opts s" "stream_inv opts pieces s"
    and "queue_inv (pl_queue s)" "tr_client_socket tcp \<noteq> kInvalidSocket"
  shows "count_inv opts t"
proof (cases "pl_main s")
  case M_receive
  then have t: "receive_into_slot opts tcp clock s = t" using assms(1) by (simp add: main_step_def)
  have "pl_exit_code t = 0 \<longrightarrow> in_loop (pl_main t)"
    using stream_inv_receive [OF t M_receive assms(3-)] by blast
  then show ?thesis
    using receive_stops_or_publishes [OF t] assms(2) M_receive by (auto simp: count_inv_def)
next
  case (M_timing c m d)
  then show ?thesis
    using assms(1,2) word_Suc_less [of "pl_index s" "ro_expected_frames opts"]
    by (auto simp: main_step_def end_turn_def count_inv_def not_less)
qed (use assms(1,2) in \<open>auto simp: main_defs count_inv_def split: if_splits\<close>)

text \<open>A session that ends early has received fewer frames than it was asked for.\<close>

definition early_inv :: "receiver_options \<Rightarrow> pipeline \<Rightarrow> bool" where
  "early_inv opts s \<longleftrightarrow> (pl_exit_code s \<noteq> 0 \<longrightarrow> pl_index s < ro_expected_frames opts)
     \<and> (pl_exit_code s = 7 \<longrightarrow> pl_failed s)"

lemma early_inv_worker: "worker_step env s = Some t \<Longrightarrow> early_inv opts s \<Longrightarrow> early_inv opts t"
  by (cases "pl_worker s") (auto simp: early_inv_def worker_defs split: if_splits prod.splits)

lemma receive_frame_code: "receive_frame opts tcp clock slot aq = (Inl c, slot', aq') \<Longrightarrow> c \<noteq> 7"
  by (auto simp: receive_frame_def Let_def split: prod.splits bool.splits if_splits)

lemma early_inv_main:
  assumes "main_step opts tcp clock s = Some t" "early_inv opts s" "count_inv opts s" "stream_inv opts pieces s"
  shows "early_inv opts t"
proof (cases "in_loop (pl_main s)")
  case True
  then have "pl_exit_code s = 0" "pl_index s < ro_expected_frames opts"
    using assms(3,4) by (auto simp: count_inv_def stream_inv_def)
  moreover have "pl_exit_code t \<noteq> pl_exit_code s \<longrightarrow> pl_index t = pl_index s \<and> (pl_exit_code t = 7 \<longrightarrow> pl_failed t)"
    using assms(1) receive_frame_code
    by (cases "pl_main s") (auto simp: main_defs receive_into_slot_def split: if_splits prod.splits sum.splits)
  ultimately show ?thesis by (cases "pl_exit_code t = 0") (auto simp: early_inv_def)
next
  case False
  then have "pl_exit_code t = pl_exit_code s" "pl_index t = pl_index s"
    using assms(1) by (cases "pl_main s"; auto simp: main_defs split: if_splits)+
  then show ?thesis using assms(2) main_leaves(4) [OF assms(1)] by (simp add: early_inv_def)
qed

lemma published_bound: "count_inv opts s \<Longrightarrow> length (pl_published s) \<le> unat (ro_expected_frames opts)"
  using after_publish_in_loop [of "pl_main s"]
  by (auto simp: count_inv_def word_less_nat_alt word_le_nat_alt split: if_splits)

section \<open>The frames stored\<close>

text \<open>
  Published frames are stored, or lost by a failed write, or still outstanding.  While the worker holds
  a slot it has written and not yet released, that frame is stored already.
\<close>

fun unwritten :: "worker_pc \<Rightarrow> captured_frame list \<Rightarrow> captured_frame list" where
  "unwritten (W_release True _) items = tl items"
| "unwritten _ items = items"

definition outstanding :: "pipeline \<Rightarrow> bytes list" where
  "outstanding s = map cf_wire (unwritten (pl_worker s) (queue_items (pl_queue s)))"

definition failing :: "pipeline \<Rightarrow> bool" where
  "failing s \<longleftrightarrow> (\<exists>m. pl_worker s = W_fail m) \<or> pl_worker s = W_exited \<and> pl_failed s"

definition healthy :: "pipeline \<Rightarrow> bool" where
  "healthy s \<longleftrightarrow> \<not> failing s \<and> (\<forall>i. pl_worker s \<noteq> W_release False i)"

definition storage_inv :: "filesystem \<Rightarrow> pipeline \<Rightarrow> bool" where
  "storage_inv fs0 s \<longleftrightarrow>
     cw_root (pl_storage s) = capture_root \<and> cw_frames_per_segment (pl_storage s) = 10000
     \<and> (\<exists>lost. map cf_wire (pl_published s) = pl_stored s @ lost @ outstanding s
          \<and> length lost \<le> 1 \<and> (lost \<noteq> [] \<longrightarrow> failing s))
     \<and> (healthy s \<longrightarrow> writer_inv fs0 (pl_stored s) (pl_storage s, pl_fs s))
     \<and> (\<exists>extra. length extra < kWireFrameSize \<and> segments_hold (pl_stored s) extra (pl_storage s) (pl_fs s))
     \<and> (pl_failed s \<longrightarrow> pl_worker s = W_exited)"

lemma storage_inv_same:
  assumes "storage_inv fs0 s" "pl_storage t = pl_storage s" "pl_fs t = pl_fs s" "pl_stored t = pl_stored s"
    "pl_failed t = pl_failed s" "pl_worker t = pl_worker s \<or> pl_worker t = wake (pl_worker s)"
    "map cf_wire (pl_published t) = map cf_wire (pl_published s) @ new" "outstanding t = outstanding s @ new"
  shows "storage_inv fs0 t"
proof -
  have "failing t = failing s" "healthy t = healthy s"
    using assms(6) by (elim disjE; simp add: failing_def healthy_def assms(5))+
  moreover have "pl_worker t = W_exited \<longleftrightarrow> pl_worker s = W_exited" using assms(6) by (elim disjE) simp_all
  ultimately show ?thesis using assms(1-5,7,8) by (auto simp: storage_inv_def)
qed

lemma outstanding_wake:
  "pl_worker t = pl_worker s \<or> pl_worker t = wake (pl_worker s) \<Longrightarrow>
    queue_items (pl_queue t) = queue_items (pl_queue s) \<Longrightarrow> outstanding t = outstanding s"
  by (cases "pl_worker s = W_waiting") (auto simp: outstanding_def)

lemma unwritten_append: "(\<And>i. w = W_release True i \<Longrightarrow> items \<noteq> []) \<Longrightarrow> unwritten w (items @ new) = unwritten w items @ new"
  by (cases "(w, items)" rule: unwritten.cases) simp_all

lemma storage_inv_main:
  assumes "main_step opts tcp clock s = Some t" "storage_inv fs0 s" "slots_safe s"
  shows "storage_inv fs0 t"
proof (cases "\<exists>c m. pl_main s = M_publish c m")
  case True
  then obtain c m where pc: "pl_main s = M_publish c m" by blast
  then have inv: "queue_inv (pl_queue s)" "has_space (pl_queue s)" using assms(3) by (auto simp: slots_safe_def)
  have t: "t = publish_frame c m s" using assms(1) pc by (simp add: main_step_def)
  have "outstanding t = outstanding s @ [cf_wire (producer_slot (pl_queue s))]"
    using assms(3) queue_items_publish [OF inv]
    by (simp add: t publish_frame_def outstanding_def slots_safe_def unwritten_append)
  then show ?thesis
    using storage_inv_same [OF assms(2) main_leaves(1-4,6) [OF assms(1)]] by (simp add: t publish_frame_def)
next
  case False
  then have "pl_published t = pl_published s" "queue_items (pl_queue t) = queue_items (pl_queue s)"
    using assms(1,3)
    by (cases "pl_main s"; auto simp: slots_safe_def main_defs receive_into_slot_def split: if_splits sum.splits prod.splits)+
  then show ?thesis
    using storage_inv_same [OF assms(2) main_leaves(1-4,6) [OF assms(1)], of "[]"] outstanding_wake [of t s]
      main_leaves(6) [OF assms(1)] by simp
qed

lemma captured_slot_hd:
  "queue_inv (pl_queue s) \<Longrightarrow> queue_items (pl_queue s) \<noteq> [] \<Longrightarrow> captured_slot s = hd (queue_items (pl_queue s))"
  using consumer_slot_items [of "pl_queue s"] by (auto simp: captured_slot_def consumer_slot_def split: if_splits)

lemma storage_inv_write:
  assumes "pl_worker s = W_write" "storage_inv fs0 s" "slots_safe s" "count_inv opts s"
  shows "storage_inv fs0 (write_captured env s)"
proof -
  let ?c = "captured_slot s" and ?items = "queue_items (pl_queue s)"
  obtain wrote storage fs where run: "write_frame (cf_wire ?c) (we_write env) (pl_storage s, pl_fs s) = (wrote, storage, fs)"
    by (metis prod_cases3)
  have items: "?items = ?c # tl ?items" using assms(1,3) captured_slot_hd [of s] by (auto simp: slots_safe_def)
  have inv: "writer_inv fs0 (pl_stored s) (pl_storage s, pl_fs s)" and failed: "\<not> pl_failed s"
    and ledger: "map cf_wire (pl_published s) = pl_stored s @ map cf_wire ?items"
    using assms(1,2) by (auto simp: storage_inv_def healthy_def failing_def outstanding_def)
  have "length (pl_published s) = length (pl_stored s) + length ?items" using arg_cong [OF ledger, of length] by simp
  moreover have "0 < length ?items" using items by (metis length_greater_0_conv list.distinct(1))
  ultimately have "length (pl_stored s) + 1 < 2 ^ 64"
    using published_bound [OF assms(4)] unat_u64_less [of "ro_expected_frames opts"] by simp
  note written = write_frame_inv [OF inv _ this] and fails = write_frame_fails [OF inv] and
    config = write_frame_config [OF run]
  show ?thesis
  proof (cases wrote)
    case True
    then have "writer_inv fs0 (pl_stored s @ [cf_wire ?c]) (storage, fs)" using written run by simp
    moreover then have "segments_hold (pl_stored s @ [cf_wire ?c]) [] storage fs" by (simp add: writer_inv_def)
    moreover have "map cf_wire (pl_published s) = (pl_stored s @ [cf_wire ?c]) @ map cf_wire (tl ?items)"
      unfolding ledger by (subst items) simp
    ultimately show ?thesis
      using assms(2) failed True config run
      by (auto simp: storage_inv_def write_captured_def Let_def outstanding_def failing_def intro!: exI [of _ "[]"])
  next
    case False
    then show ?thesis
      using assms(2) fails run failed config ledger
      by (auto simp: storage_inv_def write_captured_def Let_def outstanding_def failing_def healthy_def)
  qed
qed

lemma storage_inv_release:
  assumes "pl_worker s = W_release wrote i" "storage_inv fs0 s" "slots_safe s"
  shows "storage_inv fs0 (release_captured wrote i s)"
proof -
  let ?items = "queue_items (pl_queue s)"
  have items: "?items \<noteq> []" "queue_items (release (pl_queue s)) = tl ?items"
    using assms(1,3) queue_items_release_not_empty by (auto simp: slots_safe_def)
  show ?thesis
  proof (cases wrote)
    case True
    then show ?thesis using assms(1,2) items(2)
      by (auto simp: storage_inv_def release_captured_def outstanding_def failing_def healthy_def Let_def)
  next
    case False
    have "map cf_wire ?items = [cf_wire (hd ?items)] @ map cf_wire (tl ?items)" using items(1) by (cases ?items) auto
    then show ?thesis using assms(1,2) items(2) False
      by (auto simp: storage_inv_def release_captured_def outstanding_def failing_def healthy_def Let_def
          intro!: exI [of _ "[cf_wire (hd ?items)]"])
  qed
qed

lemma storage_inv_flush:
  assumes "pl_worker s = W_flush \<or> pl_worker s = W_final_flush" "storage_inv fs0 s" "go_on = W_poll \<or> go_on = W_exited"
  shows "storage_inv fs0 (flush_captured go_on message env s)"
proof -
  obtain flushed w' where run: "flush_writer (we_flush_ok env) (pl_storage s) = (flushed, w')" by (metis surj_pair)
  then show ?thesis
    using assms flush_writer_inv [OF run]
    by (auto simp: storage_inv_def flush_captured_def outstanding_def failing_def healthy_def)
qed

lemma storage_inv_worker:
  assumes "worker_step env s = Some t" "storage_inv fs0 s" "slots_safe s" "count_inv opts s"
  shows "storage_inv fs0 t"
proof (cases "pl_worker s")
  case W_write
  then show ?thesis using storage_inv_write [OF W_write assms(2-)] assms(1) by (auto simp: worker_step_def)
next
  case (W_release wrote i)
  then show ?thesis using storage_inv_release [OF W_release assms(2,3)] assms(1) by (auto simp: worker_step_def)
next
  case W_flush
  then show ?thesis using storage_inv_flush [of s fs0] assms(1,2) by (auto simp: worker_step_def)
next
  case W_final_flush
  then show ?thesis using storage_inv_flush [of s fs0] assms(1,2) by (auto simp: worker_step_def)
qed (use assms(1,2) in \<open>auto simp: worker_step_def poll_queue_def fail_worker_def storage_inv_def outstanding_def
  failing_def healthy_def\<close>)

section \<open>The threads join at the end\<close>

definition joined_after_exit :: "pipeline \<Rightarrow> bool" where
  "joined_after_exit s \<longleftrightarrow> (pl_main s = M_joined \<longrightarrow> pl_worker s = W_exited)"

lemma joined_after_exit_main:
  "main_step opts tcp clock s = Some t \<Longrightarrow> joined_after_exit s \<Longrightarrow> joined_after_exit t"
  by (cases "pl_main s")
    (auto simp: joined_after_exit_def main_defs receive_into_slot_def split: if_splits sum.splits prod.splits)

lemma joined_after_exit_worker: "worker_step env s = Some t \<Longrightarrow> joined_after_exit s \<Longrightarrow> joined_after_exit t"
  using worker_leaves(1) [of env s t] by (cases "pl_worker s = W_exited") (auto simp: joined_after_exit_def worker_step_def)

section \<open>Reachable states\<close>

lemma receiver_start_session:
  assumes "receiver_start env args = Inr rs"
  shows "parse_receiver_options args = Inr (rs_options rs)"
    "new_capture_queue (ro_capture_queue_frames (rs_options rs)) = Inr (rs_queue rs)"
    "tr_client_socket (rs_receiver rs) \<noteq> kInvalidSocket"
  using assms
  by (auto simp: receiver_start_def receiver_listen_def accept_one_def Let_def
      split: sum.splits if_splits bool.splits option.splits prod.splits)

definition pipeline_inv :: "receiver_session \<Rightarrow> bytes list \<Rightarrow> filesystem \<Rightarrow> pipeline \<Rightarrow> bool" where
  "pipeline_inv rs pieces fs s \<longleftrightarrow> slots_safe s \<and> stream_inv (rs_options rs) pieces s
     \<and> count_inv (rs_options rs) s \<and> early_inv (rs_options rs) s \<and> storage_inv fs s \<and> joined_after_exit s"

lemma new_queue_slots: "new_capture_queue capacity = Inr q \<Longrightarrow> set (cq_slots q) \<subseteq> {blank_slot}"
  by (auto simp: new_capture_queue_def split: if_splits)

lemma new_pipeline_inv:
  assumes "receiver_start env args = Inr rs" "ro_capture_queue_frames (rs_options rs) \<noteq> - 1" "[] \<notin> set pieces"
  shows "pipeline_inv rs pieces fs (new_pipeline rs pieces fs)"
proof -
  let ?s = "new_pipeline rs pieces fs"
  note new = receiver_start_session(2) [OF assms(1)]
  have q: "queue_inv (rs_queue rs)" "queue_items (rs_queue rs) = []"
    using new_capture_queue_inv [OF new assms(2)] by simp_all
  have rec: "received ?s = []" by (simp add: received_def pending_def new_pipeline_def next_turn_def)
  have "slots_safe ?s" using q by (simp add: slots_safe_def new_pipeline_def)
  moreover have "stream_inv (rs_options rs) pieces ?s"
    using assms(3) new_queue_slots [OF new] unfolding stream_inv_def rec
    by (auto simp: new_pipeline_def new_acquisition_def observe_run_def blank_slot_def)
  moreover have "count_inv (rs_options rs) ?s"
    by (simp add: count_inv_def new_pipeline_def word_less_nat_alt unat_eq_0)
  moreover have "early_inv (rs_options rs) ?s" by (simp add: early_inv_def new_pipeline_def)
  moreover have "storage_inv fs ?s"
    using q new_writer_inv [of 10000 fs capture_root]
    by (auto simp: storage_inv_def new_pipeline_def outstanding_def new_capture_writer_def writer_inv_def
        intro!: exI [of _ "[]"])
  moreover have "joined_after_exit ?s" by (simp add: joined_after_exit_def new_pipeline_def next_turn_def)
  ultimately show ?thesis by (simp add: pipeline_inv_def)
qed

lemma pipeline_inv_step:
  assumes "pipeline_step_spurious (rs_options rs) (rs_receiver rs) s t" "pipeline_inv rs pieces fs s"
    and "tr_client_socket (rs_receiver rs) \<noteq> kInvalidSocket"
  shows "pipeline_inv rs pieces fs t"
  using assms(1)
proof (cases rule: any_step)
  case (main clock)
  then show ?thesis
    using assms(2,3) slots_safe_main stream_inv_main count_inv_main early_inv_main storage_inv_main joined_after_exit_main
    unfolding pipeline_inv_def slots_safe_def by metis
next
  case (worker env)
  then show ?thesis
    using assms(2) slots_safe_worker stream_inv_worker count_inv_worker early_inv_worker storage_inv_worker joined_after_exit_worker
    unfolding pipeline_inv_def by metis
next
  case wakes
  have "slots_safe t" "count_inv (rs_options rs) t" "early_inv (rs_options rs) t" "joined_after_exit t" using assms(2) wakes
    by (simp_all add: pipeline_inv_def slots_safe_def count_inv_def early_inv_def joined_after_exit_def)
  moreover have "stream_inv (rs_options rs) pieces t"
    using assms(2) wakes by (simp add: pipeline_inv_def stream_inv_def received_worker)
  moreover have "storage_inv fs t"
    using assms(2) wakes by (auto simp: pipeline_inv_def storage_inv_def outstanding_def healthy_def failing_def)
  ultimately show ?thesis by (simp add: pipeline_inv_def)
qed

lemma reachable_inv:
  assumes "receiver_start env args = Inr rs" "ro_capture_queue_frames (rs_options rs) \<noteq> - 1" "[] \<notin> set pieces"
  shows "reachable rs pieces fs s \<Longrightarrow> pipeline_inv rs pieces fs s"
proof (induction rule: reachable.induct)
  case start
  show ?case by (rule new_pipeline_inv) (rule assms)+
next
  case (step s t)
  then show ?case using pipeline_inv_step receiver_start_session(3) [OF assms(1)] by blast
qed

section \<open>What is returned\<close>

lemma observe_run_count:
  assumes "length ids < 2 ^ 64"
  shows "cs_frame_count (ld_stats (observe_run ids)) = of_nat (length ids)"
proof (cases "ids = []")
  case True
  then show ?thesis by (simp add: observe_run_def new_loss_detector_def)
next
  case False
  then have "unat (cs_frame_count (ld_stats (observe_run ids))) = length ids"
    using run_count assms by (simp add: run_stats_def)
  then show ?thesis using assms by (simp add: word_unat_eq_iff word_less_of_nat)
qed

text \<open>What the process returns is decided by the exit code of the loop and by the worker's failure.\<close>

lemma joined_frames:
  assumes "pipeline_inv rs pieces fs s" "pl_main s = M_joined" "pl_exit_code s = 0"
  shows "length (received s) = unat (ro_expected_frames (rs_options rs))"
    "cs_frame_count (ld_stats (aq_continuity (pl_aq s))) = ro_expected_frames (rs_options rs)"
proof -
  have rec: "received s = pl_published s" using assms(2) by (simp add: received_def pending_def)
  show len: "length (received s) = unat (ro_expected_frames (rs_options rs))"
    unfolding rec using assms by (simp add: pipeline_inv_def count_inv_def)
  then have "length (map cf_frame_id (received s)) < 2 ^ 64" using unat_u64_less by simp
  from observe_run_count [OF this]
  show "cs_frame_count (ld_stats (aq_continuity (pl_aq s))) = ro_expected_frames (rs_options rs)"
    using assms(1) len by (simp add: pipeline_inv_def stream_inv_def)
qed

lemma final_snapshot_count [simp]:
  "mt_frame_count (final_snapshot opts queue high_water write_stats aq) = cs_frame_count (ld_stats (aq_continuity aq))"
  by (simp add: final_snapshot_def Let_def)

lemma receiver_finish_status:
  "exit_status (receiver_finish show_double now opts queue high_water write_stats writer_failed exit_code aq) =
     (if exit_code \<noteq> 0 then exit_code else if writer_failed then 7
      else if cs_frame_count (ld_stats (aq_continuity aq)) = ro_expected_frames opts then 0 else 6)"
  by (simp add: receiver_finish_def Let_def)

lemma joined_status:
  assumes "pipeline_inv rs pieces fs s" "pl_main s = M_joined"
  shows "exit_status (pipeline_result show_double now (rs_options rs) s)
    = (if pl_exit_code s \<noteq> 0 then pl_exit_code s else if pl_failed s then 7 else 0)"
  using joined_frames(2) [OF assms] by (simp add: pipeline_result_def receiver_finish_status)

end
