(* ===== verification/Pipeline_Runs.thy ===== *)
theory Pipeline_Runs
  imports Pipeline_Safety
begin

text \<open>
  Executions of the two threads put together step by step: a whole turn of the receive loop, the way
  of an idle worker to the condition variable, and a concrete session for them.
\<close>

section \<open>One thread at a time\<close>

lemma reachable_main:
  "reachable rs pieces fs s \<Longrightarrow> main_step (rs_options rs) (rs_receiver rs) clock s = Some t \<Longrightarrow> reachable rs pieces fs t"
  by (blast intro: reachable.step pipeline_step_spurious.moves main_moves)

lemma reachable_worker:
  "reachable rs pieces fs s \<Longrightarrow> worker_step env s = Some t \<Longrightarrow> reachable rs pieces fs t"
  by (blast intro: reachable.step pipeline_step_spurious.moves worker_moves)

text \<open>An idle worker: it has found the queue empty.\<close>

lemma poll_empty:
  assumes "reachable rs pieces fs s" "pl_worker s = W_poll" "queue_inv (pl_queue s)" "queue_items (pl_queue s) = []"
  shows "reachable rs pieces fs (s\<lparr>pl_worker := W_load_done\<rparr>)"
  using reachable_worker [OF assms(1), of _ "s\<lparr>pl_worker := W_load_done\<rparr>"] assms(2-)
  by (simp add: worker_step_def poll_queue_def consumer_slot_items)

lemma idle_until_block:
  assumes "reachable rs pieces fs s" "pl_worker s = W_load_done" "\<not> pl_done s" "queue_inv (pl_queue s)"
    "queue_items (pl_queue s) = []"
  shows "reachable rs pieces fs (s\<lparr>pl_worker := W_block\<rparr>)"
proof -
  have "reachable rs pieces fs (s\<lparr>pl_worker := W_test_done\<rparr>)"
    using reachable_worker [OF assms(1), of _ "s\<lparr>pl_worker := W_test_done\<rparr>"] assms(2,3) by (simp add: worker_step_def)
  from reachable_worker [OF this, of _ "s\<lparr>pl_worker := W_test_empty\<rparr>"]
  have "reachable rs pieces fs (s\<lparr>pl_worker := W_test_empty\<rparr>)" using assms(3) by (simp add: worker_step_def)
  from reachable_worker [OF this, of _ "s\<lparr>pl_worker := W_block\<rparr>"]
  show ?thesis using assms(4,5) by (simp add: worker_step_def queue_empty_iff)
qed

text \<open>A whole turn of the receive loop, during which the worker does not move.\<close>

lemma whole_turn:
  assumes "reachable rs pieces fs s" "pipeline_inv rs pieces fs s" "pl_main s = M_check" "\<not> pl_failed s"
    and "has_space (pl_queue s)" "frame_verdict (rs_options rs) (concat (aq_pieces (pl_aq s))) = 0"
    and "tr_client_socket (rs_receiver rs) \<noteq> kInvalidSocket" "pl_worker s \<noteq> W_waiting"
  obtains t c where "reachable rs pieces fs t" "pl_main t = next_turn (rs_options rs) (pl_index s + 1)"
    "pl_worker t = pl_worker s" "pl_queue t = put_frame c (pl_queue s)" "pl_published t = pl_published s @ [c]"
    "pl_index t = pl_index s + 1" "pl_done t = pl_done s" "pl_failed t = pl_failed s" "pl_storage t = pl_storage s"
    "pl_stored t = pl_stored s" "pl_exit_code t = pl_exit_code s" "pl_fs t = pl_fs s" "pl_since_flush t = pl_since_flush s"
proof -
  let ?o = "rs_options rs" and ?tcp = "rs_receiver rs" and ?q = "pl_queue s"
  let ?clock = "\<lparr>tc_wire_complete = 0, tc_parse_start = 0, tc_parse_end = 0\<rparr>"
  have s2: "reachable rs pieces fs (s\<lparr>pl_main := M_receive\<rparr>)"
    using reachable_main [OF reachable_main [OF assms(1)], of ?clock "s\<lparr>pl_main := M_space\<rparr>" ?clock] assms(3-5)
    by (simp add: main_defs)
  have inv: "queue_inv ?q" and sized: "\<forall>c\<in>set (cq_slots ?q). length (cf_wire c) = kWireFrameSize"
    and code: "pl_exit_code s = 0"
    using assms(2,3) by (auto simp: pipeline_inv_def slots_safe_def stream_inv_def)
  then have sized: "length (cf_wire (producer_slot ?q)) = kWireFrameSize"
    by (simp add: queue_inv_def producer_slot_def)
  have pieces: "[] \<notin> set (aq_pieces (pl_aq s))" using assms(2) code by (auto simp: pipeline_inv_def stream_inv_def)
  obtain res c aq where run: "receive_frame ?o ?tcp ?clock (producer_slot ?q) (pl_aq s) = (res, c, aq)"
    by (metis prod_cases3)
  then obtain tms where res: "res = Inr tms"
    using receive_frame_spec [OF run assms(7) pieces sized] assms(6) by (cases res) auto
  let ?s3 = "s\<lparr>pl_queue := set_producer_slot c ?q, pl_aq := aq, pl_main := M_publish ?clock tms\<rparr>"
  let ?s4 = "publish_frame ?clock tms ?s3"
  let ?s5 = "note_depth ?clock tms ?s4"
  let ?d = "queue_size (pl_queue ?s4)"
  let ?s6 = "notify_worker (M_timing ?clock tms ?d) ?s5"
  let ?s7 = "end_turn ?o ?clock tms ?d ?s6"
  have "reachable rs pieces fs ?s3"
    using reachable_main [OF s2, of ?clock ?s3] run res by (simp add: main_step_def receive_into_slot_def)
  then have "reachable rs pieces fs ?s4" by (rule reachable_main [of _ _ _ _ ?clock]) (simp add: main_step_def)
  then have "reachable rs pieces fs ?s5"
    by (rule reachable_main [of _ _ _ _ ?clock]) (simp add: main_step_def publish_frame_def)
  then have "reachable rs pieces fs ?s6"
    by (rule reachable_main [of _ _ _ _ ?clock]) (simp add: main_step_def note_depth_def Let_def)
  then have r7: "reachable rs pieces fs ?s7"
    by (rule reachable_main [of _ _ _ _ ?clock]) (simp add: main_step_def notify_worker_def)
  show thesis
    by (rule that [OF r7, of c])
      (use assms(8) inv in \<open>simp_all add: end_turn_def notify_worker_def note_depth_def publish_frame_def
         put_frame_def Let_def\<close>)
qed

section \<open>A session for one frame\<close>

definition one_frame_options :: receiver_options where
  "one_frame_options = default_receiver_options\<lparr>ro_expected_frames := 1, ro_capture_queue_frames := 1\<rparr>"

definition quiet_env :: receiver_env where
  "quiet_env = \<lparr>re_directories = True, re_log_file = Some [], re_metrics_file = Some [], re_timing_opens = True,
     re_timing_device = \<lparr>dv_room = 0, dv_spills = []\<rparr>, re_getaddrinfo = (\<lambda>_. Some [\<lparr>at_socket = 3, at_binds = [True], at_connects = True\<rparr>]),
     re_accept = 4, re_world = \<lparr>tw_open = [0, 1, 2], tw_address_lists = 0\<rparr>\<rparr>"

lemma one_frame_session:
  obtains rs where "receiver_start quiet_env (receiver_command_line one_frame_options) = Inr rs"
    "rs_options rs = one_frame_options"
proof -
  have parsed: "parse_receiver_options (receiver_command_line one_frame_options) = Inr one_frame_options"
    by (rule parse_receiver_command_line)
      (simp_all add: one_frame_options_def default_receiver_options_def receiver_options_ok_def starts_with_def
        kMaxSampleRateHz_def kSampleRateHz_def kDefaultCaptureQueueFrames_def)
  have "\<exists>rs. receiver_start quiet_env (receiver_command_line one_frame_options) = Inr rs \<and> rs_options rs = one_frame_options"
    using parsed
    by (simp add: receiver_start_def receiver_listen_def quiet_env_def listen_on_def close_receiver_def
        new_tcp_receiver_def kInvalidSocket_def Let_def new_capture_queue_def accept_one_def one_frame_options_def
        default_receiver_options_def open_handle_def)
  then show thesis using that by blast
qed


end
