(* ===== verification/Pipeline_Properties.thy ===== *)
theory Pipeline_Properties
  imports Pipeline_Runs
begin

text \<open>
  The properties of the two threads of the receiver: what can never happen, what the exit code says,
  and the two executions that go wrong at the very end.
\<close>

lemma started_queue:
  assumes "receiver_start env args = Inr rs" and "ro_capture_queue_frames (rs_options rs) \<noteq> - 1"
  shows "queue_inv (rs_queue rs)" "queue_items (rs_queue rs) = []" "has_space (rs_queue rs)" "queue_size (rs_queue rs) = 0"
proof -
  show inv: "queue_inv (rs_queue rs)" and items: "queue_items (rs_queue rs) = []"
    using new_capture_queue_inv [OF receiver_start_session(2) [OF assms(1)] assms(2)] by simp_all
  then show "queue_size (rs_queue rs) = 0" by (metis length_queue_items list.size(3))
  then show "has_space (rs_queue rs)" using inv has_space_iff by (simp add: queue_inv_def)
qed

text \<open>The only turn of a receiver that expects one frame, with the worker held up anywhere.\<close>

lemma only_turn:
  assumes "receiver_start env args = Inr rs" and "ro_capture_queue_frames (rs_options rs) \<noteq> - 1"
    and "[] \<notin> set pieces" and "ro_expected_frames (rs_options rs) = 1"
    and "frame_verdict (rs_options rs) (concat pieces) = 0"
    and start: "reachable rs pieces fs ((new_pipeline rs pieces fs)\<lparr>pl_worker := w\<rparr>)" and "w \<noteq> W_waiting"
  obtains t c where "reachable rs pieces fs t" "pl_main t = M_set_done" "pl_worker t = w"
    "pl_queue t = put_frame c (rs_queue rs)" "pl_published t = [c]" "\<not> pl_failed t"
    "pl_storage t = new_capture_writer capture_root 10000" "pl_stored t = []" "pl_exit_code t = 0"
    "pl_fs t = fs" "pl_since_flush t = 0"
proof (rule whole_turn [OF start reachable_inv [OF assms(1-3) start] _ _ _ _ receiver_start_session(3) [OF assms(1)]],
    goal_cases)
  case (6 t c)
  then show ?case using assms(4) by (intro that [of t c]) (simp_all add: new_pipeline_def next_turn_def)
qed (use assms started_queue [OF assms(1,2)] in
  \<open>simp_all add: new_pipeline_def next_turn_def new_acquisition_def\<close>)

text \<open>The worker looks at the flag between two frames; the last frame comes in between.\<close>

lemma early_end_run:
  assumes "receiver_start env args = Inr rs" and "ro_capture_queue_frames (rs_options rs) \<noteq> - 1"
    and "[] \<notin> set pieces" and "ro_expected_frames (rs_options rs) = 1"
    and "frame_verdict (rs_options rs) (concat pieces) = 0"
  shows "\<exists>s. reachable rs pieces fs s \<and> pl_main s = M_joined
    \<and> exit_status (pipeline_result show_double now (rs_options rs) s) = 0
    \<and> length (pl_published s) = 1 \<and> pl_stored s = [] \<and> queue_size (pl_queue s) = 1"
proof -
  let ?s0 = "new_pipeline rs pieces fs"
  let ?s1 = "?s0\<lparr>pl_worker := W_load_done\<rparr>"
  note inv0 = new_pipeline_inv [OF assms(1-3), of fs]
  have q: "queue_inv (rs_queue rs)" "queue_items (rs_queue rs) = []" "has_space (rs_queue rs)"
    using started_queue [OF assms(1,2)] by simp_all
  have r1: "reachable rs pieces fs ?s1"
    using q by (intro poll_empty reachable.start) (simp_all add: new_pipeline_def)
  obtain t c where t: "reachable rs pieces fs t" "pl_main t = M_set_done" "pl_worker t = W_load_done"
      "pl_queue t = put_frame c (rs_queue rs)" "pl_published t = [c]" "pl_failed t = False"
      "pl_storage t = new_capture_writer capture_root 10000" "pl_stored t = []" "pl_exit_code t = 0"
    by (rule only_turn [OF assms r1]) simp_all
  let ?t1 = "t\<lparr>pl_done := True, pl_main := M_notify_all\<rparr>"
  let ?t2 = "?t1\<lparr>pl_main := M_join\<rparr>"
  let ?t5 = "?t2\<lparr>pl_worker := W_exited\<rparr>"
  have "reachable rs pieces fs ?t1" by (rule reachable_main [OF t(1)]) (simp add: main_step_def t(2))
  then have r2: "reachable rs pieces fs ?t2"
    by (rule reachable_main) (simp add: main_step_def notify_worker_def t(3))
  then have "reachable rs pieces fs (?t2\<lparr>pl_worker := W_final_flush\<rparr>)"
    by (rule reachable_worker) (simp add: worker_step_def t(3))
  then have "reachable rs pieces fs ?t5"
    by (rule reachable_worker)
      (simp add: worker_step_def flush_captured_def flush_writer_def t(7) new_capture_writer_def)
  then have r6: "reachable rs pieces fs (?t5\<lparr>pl_main := M_joined\<rparr>)"
    by (rule reachable_main) (simp add: main_step_def)
  have "pl_exit_code (?t5\<lparr>pl_main := M_joined\<rparr>) = 0" "\<not> pl_failed (?t5\<lparr>pl_main := M_joined\<rparr>)"
    using t by simp_all
  then have "exit_status (pipeline_result show_double now (rs_options rs) (?t5\<lparr>pl_main := M_joined\<rparr>)) = 0"
    using joined_status [OF reachable_inv [OF assms(1-3) r6]] by simp
  then show ?thesis
    using r6 t started_queue(4) [OF assms(1,2)] queue_size_put [OF q(1,3), of c] by (intro exI [of _ "?t5\<lparr>pl_main := M_joined\<rparr>"]) simp
qed

text \<open>The run as it is meant: the worker writes the frame, and ends after the flag is set.\<close>

lemma complete_run:
  assumes "receiver_start env args = Inr rs" and "ro_capture_queue_frames (rs_options rs) \<noteq> - 1"
    and "[] \<notin> set pieces" and "ro_expected_frames (rs_options rs) = 1"
    and "frame_verdict (rs_options rs) (concat pieces) = 0"
  shows "\<exists>s. reachable rs pieces [] s \<and> pl_main s = M_joined
    \<and> exit_status (pipeline_result show_double now (rs_options rs) s) = 0
    \<and> length (pl_stored s) = 1 \<and> queue_items (pl_queue s) = [] \<and> is_directory (pl_fs s) capture_root"
proof -
  let ?env = "\<lparr>we_write = all_ok, we_start = 0, we_end = 0, we_flush_ok = True\<rparr>"
  have q: "queue_inv (rs_queue rs)" "queue_items (rs_queue rs) = []" "has_space (rs_queue rs)"
    using started_queue [OF assms(1,2)] by simp_all
  have "reachable rs pieces [] ((new_pipeline rs pieces [])\<lparr>pl_worker := W_poll\<rparr>)"
    using reachable.start [of rs pieces "[]"] by (simp add: new_pipeline_def)
  then obtain t c where t: "reachable rs pieces [] t" "pl_main t = M_set_done" "pl_worker t = W_poll"
      "pl_queue t = put_frame c (rs_queue rs)" "pl_published t = [c]" "\<not> pl_failed t"
      "pl_storage t = new_capture_writer capture_root 10000" "pl_stored t = []" "pl_exit_code t = 0"
      "pl_fs t = []" "pl_since_flush t = 0"
    by (rule only_turn [OF assms]) simp
  have items: "queue_items (pl_queue t) = [c]" and inv: "queue_inv (pl_queue t)"
    using q queue_items_put [OF q(1,3), of c] put_frame_inv [OF q(1), of c] by (simp_all add: t(4))
  have sized: "length (cf_wire c) = kWireFrameSize"
    using reachable_inv [OF assms(1-3) t(1)] t(2,5)
    by (auto simp: pipeline_inv_def stream_inv_def received_def pending_def good_frame_def)
  let ?t1 = "t\<lparr>pl_worker := W_write\<rparr>"
  have r1: "reachable rs pieces [] ?t1"
    by (rule reachable_worker [OF t(1)])
      (use inv items in \<open>simp add: worker_step_def t(3) poll_queue_def consumer_slot_items\<close>)
  define t2 where "t2 = write_captured ?env ?t1"
  have r2: "reachable rs pieces [] t2"
    by (rule reachable_worker [OF r1, of ?env]) (simp add: worker_step_def t2_def)
  have slot: "captured_slot ?t1 = c"
    using captured_slot_hd [of ?t1] inv items by simp
  have t2: "pl_main t2 = M_set_done" "\<exists>i. pl_worker t2 = W_release True i" "pl_queue t2 = pl_queue t"
      "pl_stored t2 = [cf_wire c]" "\<not> pl_failed t2" "pl_exit_code t2 = 0" "pl_since_flush t2 = 0"
      "cw_good (pl_storage t2)" "is_directory (pl_fs t2) capture_root"
    using t sized
    by (simp_all add: t2_def write_captured_def slot write_frame_def open_segment_def new_capture_writer_def all_ok_def
        Let_def segment_path_def append_file_def create_directories_def capture_root_def is_directory_def)
  then obtain i where i: "pl_worker t2 = W_release True i" by blast
  let ?t3 = "release_captured True i t2"
  have r3: "reachable rs pieces [] ?t3" by (rule reachable_worker [OF r2]) (simp add: worker_step_def i)
  have t3: "pl_main ?t3 = M_set_done" "pl_worker ?t3 = W_poll" "pl_queue ?t3 = release (pl_queue t)"
    using t2 by (simp_all add: release_captured_def kStorageFlushFrames_def)
  have drained: "queue_items (release (pl_queue t)) = []"
    using queue_items_release_not_empty [OF inv] items by simp
  let ?t4 = "?t3\<lparr>pl_done := True, pl_main := M_notify_all\<rparr>"
  let ?t5 = "?t4\<lparr>pl_main := M_join\<rparr>"
  let ?t6 = "?t5\<lparr>pl_worker := W_load_done\<rparr>"
  let ?t7 = "?t6\<lparr>pl_worker := W_final_flush\<rparr>"
  have "reachable rs pieces [] ?t4" by (rule reachable_main [OF r3]) (simp add: main_step_def t3)
  then have r5: "reachable rs pieces [] ?t5"
    by (rule reachable_main) (simp add: main_step_def notify_worker_def t3)
  have "reachable rs pieces [] ?t6"
    by (rule poll_empty [OF r5]) (use drained release_inv [OF inv] in \<open>simp_all add: t3\<close>)
  then have r7: "reachable rs pieces [] ?t7" by (rule reachable_worker) (simp add: worker_step_def)
  define t8 where "t8 = flush_captured W_exited ''failed to flush capture files during shutdown'' ?env ?t7"
  have r8: "reachable rs pieces [] t8"
    by (rule reachable_worker [OF r7, of ?env]) (simp add: worker_step_def t8_def)
  have t8: "pl_main t8 = M_join" "pl_worker t8 = W_exited" "pl_queue t8 = release (pl_queue t)" "pl_stored t8 = [cf_wire c]"
      "\<not> pl_failed t8" "pl_exit_code t8 = 0" "is_directory (pl_fs t8) capture_root"
    using t2 by (simp_all add: t8_def flush_captured_def flush_writer_def Let_def release_captured_def kStorageFlushFrames_def)
  let ?t9 = "t8\<lparr>pl_main := M_joined\<rparr>"
  have r9: "reachable rs pieces [] ?t9" by (rule reachable_main [OF r8]) (simp add: main_step_def t8)
  have "exit_status (pipeline_result show_double now (rs_options rs) ?t9) = 0"
    using joined_status [OF reachable_inv [OF assms(1-3) r9]] t8 by simp
  then show ?thesis using r9 t8 drained by (intro exI [of _ ?t9]) simp
qed

text \<open>A stream of one frame that the session accepts.\<close>

definition frame_seven :: bytes where
  "frame_seven = encode_frame (fill_frame default_frame 7 0 0 200)"

lemma frame_seven:
  assumes "rs_options rs = one_frame_options"
  shows "ro_capture_queue_frames (rs_options rs) \<noteq> - 1" "[] \<notin> set [frame_seven]"
    "ro_expected_frames (rs_options rs) = 1" "frame_verdict (rs_options rs) (concat [frame_seven]) = 0"
proof -
  have "frame_verdict one_frame_options (frame_seven @ []) = 0"
    unfolding frame_seven_def
    by (rule verdict_of_simulated)
      (simp_all add: one_frame_options_def default_receiver_options_def kSampleRateHz_def kMaxSampleRateHz_def)
  then show "frame_verdict (rs_options rs) (concat [frame_seven]) = 0" using assms by simp
  moreover have "frame_verdict (rs_options rs) (concat [[]]) \<noteq> 0" by (simp add: frame_verdict_def)
  ultimately show "[] \<notin> set [frame_seven]" by (metis empty_iff empty_set set_ConsD)
qed (simp_all add: assms one_frame_options_def)

section \<open>Properties\<close>

text \<open>
  What the C++ types of the shared state promise: the ring has one slot more than the capacity asked
  for, every slot is an array of the wire frame's size, the indices point into the ring, the turn does
  not pass the frames expected, and the exit code is one the loop can set, outside the loop.
\<close>

definition pipeline_typed :: "receiver_options \<Rightarrow> pipeline \<Rightarrow> bool" where
  "pipeline_typed opts s \<longleftrightarrow>
     length (cq_slots (pl_queue s)) = unat (ro_capture_queue_frames opts) + 1
     \<and> cq_producer_index (pl_queue s) < length (cq_slots (pl_queue s))
     \<and> cq_consumer_index (pl_queue s) < length (cq_slots (pl_queue s))
     \<and> (\<forall>c\<in>set (cq_slots (pl_queue s)). length (cf_wire c) = kWireFrameSize)
     \<and> pl_index s \<le> ro_expected_frames opts
     \<and> pl_exit_code s \<in> {0, 3, 4, 5, 7, 9} \<and> (pl_exit_code s = 0 \<or> \<not> in_loop (pl_main s))"

lemma main_step_slots: "main_step opts tcp clock s = Some t \<Longrightarrow> length (cq_slots (pl_queue t)) = length (cq_slots (pl_queue s))"
  by (cases "pl_main s")
    (auto simp: main_defs receive_into_slot_def set_producer_slot_def publish_def split: if_splits prod.splits sum.splits)

lemma reachable_slots:
  assumes "receiver_start env args = Inr rs" and "ro_capture_queue_frames (rs_options rs) \<noteq> - 1"
  shows "reachable rs pieces fs s \<Longrightarrow>
    length (cq_slots (pl_queue s)) = unat (ro_capture_queue_frames (rs_options rs)) + 1"
proof (induction rule: reachable.induct)
  case start
  have "queue_inv (rs_queue rs)" "cq_capacity (rs_queue rs) = ro_capture_queue_frames (rs_options rs)"
    using started_queue(1) [OF assms] receiver_start_session(2) [OF assms(1)]
    by (auto simp: new_capture_queue_def split: if_splits dest: arg_cong [of _ _ cq_capacity])
  then show ?case by (simp add: queue_inv_def new_pipeline_def)
next
  case (step s t)
  from step.hyps(2) show ?case
    by (cases rule: any_step) (use step.IH main_step_slots worker_leaves(7) in \<open>auto simp: worker_leaves(7)\<close>)
qed

lemma reachable_typed:
  assumes "receiver_start env args = Inr rs" and "ro_capture_queue_frames (rs_options rs) \<noteq> - 1"
    and "[] \<notin> set pieces" and "reachable rs pieces fs s"
  shows "pipeline_typed (rs_options rs) s"
  using reachable_inv [OF assms] reachable_slots [OF assms(1,2,4)]
  by (auto simp: pipeline_inv_def slots_safe_def queue_inv_def stream_inv_def count_inv_def documented_def pipeline_typed_def)

text \<open>
  C13: the receiver is type safe.  In every reachable state the shared state is
  what its C++ types promise, and the receiving thread is not stuck: it has joined, or waits in
  \<open>join\<close> for a worker that has not returned, or whatever the clock says and the peer has sent can
  make its next step, into a state that is well-typed again.
\<close>

theorem pipeline_type_safe:
  assumes "receiver_start env args = Inr rs" and "ro_capture_queue_frames (rs_options rs) \<noteq> - 1"
    and "[] \<notin> set pieces" and "reachable rs pieces fs s"
  shows "pipeline_typed (rs_options rs) s
    \<and> (pl_main s = M_joined \<or> pl_main s = M_join \<and> pl_worker s \<noteq> W_exited
       \<or> (\<forall>clock. \<exists>t. main_step (rs_options rs) (rs_receiver rs) clock s = Some t \<and> pipeline_typed (rs_options rs) t))"
proof -
  have "pipeline_typed (rs_options rs) t" if "main_step (rs_options rs) (rs_receiver rs) clock s = Some t" for clock t
    using reachable_typed [OF assms(1-3) reachable_main [OF assms(4) that]] .
  moreover have "\<exists>t. main_step (rs_options rs) (rs_receiver rs) clock s = Some t"
    if "pl_main s \<noteq> M_joined" "\<not> (pl_main s = M_join \<and> pl_worker s \<noteq> W_exited)" for clock
    using that by (cases "pl_main s") (auto simp: main_step_def)
  ultimately show ?thesis using reachable_typed [OF assms] by blast
qed

text \<open>
  C12: the threads never use the same slot.  In every reachable state in which the receiving thread
  fills a slot while the worker writes one to disk, these are different slots, and the slot being
  filled is not among those that wait to be written.
\<close>

theorem slots_never_shared:
  assumes "receiver_start env args = Inr rs" and "ro_capture_queue_frames (rs_options rs) \<noteq> - 1"
    and "[] \<notin> set pieces" and "reachable rs pieces fs s"
    and "filling (pl_main s)"
  shows "(draining (pl_worker s) \<longrightarrow> cq_producer_index (pl_queue s) \<noteq> cq_consumer_index (pl_queue s))
    \<and> (\<forall>c. queue_items (set_producer_slot c (pl_queue s)) = queue_items (pl_queue s))
    \<and> has_space (pl_queue s)"
  using reachable_inv [OF assms(1-4)] assms(5) queue_empty_iff [of "pl_queue s"]
  by (auto simp: pipeline_inv_def slots_safe_def queue_empty_def)

text \<open>
  C3: no frame is lost, doubled or reordered on the way to the files while the program runs.  The
  frames received are the beginning of the stream, each with the verdict \<open>accepted\<close>; the frames
  published are, in order, those stored, at most one that a failed write has lost, and those still
  waiting in the queue; and the segment files hold the frames stored, with less than one frame of
  extra bytes.
\<close>

theorem frames_accounted_for:
  assumes "receiver_start env args = Inr rs" and "ro_capture_queue_frames (rs_options rs) \<noteq> - 1"
    and "[] \<notin> set pieces" and "reachable rs pieces fs s"
  shows "(\<exists>rest. concat pieces = concat (map cf_wire (received s)) @ rest)
    \<and> (\<forall>c\<in>set (received s). good_frame (rs_options rs) c)
    \<and> (\<exists>lost. map cf_wire (pl_published s) = pl_stored s @ lost @ outstanding s
         \<and> length lost \<le> 1 \<and> (lost \<noteq> [] \<longrightarrow> failing s))
    \<and> (\<exists>extra. length extra < kWireFrameSize \<and> segments_hold (pl_stored s) extra (pl_storage s) (pl_fs s))"
  using reachable_inv [OF assms] unfolding pipeline_inv_def stream_inv_def storage_inv_def by metis

text \<open>The end of a session.\<close>

lemma session_end:
  assumes "receiver_start env args = Inr rs" and "ro_capture_queue_frames (rs_options rs) \<noteq> - 1"
    and "[] \<notin> set pieces" and "reachable rs pieces fs s" and "pl_main s = M_joined"
  shows "let status = exit_status (pipeline_result show_double now (rs_options rs) s);
             stored = pl_stored s; waiting = map cf_wire (queue_items (pl_queue s));
             expected = unat (ro_expected_frames (rs_options rs))
    in (status = 0 \<or> status = 3 \<or> status = 4 \<or> status = 5 \<or> status = 7 \<or> status = 9)
       \<and> (\<forall>c\<in>set (received s). good_frame (rs_options rs) c)
       \<and> (\<exists>rest. concat pieces = concat (map cf_wire (received s)) @ rest
            \<and> (status = 3 \<or> status = 4 \<or> status = 5 \<longrightarrow> frame_verdict (rs_options rs) rest = status))
       \<and> (status = 7 \<longrightarrow> pl_failed s)
       \<and> (status \<noteq> 0 \<and> status \<noteq> 7 \<longrightarrow> length (received s) < expected)
       \<and> (status = 0 \<longrightarrow>
            length (received s) = expected
            \<and> map cf_wire (received s) = stored @ waiting
            \<and> writer_inv fs stored (pl_storage s, pl_fs s))"
proof -
  note inv = reachable_inv [OF assms(1-4)]
  have worker: "pl_worker s = W_exited"
    using inv assms(5) by (auto simp: pipeline_inv_def joined_after_exit_def)
  let ?status = "exit_status (pipeline_result show_double now (rs_options rs) s)"
  note status = joined_status [OF inv assms(5), of show_double now]
  have rec: "received s = pl_published s" using assms(5) by (simp add: received_def pending_def)
  have "documented ?status" "?status = 7 \<longrightarrow> pl_failed s"
    unfolding status using inv by (simp_all add: pipeline_inv_def stream_inv_def early_inv_def)
  moreover have "?status \<noteq> 0 \<and> ?status \<noteq> 7 \<longrightarrow> length (received s) < unat (ro_expected_frames (rs_options rs))"
    unfolding status rec using inv assms(5)
    by (auto simp: pipeline_inv_def early_inv_def count_inv_def word_less_nat_alt)
  moreover obtain rest where "concat pieces = concat (map cf_wire (received s)) @ rest"
    "stream_code (pl_exit_code s) \<longrightarrow> frame_verdict (rs_options rs) rest = pl_exit_code s"
    using inv by (auto simp: pipeline_inv_def stream_inv_def)
  then have "\<exists>rest. concat pieces = concat (map cf_wire (received s)) @ rest
      \<and> (?status = 3 \<or> ?status = 4 \<or> ?status = 5 \<longrightarrow> frame_verdict (rs_options rs) rest = ?status)"
    unfolding status by (intro exI [of _ rest]) auto
  moreover have "\<forall>c\<in>set (received s). good_frame (rs_options rs) c"
    using inv by (simp add: pipeline_inv_def stream_inv_def)
  moreover have "map cf_wire (received s) = pl_stored s @ map cf_wire (queue_items (pl_queue s))"
    "writer_inv fs (pl_stored s) (pl_storage s, pl_fs s)" "length (received s) = unat (ro_expected_frames (rs_options rs))"
    if "?status = 0"
  proof -
    have "\<not> pl_failed s" "pl_exit_code s = 0" using that unfolding status by (auto split: if_splits)
    then show "map cf_wire (received s) = pl_stored s @ map cf_wire (queue_items (pl_queue s))"
      "writer_inv fs (pl_stored s) (pl_storage s, pl_fs s)" "length (received s) = unat (ro_expected_frames (rs_options rs))"
      using inv assms(5) worker joined_frames(1) [OF inv assms(5)]
      by (auto simp: pipeline_inv_def storage_inv_def received_def pending_def outstanding_def failing_def healthy_def)
  qed
  ultimately show ?thesis unfolding Let_def documented_def by blast
qed

text \<open>
  C4: what the exit code of the receive loop says.  The code is 0, 3, 4, 5, 7 or 9; code 6, for a wrong
  number of frames, is never returned.  Code 0 means that all expected frames were received and the
  worker did not fail: they are the beginning of the stream, each accepted, and the segment files hold,
  in order and complete, all of them that are not still in the queue.  Codes 3, 4 and 5 are the verdict
  on the stream right after the frames received, of which there are fewer than expected; code 7 means
  that the worker failed, and after code 9 frames are missing too.
\<close>

theorem exit_code_meaning:
  assumes "receiver_start env args = Inr rs" and "ro_capture_queue_frames (rs_options rs) \<noteq> - 1"
    and "[] \<notin> set pieces" and "reachable rs pieces fs s" and "pl_main s = M_joined"
  shows "let status = exit_status (pipeline_result show_double now (rs_options rs) s);
             stored = pl_stored s; waiting = map cf_wire (queue_items (pl_queue s));
             expected = unat (ro_expected_frames (rs_options rs))
    in (status = 0 \<or> status = 3 \<or> status = 4 \<or> status = 5 \<or> status = 7 \<or> status = 9)
       \<and> (\<forall>c\<in>set (received s). good_frame (rs_options rs) c)
       \<and> (\<exists>rest. concat pieces = concat (map cf_wire (received s)) @ rest
            \<and> (status = 3 \<or> status = 4 \<or> status = 5 \<longrightarrow> frame_verdict (rs_options rs) rest = status))
       \<and> (status = 7 \<longrightarrow> pl_failed s)
       \<and> (status \<noteq> 0 \<and> status \<noteq> 7 \<longrightarrow> length (received s) < expected)
       \<and> (status = 0 \<longrightarrow>
            length (received s) = expected
            \<and> map cf_wire (received s) = stored @ waiting
            \<and> writer_inv fs stored (pl_storage s, pl_fs s))"
  using session_end [OF assms] .

section \<open>Two executions that go wrong\<close>

text \<open>
  C29: a frame can be lost although the receiver returns 0.  The worker finds the queue empty; before
  it looks at \<open>acquisition_done\<close>, the last frame is published and the flag is set; the worker then
  flushes and ends without looking at the queue again.
\<close>

theorem last_frame_can_be_lost:
  assumes "receiver_start env args = Inr rs" and "ro_capture_queue_frames (rs_options rs) \<noteq> - 1"
    and "[] \<notin> set pieces" and "ro_expected_frames (rs_options rs) = 1"
    and "frame_verdict (rs_options rs) (concat pieces) = 0"
  shows "\<exists>s. reachable rs pieces fs s \<and> pl_main s = M_joined
    \<and> exit_status (pipeline_result show_double now (rs_options rs) s) = 0
    \<and> length (pl_published s) = 1 \<and> pl_stored s = [] \<and> queue_size (pl_queue s) = 1"
  using early_end_run [OF assms] .

text \<open>
  C28: the receiver can hang for ever.  The worker finds the queue empty and the flag not set; before it
  blocks, the last frame is published and the flag set, and both notifications pass unheard, because
  neither is made under the mutex.  The frame is never written and \<open>join\<close> never returns.
\<close>

theorem lost_wakeup_deadlock:
  assumes "receiver_start env args = Inr rs" and "ro_capture_queue_frames (rs_options rs) \<noteq> - 1"
    and "[] \<notin> set pieces" and "ro_expected_frames (rs_options rs) = 1"
    and "frame_verdict (rs_options rs) (concat pieces) = 0"
  shows "\<exists>s. reachable rs pieces fs s \<and> pl_main s = M_join \<and> pl_worker s = W_waiting
    \<and> (\<nexists>t. pipeline_step (rs_options rs) (rs_receiver rs) s t)
    \<and> length (pl_published s) = 1 \<and> pl_stored s = []"
proof -
  let ?s0 = "new_pipeline rs pieces fs"
  let ?s1 = "?s0\<lparr>pl_worker := W_load_done\<rparr>"
  let ?s2 = "?s1\<lparr>pl_worker := W_block\<rparr>"
  note q = started_queue [OF assms(1,2)]
  have "reachable rs pieces fs ?s1"
    using q by (intro poll_empty reachable.start) (simp_all add: new_pipeline_def)
  then have r2: "reachable rs pieces fs ?s2"
    by (rule idle_until_block) (use q in \<open>simp_all add: new_pipeline_def\<close>)
  obtain t c where t: "reachable rs pieces fs t" "pl_main t = M_set_done" "pl_worker t = W_block"
      "pl_published t = [c]" "pl_stored t = []"
    by (rule only_turn [OF assms, of fs W_block]) (use r2 in \<open>simp_all\<close>)
  let ?t1 = "t\<lparr>pl_done := True, pl_main := M_notify_all\<rparr>"
  let ?t2 = "?t1\<lparr>pl_main := M_join\<rparr>"
  let ?t3 = "?t2\<lparr>pl_worker := W_waiting\<rparr>"
  have "reachable rs pieces fs ?t1" by (rule reachable_main [OF t(1)]) (simp add: main_step_def t(2))
  then have "reachable rs pieces fs ?t2"
    by (rule reachable_main) (simp add: main_step_def notify_worker_def t(3))
  then have r3: "reachable rs pieces fs ?t3"
    by (rule reachable_worker) (simp add: worker_step_def t(3))
  have "\<nexists>u. pipeline_step (rs_options rs) (rs_receiver rs) ?t3 u"
    by (auto elim!: pipeline_step.cases simp: main_step_def worker_step_def)
  then show ?thesis using r3 t by (intro exI [of _ ?t3]) simp
qed

section \<open>Instances\<close>

theorem pipeline_type_safe_witness:
  "\<exists>rs t. receiver_start quiet_env (receiver_command_line one_frame_options) = Inr rs
     \<and> main_step (rs_options rs) (rs_receiver rs) \<lparr>tc_wire_complete = 0, tc_parse_start = 0, tc_parse_end = 0\<rparr>
         (new_pipeline rs [frame_seven] []) = Some t
     \<and> pipeline_typed (rs_options rs) t"
proof -
  obtain rs where rs: "receiver_start quiet_env (receiver_command_line one_frame_options) = Inr rs"
    and opts: "rs_options rs = one_frame_options" by (rule one_frame_session)
  from pipeline_type_safe [OF rs frame_seven(1,2) [OF opts] reachable.start, of "[]"]
  show ?thesis using rs frame_seven(3) [OF opts] by (auto simp: new_pipeline_def next_turn_def)
qed

theorem slots_never_shared_witness:
  "\<exists>rs s. receiver_start quiet_env (receiver_command_line one_frame_options) = Inr rs
     \<and> reachable rs [frame_seven] [] s \<and> pl_main s = M_receive \<and> has_space (pl_queue s)"
proof -
  obtain rs where rs: "receiver_start quiet_env (receiver_command_line one_frame_options) = Inr rs"
    and opts: "rs_options rs = one_frame_options" by (rule one_frame_session)
  let ?s = "(new_pipeline rs [frame_seven] [])\<lparr>pl_main := M_receive\<rparr>"
  let ?clock = "\<lparr>tc_wire_complete = 0, tc_parse_start = 0, tc_parse_end = 0\<rparr>"
  have r: "reachable rs [frame_seven] [] ?s"
    using reachable_main [OF reachable_main [OF reachable.start], of rs ?clock "[frame_seven]" "[]"
        "(new_pipeline rs [frame_seven] [])\<lparr>pl_main := M_space\<rparr>" ?clock ?s]
      started_queue(3) [OF rs frame_seven(1) [OF opts]] frame_seven(3) [OF opts]
    by (simp add: main_defs new_pipeline_def)
  then have "has_space (pl_queue ?s)"
    using slots_never_shared [OF rs frame_seven(1,2) [OF opts] r] by simp
  then show ?thesis using rs r by (intro exI [of _ rs] exI [of _ ?s]) simp
qed

theorem frames_accounted_for_witness:
  "\<exists>rs. receiver_start quiet_env (receiver_command_line one_frame_options) = Inr rs
     \<and> segments_hold [] [] (new_capture_writer capture_root 10000) []
     \<and> (\<exists>rest. frame_seven = concat (map cf_wire (received (new_pipeline rs [frame_seven] []))) @ rest)"
proof -
  obtain rs where rs: "receiver_start quiet_env (receiver_command_line one_frame_options) = Inr rs"
    and opts: "rs_options rs = one_frame_options" by (rule one_frame_session)
  from frames_accounted_for [OF rs frame_seven(1,2) [OF opts] reachable.start, of "[]"]
  show ?thesis using rs by (auto simp: new_pipeline_def segments_hold_def)
qed

theorem exit_code_meaning_witness:
  "\<exists>rs s. receiver_start quiet_env (receiver_command_line one_frame_options) = Inr rs
     \<and> reachable rs [frame_seven] [] s \<and> length (received s) = 1
     \<and> map cf_wire (received s) = map cf_wire (queue_items (pl_queue s))"
proof -
  obtain rs where rs: "receiver_start quiet_env (receiver_command_line one_frame_options) = Inr rs"
    and opts: "rs_options rs = one_frame_options" by (rule one_frame_session)
  obtain s where s: "reachable rs [frame_seven] [] s" "pl_main s = M_joined" "pl_stored s = []"
    "exit_status (pipeline_result (\<lambda>_. []) [] (rs_options rs) s) = 0"
    using early_end_run [OF rs frame_seven [OF opts]] by blast
  from exit_code_meaning [OF rs frame_seven(1,2) [OF opts] s(1,2), of "\<lambda>_. []" "[]"]
  have "length (received s) = 1" "map cf_wire (received s) = map cf_wire (queue_items (pl_queue s))"
    using s(3,4) frame_seven(3) [OF opts] by (simp_all add: Let_def)
  then show ?thesis using rs s(1) by blast
qed

theorem last_frame_can_be_lost_witness:
  "\<exists>rs s. receiver_start quiet_env (receiver_command_line one_frame_options) = Inr rs
     \<and> reachable rs [frame_seven] [] s \<and> pl_main s = M_joined
     \<and> exit_status (pipeline_result (\<lambda>_. []) [] (rs_options rs) s) = 0 \<and> pl_stored s = []"
proof -
  obtain rs where rs: "receiver_start quiet_env (receiver_command_line one_frame_options) = Inr rs"
    and opts: "rs_options rs = one_frame_options" by (rule one_frame_session)
  show ?thesis using rs last_frame_can_be_lost [OF rs frame_seven [OF opts]] by blast
qed

theorem lost_wakeup_deadlock_witness:
  "\<exists>rs s. receiver_start quiet_env (receiver_command_line one_frame_options) = Inr rs
     \<and> reachable rs [frame_seven] [] s \<and> pl_main s = M_join
     \<and> (\<nexists>t. pipeline_step (rs_options rs) (rs_receiver rs) s t) \<and> pl_stored s = []"
proof -
  obtain rs where rs: "receiver_start quiet_env (receiver_command_line one_frame_options) = Inr rs"
    and opts: "rs_options rs = one_frame_options" by (rule one_frame_session)
  show ?thesis using rs lost_wakeup_deadlock [OF rs frame_seven [OF opts]] by blast
qed

end
