(* ===== verification/Transmission.thy ===== *)
theory Transmission
  imports Pipeline_Properties Sender_Properties
begin

text \<open>
  The sender's stream seen from the receiver: what the two programs agree on, why no frame of a
  completed run is refused, and what a reader finds in the receiver's segment files.
\<close>

section \<open>Streams of frames\<close>

lemma concat_frames_split:
  assumes "concat frames = concat recs @ rest" "\<forall>f\<in>set frames. length f = kWireFrameSize"
    and "\<forall>r\<in>set recs. length r = kWireFrameSize"
  shows "recs = take (length recs) frames \<and> rest = concat (drop (length recs) frames)"
  using assms
proof (induction recs arbitrary: frames)
  case (Cons r recs)
  have r: "length r = kWireFrameSize" using Cons.prems(3) by simp
  then have "frames \<noteq> []" using Cons.prems(1) by (auto simp: kWireFrameSize_def)
  then obtain f fs where frames: "frames = f # fs" by (cases frames) auto
  then have "length f = length r" using Cons.prems(2) r by simp
  then have "f = r" "concat fs = concat recs @ rest" using Cons.prems(1) by (simp_all add: frames)
  then show ?case using Cons.IH [of fs] Cons.prems(2,3) by (simp add: frames)
qed simp

lemma frame_verdict_first:
  "length f = kWireFrameSize \<Longrightarrow> frame_verdict opts (f @ others) = frame_verdict opts f"
  by (simp add: frame_verdict_def)

section \<open>Two command lines that fit together\<close>

definition programs_agree :: "sender_options \<Rightarrow> receiver_options \<Rightarrow> bool" where
  "programs_agree so ro \<longleftrightarrow>
     ro_rate_hz ro = so_rate_hz so \<and> ro_expected_frames ro = so_frame_count so
     \<and> (ro_validate_module_id ro \<longrightarrow>
          (so_input_path so = [] \<or> so_validate_input_module so) \<and> ro_expected_module_id ro = so_module_id so)"

lemma sendable_length: "sendable so f \<Longrightarrow> length f = kWireFrameSize"
  by (simp add: sendable_def acceptable_length)

lemma sendable_verdict: "programs_agree so ro \<Longrightarrow> sendable so f \<Longrightarrow> frame_verdict ro f = 0"
  using sendable_length [of so f] by (auto simp: frame_verdict_def programs_agree_def sendable_def Let_def)

lemma received_sized: "\<forall>c\<in>set cs. good_frame opts c \<Longrightarrow> \<forall>r\<in>set (map cf_wire cs). length r = kWireFrameSize"
  by (simp add: good_frame_def)

text \<open>A stream of frames that are all accepted cannot end the session with a verdict.\<close>

lemma no_stream_code:
  assumes "programs_agree so ro" "\<forall>f\<in>set frames. sendable so f" "length recs < length frames"
    and "concat frames = concat recs @ rest" "\<forall>r\<in>set recs. length r = kWireFrameSize"
  shows "frame_verdict ro rest = 0"
proof -
  have sized: "\<forall>f\<in>set frames. length f = kWireFrameSize" using assms(2) sendable_length by blast
  have rest: "rest = concat (drop (length recs) frames)" using concat_frames_split [OF assms(4) sized assms(5)] by simp
  obtain f fs where "drop (length recs) frames = f # fs" using assms(3) by (metis drop_eq_Nil leD list.exhaust)
  then have "f \<in> set frames" "rest = f @ concat fs" by (metis in_set_dropD list.set_intros(1), simp add: rest)
  then show ?thesis
    using frame_verdict_first [OF sendable_length [of so f]] sendable_verdict [OF assms(1), of f] assms(2) by simp
qed

lemma session_of_sendable:
  assumes "receiver_start env args = Inr rs" and "ro_capture_queue_frames (rs_options rs) \<noteq> - 1"
    and "[] \<notin> set pieces" and agree: "programs_agree so (rs_options rs)"
    and "reachable rs pieces fs s" and "pl_main s = M_joined"
    and sendable: "\<forall>f\<in>set frames. sendable so f" and count: "length frames = unat (so_frame_count so)"
    and stream: "concat pieces = concat frames"
    and status: "status = exit_status (pipeline_result show_double now (rs_options rs) s)"
  shows "status = 0 \<or> status = 7 \<or> status = 9" "status = 0 \<Longrightarrow> map cf_wire (received s) = frames"
proof -
  let ?ro = "rs_options rs"
  note fin = session_end [OF assms(1-3,5,6), of show_double now, unfolded Let_def, folded status]
  have sized: "\<forall>r\<in>set (map cf_wire (received s)). length r = kWireFrameSize"
    by (rule received_sized [of _ ?ro]) (use fin in blast)
  have frame_size: "\<forall>f\<in>set frames. length f = kWireFrameSize" using sendable sendable_length by blast
  have expected: "unat (ro_expected_frames ?ro) = length frames" using agree count by (simp add: programs_agree_def)
  obtain rest where rest: "concat frames = concat (map cf_wire (received s)) @ rest"
    "status = 3 \<or> status = 4 \<or> status = 5 \<longrightarrow> frame_verdict ?ro rest = status"
    using fin stream by metis
  have "\<not> (status = 3 \<or> status = 4 \<or> status = 5)"
  proof
    assume bad: "status = 3 \<or> status = 4 \<or> status = 5"
    then have "length (received s) < unat (ro_expected_frames ?ro)" using fin by auto
    then have "length (map cf_wire (received s)) < length frames" by (simp add: expected)
    from no_stream_code [OF agree sendable this rest(1) sized] show False using rest(2) bad by auto
  qed
  then show "status = 0 \<or> status = 7 \<or> status = 9" using fin by blast
  assume "status = 0"
  then have "length (received s) = length frames" using fin by (simp add: expected)
  then have "length (map cf_wire (received s)) = length frames" by (simp only: length_map)
  then show "map cf_wire (received s) = frames" using concat_frames_split [OF rest(1) frame_size sized] by simp
qed

section \<open>The ids of generated frames\<close>

lemma generated_id:
  assumes "0 < so_rate_hz so" "so_rate_hz so \<le> kMaxSampleRateHz"
  shows "hdr_frame_id (fr_header (frame_at (generated so ts i))) = i"
  by (simp add: generated_frame(2) [OF assms] sealed_frame_header fill_frame_header)

text \<open>A receiver that got frames with consecutive ids sees an unbroken stream.\<close>

lemma consecutive_clean:
  assumes good: "\<forall>c\<in>set cs. good_frame ro c" and n: "0 < n" "n < 2 ^ 64"
    and ids: "map (\<lambda>w. hdr_frame_id (fr_header (frame_at w))) (map cf_wire cs) = map of_nat [0..<n]"
  shows "clean (run_stats (map cf_frame_id cs))"
proof -
  have ids: "map cf_frame_id cs = map of_nat [0..<n]" using good ids by (simp add: good_frame_def cong: map_cong)
  have "unat (of_nat i :: u64) = i" if "i < n" for i using that n(2) by (simp add: word_less_of_nat)
  then have "map unat (map of_nat [0..<n] :: u64 list) = [0..<n]" by (simp, intro map_idI) simp
  moreover have "hd (map of_nat [0..<n] :: u64 list) = 0" using n(1) by (simp add: hd_map)
  ultimately show ?thesis
    unfolding ids using run_clean_iff [of "map of_nat [0..<n] :: u64 list"] n by simp
qed

lemma generated_clean:
  assumes frames: "map cf_wire cs = generated_frames env so n" and good: "\<forall>c\<in>set cs. good_frame ro c"
    and rate: "0 < so_rate_hz so" "so_rate_hz so \<le> kMaxSampleRateHz" and n: "0 < n" "n < 2 ^ 64"
  shows "clean (run_stats (map cf_frame_id cs))"
  by (rule consecutive_clean [OF good n])
    (simp add: frames generated_frames_def generated_id [OF rate] o_def)

section \<open>The file system of the receiver\<close>

lemma reachable_distinct:
  "reachable rs pieces fs s \<Longrightarrow> distinct (map fst fs) \<Longrightarrow> distinct (map fst (pl_fs s))"
proof (induction rule: reachable.induct)
  case start
  then show ?case by (simp add: new_pipeline_def)
next
  case (step s t)
  from step.hyps(2) show ?case
  proof (cases rule: any_step)
    case (main clock)
    then show ?thesis using step main_leaves(2) by simp
  next
    case (worker env)
    then show ?thesis using step write_frame_distinct
      by (cases "pl_worker s") (auto simp: worker_defs split: if_splits prod.splits)
  qed (use step in simp)
qed

section \<open>What the capture directories hold\<close>

lemma session_files:
  assumes "receiver_start env args = Inr rs" and "ro_capture_queue_frames (rs_options rs) \<noteq> - 1"
    and "[] \<notin> set pieces" and "reachable rs pieces fs s" and "pl_main s = M_joined"
    and "exit_status (pipeline_result show_double now (rs_options rs) s) = 0"
    and "distinct (map fst fs)" and "is_directory (pl_fs s) capture_root"
    and "\<forall>p. in_directory capture_root p \<longrightarrow> is_regular_file fs p \<longrightarrow> path_extension p \<noteq> ''.bin''"
    and "ro_expected_frames (rs_options rs) \<le> 10 ^ 10"
  shows "files_frames (pl_fs s) (capture_files (pl_fs s) capture_root) = pl_stored s"
    "files_trailing (pl_fs s) (capture_files (pl_fs s) capture_root) = 0"
    "map cf_wire (received s) = pl_stored s @ map cf_wire (queue_items (pl_queue s))"
    "length (pl_stored s) \<le> unat (ro_expected_frames (rs_options rs))"
proof -
  note fin = session_end [OF assms(1-5), of show_double now, unfolded Let_def assms(6), simplified]
  show all: "map cf_wire (received s) = pl_stored s @ map cf_wire (queue_items (pl_queue s))"
    using fin by blast
  have inv: "writer_inv fs (pl_stored s) (pl_storage s, pl_fs s)"
    and len: "length (received s) = unat (ro_expected_frames (rs_options rs))"
    and sized: "\<forall>r\<in>set (map cf_wire (received s)). length r = kWireFrameSize"
    using fin received_sized by blast+
  have root: "cw_root (pl_storage s) = capture_root" "segment_length (pl_storage s) = 10000"
    using reachable_inv [OF assms(1-4)] by (simp_all add: pipeline_inv_def storage_inv_def segment_length_def)
  show few: "length (pl_stored s) \<le> unat (ro_expected_frames (rs_options rs))"
    using arg_cong [OF all, of length] len by simp
  moreover have "unat (ro_expected_frames (rs_options rs)) \<le> 10 ^ 10" using assms(10) by (simp add: word_le_nat_alt)
  ultimately have "length (pl_stored s) \<le> 10 ^ 6 * segment_length (pl_storage s)" by (simp add: root)
  from captured_files [OF inv reachable_distinct [OF assms(4,7)] _ _ _ this, unfolded root]
  show "files_frames (pl_fs s) (capture_files (pl_fs s) capture_root) = pl_stored s"
      "files_trailing (pl_fs s) (capture_files (pl_fs s) capture_root) = 0"
    using assms(8,9) sized by (simp_all add: all)
qed

lemma sender_saved_files:
  assumes "parse_sender_options args = Inr so" and "honest_stream 0 (se_answers env)"
    and "sender_main show_double now env args = (Returned 0 pio, wire, sfs)"
    and "so_save_sent_dir so \<noteq> []" and "distinct (map fst sfs)" and "is_directory sfs (to_path (so_save_sent_dir so))"
    and "\<forall>p. in_directory (to_path (so_save_sent_dir so)) p \<longrightarrow> is_regular_file (se_fs env) p \<longrightarrow> path_extension p \<noteq> ''.bin''"
    and "so_frame_count so \<le> 10 ^ 10"
  obtains frames where "wire = concat frames" "length frames = unat (so_frame_count so)" "\<forall>f\<in>set frames. sendable so f"
    "so_input_path so = [] \<longrightarrow> frames = generated_frames env so (unat (so_frame_count so))"
    "files_frames sfs (capture_files sfs (to_path (so_save_sent_dir so))) = frames"
    "files_trailing sfs (capture_files sfs (to_path (so_save_sent_dir so))) = 0"
proof -
  obtain frames st where f: "wire = concat frames" "length frames = unat (so_frame_count so)" "\<forall>f\<in>set frames. sendable so f"
    and src: "source_inv env so frames st" and saved: "saved_inv env so frames st" and fs: "sg_fs st = sfs"
    using sender_main_spec [OF assms(1-3)] by auto
  obtain w where w: "cw_root w = to_path (so_save_sent_dir so)" "segment_length w = 10000" "writer_inv (se_fs env) frames (w, sfs)"
    using saved assms(4) fs by (auto simp: saved_inv_def segment_length_def split: option.splits)
  have "unat (so_frame_count so) \<le> 10 ^ 10" using assms(8) by (simp add: word_le_nat_alt)
  then have "length frames \<le> 10 ^ 6 * segment_length w" by (simp add: w(2) f(2))
  from captured_files [OF w(3) assms(5) _ _ _ this, unfolded w(1)]
  have "files_frames sfs (capture_files sfs (to_path (so_save_sent_dir so))) = frames"
    "files_trailing sfs (capture_files sfs (to_path (so_save_sent_dir so))) = 0"
    using assms(6,7) f(3) sendable_length by blast+
  moreover have "so_input_path so = [] \<longrightarrow> frames = generated_frames env so (unat (so_frame_count so))"
    using src f(2) by (auto simp: source_inv_def split: option.splits)
  ultimately show thesis using that f by blast
qed

end
