(* ===== verification/Replay_Chain.thy ===== *)
theory Replay_Chain
  imports Frame_Gen Transmission
begin

text \<open>
  A file made by frame_gen, replayed by the sender with --input and captured by the receiver: why no frame
  of it is refused on the way.
\<close>

section \<open>A frame that can be sent is not refused\<close>

lemma input_problem_acceptable: "acceptable wire \<Longrightarrow> input_problem wire f = ([], frame_at wire)"
  by (simp add: input_problem_def deserialize_well_sized acceptable_def)

lemma replay_frame_ready:
  assumes "length (sg_bytes st) = kWireFrameSize" "rest_frames (sg_fs st) r = f # others"
    and "sendable opts f" "so_input_path opts \<noteq> []"
  shows "\<exists>st1. replay_frame opts frame_id r st = (True, st1)"
proof -
  obtain more wire r1 where nx: "reader_next (sg_fs st) (sg_bytes st) r = (more, wire, r1)" by (metis prod_cases3)
  have "more" using rd.next_end [OF assms(1)] nx assms(2) by (cases more) auto
  then have run: "reader_next (sg_fs st) (sg_bytes st) r = (True, wire, r1)" using nx by simp
  then have "wire = f" using rd.next_frame [OF assms(1)] assms(2) by fastforce
  then show ?thesis
    using run assms(3,4) by (simp add: replay_frame_def input_problem_acceptable sendable_def Let_def)
qed

lemma send_turn_ready:
  assumes inv: "sender_inv env opts frames st" "sg_capture st = None" "so_input_path opts \<noteq> []"
    and more: "length frames < length (input_frames env opts)" "\<forall>f\<in>set (input_frames env opts). sendable opts f"
    and run: "send_turn opts start te frame_id st = (res, st')"
  shows "res \<noteq> Some 10" "sg_capture st' = None"
proof -
  obtain r where r: "sg_input st = Some r" and size: "length (sg_bytes st) = kWireFrameSize"
    and rest: "input_frames env opts = frames @ rest_frames (se_fs env) r"
    using inv by (auto simp: sender_inv_def source_inv_def saved_inv_def split: option.splits)
  have fs: "sg_fs st = se_fs env" using inv by (simp add: sender_inv_def saved_inv_def)
  obtain f others where f: "rest_frames (se_fs env) r = f # others" using more(1) rest by (cases "rest_frames (se_fs env) r") auto
  have "sendable opts f" using more(2) rest f by simp
  then obtain st1 where ready: "prepare_frame opts te frame_id st = (True, st1)"
    using replay_frame_ready [OF size, of r f others opts frame_id] f fs r inv(3) by (auto simp: prepare_frame_def)
  then have "sg_capture st1 = None"
    using inv(2) r by (auto simp: prepare_frame_def replay_frame_def input_failure_def Let_def split: prod.splits bool.splits if_splits)
  then show "res \<noteq> Some 10" "sg_capture st' = None"
    using run ready
    by (auto simp: send_turn_def pass_frame_def save_frame_def log_failure_def split: prod.splits bool.splits)
qed

lemma send_frames_ready:
  assumes "sender_inv env opts frames st" "sg_capture st = None" "so_input_path opts \<noteq> []"
    and rate: "0 < so_rate_hz opts" "so_rate_hz opts \<le> kMaxSampleRateHz"
    and all: "\<forall>f\<in>set (input_frames env opts). sendable opts f" "length frames + n \<le> length (input_frames env opts)"
    and n: "length frames + n < 2 ^ 64"
  shows "fst (send_frames opts start (se_turn env) n (of_nat (length frames)) st) \<noteq> Some 10"
  using assms(1,2,7,8)
proof (induction n arbitrary: frames st)
  case (Suc n)
  obtain res st1 where turn: "send_turn opts start (se_turn env (of_nat (length frames))) (of_nat (length frames)) st = (res, st1)"
    by (metis surj_pair)
  have "length frames < length (input_frames env opts)" using Suc.prems(3) by simp
  note ready = send_turn_ready [OF Suc.prems(1,2) assms(3) this all(1) turn]
  show ?case
  proof (cases res)
    case (Some c)
    then show ?thesis using turn ready(1) by simp
  next
    case None
    then obtain f where "sender_inv env opts (frames @ [f]) st1"
      using send_turn_spec [OF turn Suc.prems(1) rate] Suc.prems(4) by auto
    from Suc.IH [OF this ready(2)] show ?thesis using turn None Suc.prems(3,4) by (simp add: add.commute)
  qed
qed simp

lemma sender_start_ready:
  assumes "sender_start env opts = r" "capture_files (se_fs env) (to_path (so_input_path opts)) \<noteq> []"
  shows "\<And>pio. r \<noteq> Inl (Returned 10 pio)"
  using assms by (auto simp: sender_start_def sender_connect_def new_sending_def new_capture_reader_def reader_ok_def Let_def
      split: prod.splits bool.splits option.splits if_splits sum.splits)

text \<open>A sender whose input has enough frames, all of them fit to be sent, does not blame its input.\<close>

lemma sender_input_fine:
  assumes parsed: "parse_sender_options args = Inr opts" and honest: "honest_stream 0 (se_answers env)"
    and run: "sender_main show_double now env args = (e, wire, fs)"
    and opts: "so_input_path opts \<noteq> []" "so_save_sent_dir opts = []"
    and all: "\<forall>f\<in>set (input_frames env opts). sendable opts f" "unat (so_frame_count opts) \<le> length (input_frames env opts)"
    and files: "capture_files (se_fs env) (to_path (so_input_path opts)) \<noteq> []"
  shows "e \<noteq> Returned 10 pio"
proof (cases "sender_start env opts")
  case (Inl e1)
  then show ?thesis using sender_start_ready [OF Inl files] run parsed by (auto simp: sender_main_def)
next
  case (Inr st)
  have rate: "0 < so_rate_hz opts" "so_rate_hz opts \<le> kMaxSampleRateHz"
    using parse_sender_options_range [OF parsed] by (auto simp: word_less_nat_alt word_le_nat_alt)
  note inv = sender_start_inv [OF Inr honest]
  have "sg_capture st = None" using inv opts(2) by (auto simp: sender_inv_def saved_inv_def split: option.splits)
  from send_frames_ready [OF inv this opts(1) rate all(1), of "unat (so_frame_count opts)" "se_schedule_start env"]
  have loop: "fst (send_frames opts (se_schedule_start env) (se_turn env) (unat (so_frame_count opts)) 0 st) \<noteq> Some 10"
    using all(2) unat_u64_less [of "so_frame_count opts"] by simp
  have "fst (sender_finish show_double now env opts st1) \<noteq> 10" for st1
    by (auto simp: sender_finish_def Let_def split: option.splits prod.splits)
  then show ?thesis
    using run parsed Inr loop by (auto simp: sender_main_def split: prod.splits option.splits) (metis fst_conv)
qed

section \<open>What the file holds\<close>

lemma gen_frame_sendable:
  assumes "gen_frame_ok g i f" "so_rate_hz so = go_rate_hz g" "so_input_path so \<noteq> []"
    and "so_validate_input_module so \<longrightarrow> so_module_id so = go_module_id g"
  shows "sendable so f"
  using assms by (auto simp: gen_frame_ok_def sendable_def Let_def)

lemma generated_file_input:
  assumes "file_contents (se_fs env) (to_path (so_input_path so)) = Some (concat frames)"
    and "\<forall>f\<in>set frames. length f = kWireFrameSize"
  shows "capture_files (se_fs env) (to_path (so_input_path so)) \<noteq> []" "input_frames env so = frames"
proof -
  have "capture_files (se_fs env) (to_path (so_input_path so)) = [to_path (so_input_path so)]"
    using assms(1) by (auto simp: capture_files_def is_directory_def is_regular_file_def file_contents_def
        split: option.splits node.splits bool.splits)
  then show "capture_files (se_fs env) (to_path (so_input_path so)) \<noteq> []" "input_frames env so = frames"
    using assms whole_frames_concat [OF assms(2), of "[]"]
    by (simp_all add: input_frames_def readable_bytes_def)
qed

section \<open>Properties\<close>

text \<open>
  C2: a file made by frame_gen arrives.  If the sender replays it with the rate, the module (where it is
  checked) and at most the number of frames it was made with, the sender never ends with code 10, for a bad
  input.  If it returns 0, a receiver with options that agree returns 0, 7 or 9, and with 0 it has received
  the first frames of the file, byte for byte and in order, and reports an unbroken stream.
\<close>

theorem generated_file_arrives:
  assumes "parse_gen gargs = Inr g" and "frame_gen genv fs0 gargs = (Gen_exit 0 out err, files)"
    and "parse_sender_options sargs = Inr so" and "honest_stream 0 (se_answers senv)" and "se_fs senv = files"
    and "so_input_path so \<noteq> []" and "so_input_path so = go_output g" and "so_save_sent_dir so = []"
    and "so_rate_hz so = go_rate_hz g" and "so_validate_input_module so \<longrightarrow> so_module_id so = go_module_id g"
    and "so_frame_count so \<le> go_frames g"
    and "sender_main show_double now senv sargs = (e, concat pieces, sfs)"
    and "receiver_start renv rargs = Inr rs" and "ro_capture_queue_frames (rs_options rs) \<noteq> - 1"
    and "[] \<notin> set pieces" and "programs_agree so (rs_options rs)"
    and "reachable rs pieces fs s" and "pl_main s = M_joined"
  shows "let status = exit_status (pipeline_result show_double later (rs_options rs) s)
    in \<exists>frames. file_contents files (to_path (go_output g)) = Some (concat frames)
      \<and> length frames = unat (go_frames g) \<and> (\<forall>i<length frames. gen_frame_ok g (of_nat i) (frames ! i))
      \<and> e \<noteq> Returned 10 pio
      \<and> (e = Returned 0 pio \<longrightarrow> (status = 0 \<or> status = 7 \<or> status = 9)
          \<and> (status = 0 \<longrightarrow> map cf_wire (received s) = take (unat (so_frame_count so)) frames
               \<and> clean (ld_stats (aq_continuity (pl_aq s)))))"
proof -
  let ?n = "unat (so_frame_count so)" and ?status = "exit_status (pipeline_result show_double later (rs_options rs) s)"
  obtain frames where held: "file_contents files (to_path (go_output g)) = Some (concat frames)"
    and len: "length frames = unat (go_frames g)" and ok: "\<forall>i<length frames. gen_frame_ok g (of_nat i) (frames ! i)"
    using frame_gen_written [OF assms(1,2)] by blast
  have "\<forall>f\<in>set frames. sendable so f"
    using ok gen_frame_sendable [OF _ assms(9,6,10)] by (metis in_set_conv_nth)
  note sendable = this
  note input = generated_file_input [of senv so frames, unfolded assms(5,7), OF held]
  have input: "capture_files files (to_path (go_output g)) \<noteq> []" "input_frames senv so = frames"
    using input sendable sendable_length by blast+
  have n: "?n \<le> length frames" "0 < ?n" "?n < 2 ^ 64"
    using assms(11) len parse_sender_options_range [OF assms(3)] unat_u64_less [of "so_frame_count so"]
    by (auto simp: word_le_nat_alt unat_gt_0)
  have "e \<noteq> Returned 10 pio"
    by (rule sender_input_fine [OF assms(3,4,12,6,8)]) (use input n sendable in \<open>simp_all add: assms(5,7)\<close>)
  moreover have "(?status = 0 \<or> ?status = 7 \<or> ?status = 9)
      \<and> (?status = 0 \<longrightarrow> map cf_wire (received s) = take ?n frames \<and> clean (ld_stats (aq_continuity (pl_aq s))))"
    if e: "e = Returned 0 pio"
  proof -
    obtain sent st where sent: "length sent = ?n" "concat pieces = concat sent"
      and src: "source_inv senv so sent st" and saved: "saved_inv senv so sent st"
      using sender_main_spec [OF assms(3,4,12)] e by auto
    have "sent = take ?n frames"
      using src saved sent(1) input(2) assms(6,8) by (auto simp: source_inv_def saved_inv_def split: option.splits)
    then have stream: "concat pieces = concat (take ?n frames)" and ok': "\<forall>f\<in>set (take ?n frames). sendable so f"
      and count: "length (take ?n frames) = ?n"
      using sent sendable in_set_takeD by (simp, metis, simp)
    note ends = session_of_sendable [OF assms(13-18) ok' count stream refl, of show_double later]
    have "clean (ld_stats (aq_continuity (pl_aq s)))" if "?status = 0"
    proof -
      have "map (\<lambda>w. hdr_frame_id (fr_header (frame_at w))) (map cf_wire (received s)) = map of_nat [0..<?n]"
        unfolding ends(2) [OF that] using ok n by (intro nth_equalityI) (simp_all add: gen_frame_ok_def Let_def)
      moreover have "\<forall>c\<in>set (received s). good_frame (rs_options rs) c"
        and "aq_continuity (pl_aq s) = observe_run (map cf_frame_id (received s))"
        using reachable_inv [OF assms(13,14,15,17)] by (simp_all add: pipeline_inv_def stream_inv_def)
      ultimately show ?thesis using consecutive_clean [OF _ n(2,3)] by (simp add: run_stats_def)
    qed
    then show ?thesis using ends by blast
  qed
  ultimately show ?thesis unfolding Let_def using held len ok by blast
qed

section \<open>An instance\<close>

definition one_replay_options :: sender_options where
  "one_replay_options = one_send_options\<lparr>so_input_path := ''x.bin''\<rparr>"

lemma one_replay_simps:
  "so_input_path one_replay_options = ''x.bin''" "so_save_sent_dir one_replay_options = []" "so_timing_log one_replay_options = []"
  "so_bind_host one_replay_options = []" "so_frame_count one_replay_options = 1" "so_rate_hz one_replay_options = 200"
  "\<not> so_validate_input_module one_replay_options"
  "go_output one_gen_options = ''x.bin''" "go_frames one_gen_options = 1" "go_rate_hz one_gen_options = 200"
  by (simp_all add: one_replay_options_def one_send_options_def default_sender_options_def one_gen_options_def
      default_gen_options_def kSampleRateHz_def)

lemma parse_one_replay: "parse_sender_options (sender_command_line one_replay_options) = Inr one_replay_options"
  by (rule parse_sender_command_line)
    (simp_all add: one_replay_options_def one_send_options_def default_sender_options_def sender_options_ok_def
      starts_with_def kMaxSampleRateHz_def kSampleRateHz_def)

lemma one_replay_run:
  assumes "file_contents files (to_path ''x.bin'') = Some f" "sendable one_replay_options f"
  shows "\<exists>pio. sender_main (\<lambda>_. []) [] (quiet_sender_env\<lparr>se_fs := files\<rparr>) (sender_command_line one_replay_options)
    = (Returned 0 pio, f, files)"
proof -
  let ?env = "quiet_sender_env\<lparr>se_fs := files\<rparr>" and ?o = one_replay_options
  have size: "length f = kWireFrameSize" using assms(2) by (rule sendable_length)
  have files: "capture_files files (to_path (so_input_path ?o)) \<noteq> []" "input_frames ?env ?o = [f]"
    using generated_file_input [of ?env ?o "[f]"] assms(1) size by (simp_all add: one_replay_simps)
  have honest: "honest_stream 0 (se_answers ?env)" using honest_quiet by (simp add: quiet_sender_env_def)
  have "\<exists>st1. prepare_frame ?o te 0 st = (True, st1)" if "sender_start ?env ?o = Inr st" for st te
  proof -
    have "source_inv ?env ?o [] st" "saved_inv ?env ?o [] st"
      using sender_start_inv [OF that honest] by (simp_all add: sender_inv_def)
    then show ?thesis
      using replay_frame_ready [of st _ f "[]" ?o 0] assms(2) files(2)
      by (auto simp: source_inv_def saved_inv_def prepare_frame_def one_replay_simps split: option.splits)
  qed
  note ready = this
  have env: "quiet_sender_env\<lparr>se_fs := files, se_turn := se_turn quiet_sender_env\<rparr> = ?env" by (simp add: quiet_sender_env_def)
  have "\<exists>pio wire fs. sender_main (\<lambda>_. []) [] ?env (sender_command_line ?o) = (Returned 0 pio, wire, fs) \<and> fs = files"
    using one_frame_run [of "sender_command_line ?o" ?o files "se_turn quiet_sender_env" "\<lambda>_. []" "[]", unfolded env,
        OF parse_one_replay one_replay_simps(5,3,4) disjI2 [OF files(1)] _ ready]
    by (simp add: one_replay_simps)
  then obtain pio wire where run: "sender_main (\<lambda>_. []) [] ?env (sender_command_line ?o) = (Returned 0 pio, wire, files)" by blast
  obtain sent st where "length sent = 1" "wire = concat sent" "source_inv ?env ?o sent st" "saved_inv ?env ?o sent st"
    using sender_main_spec [OF parse_one_replay honest run] by (auto simp: one_replay_simps)
  then have "wire = f" using files(2)
    by (cases sent) (auto simp: source_inv_def saved_inv_def one_replay_simps split: option.splits)
  then show ?thesis using run by blast
qed

theorem generated_file_arrives_witness:
  "\<exists>out files f pio rs s. frame_gen fine_gen_env [] [''x.bin'', to_string 1] = (Gen_exit 0 out [], files)
     \<and> sender_main (\<lambda>_. []) [] (quiet_sender_env\<lparr>se_fs := files\<rparr>) (sender_command_line one_replay_options)
         = (Returned 0 pio, f, files)
     \<and> receiver_start quiet_env (receiver_command_line one_frame_options) = Inr rs
     \<and> reachable rs [f] [] s \<and> map cf_wire (received s) = [f] \<and> gen_frame_ok one_gen_options 0 f"
proof -
  let ?o = one_replay_options
  obtain out files where gen: "frame_gen fine_gen_env [] [''x.bin'', to_string 1] = (Gen_exit 0 out [], files)"
    using one_gen_run by blast
  obtain f where f: "file_contents files (to_path ''x.bin'') = Some f" "gen_frame_ok one_gen_options 0 f"
  proof -
    obtain frames where "file_contents files (to_path ''x.bin'') = Some (concat frames)" "length frames = 1"
      "\<forall>i<length frames. gen_frame_ok one_gen_options (of_nat i) (frames ! i)"
      using frame_gen_written [OF parse_one_gen gen] by (auto simp: one_replay_simps)
    then show thesis using that by (cases frames) auto
  qed
  have sendable: "sendable ?o f" using gen_frame_sendable [OF f(2), of ?o] by (simp add: one_replay_simps)
  obtain pio where run: "sender_main (\<lambda>_. []) [] (quiet_sender_env\<lparr>se_fs := files\<rparr>) (sender_command_line ?o)
      = (Returned 0 pio, concat [f], files)" using one_replay_run [OF f(1) sendable] by auto
  obtain rs where rs: "receiver_start quiet_env (receiver_command_line one_frame_options) = Inr rs"
    and opts: "rs_options rs = one_frame_options" by (rule one_frame_session)
  have agree: "programs_agree ?o (rs_options rs)"
    by (simp add: opts programs_agree_def one_frame_options_def default_receiver_options_def one_replay_simps kSampleRateHz_def)
  have ne: "[] \<notin> set [f]" using sendable_length [OF sendable] by (auto simp: kWireFrameSize_def)
  note session = frame_seven(1) [OF opts] ne
  have "frame_verdict (rs_options rs) (concat [f]) = 0" using sendable_verdict [OF agree sendable] by simp
  then obtain s where s: "reachable rs [f] [] s" "pl_main s = M_joined"
      "exit_status (pipeline_result (\<lambda>_. []) [] (rs_options rs) s) = 0"
    using complete_run [OF rs session frame_seven(3) [OF opts]] by blast
  have honest: "honest_stream 0 (se_answers (quiet_sender_env\<lparr>se_fs := files\<rparr>))"
    using honest_quiet by (simp add: quiet_sender_env_def)
  have o: "se_fs (quiet_sender_env\<lparr>se_fs := files\<rparr>) = files" "so_input_path ?o \<noteq> []" "so_input_path ?o = go_output one_gen_options"
    "so_save_sent_dir ?o = []" "so_rate_hz ?o = go_rate_hz one_gen_options"
    "so_validate_input_module ?o \<longrightarrow> so_module_id ?o = go_module_id one_gen_options"
    "so_frame_count ?o \<le> go_frames one_gen_options" by (simp_all add: one_replay_simps)
  from generated_file_arrives [OF parse_one_gen gen parse_one_replay honest o run rs session agree s(1,2),
      where later = "[]" and pio = pio]
  obtain frames where frames: "file_contents files (to_path ''x.bin'') = Some (concat frames)" "length frames = 1"
    "map cf_wire (received s) = take 1 frames"
    unfolding Let_def s(3) by (auto simp: one_replay_simps)
  then have "map cf_wire (received s) = [f]" using f(1) by (cases frames) auto
  moreover have "concat [f] = f" by simp
  ultimately show ?thesis using gen run rs s(1) f(2) by metis
qed

end
