(* ===== verification/Frame_Compare.thy ===== *)
theory Frame_Compare
  imports Data_Simulator Capture_Reader Options Binary64
begin

text \<open>
  \<open>tools/frame_check/frame_compare.cpp\<close>: two captures are streamed frame by frame, merged by frame
  id and compared byte for byte; exit code 0 means identical.  The lines of standard output are
  part of the state.  The reference is a merge of two lists of frames.
\<close>

section \<open>Names of the bytes of a frame\<close>

definition header_fields :: "(nat \<times> string) list" where
  "header_fields =
     [(8, ''magic''), (10, ''version''), (12, ''header_size''), (14, ''module_id''),
      (16, ''flags''), (24, ''frame_id''), (32, ''timestamp_ns''), (34, ''channel_count''),
      (36, ''sample_rate_hz''), (38, ''sample_format''), (40, ''reserved''), (44, ''payload_len''),
      (48, ''header_crc'')]"

fun find_field :: "nat \<Rightarrow> (nat \<times> string) list \<Rightarrow> string option" where
  "find_field offset [] = None"
| "find_field offset ((fin, name) # others) =
     (if offset < fin then Some (''header.'' @ name) else find_field offset others)"

definition field_at :: "nat \<Rightarrow> string" where
  "field_at offset =
     (let payload_begin = kFramePrefixSize + kHeaderSize;
          payload_end = payload_begin + kPayloadBytes;
          rest = (if offset < payload_end
                  then let relative = offset - payload_begin
                       in ''payload[channel='' @ to_string (relative div kSampleBytes) @ ''].'' @
                          (if relative mod kSampleBytes < 4 then ''re'' else ''im'')
                  else ''payload_crc'')
      in if offset < kFramePrefixSize then ''header_len''
         else if offset < payload_begin
              then (case find_field offset header_fields of Some name \<Rightarrow> name | None \<Rightarrow> rest)
              else rest)"

section \<open>One side of the comparison\<close>

record side_stats =
  ss_total :: u64
  ss_invalid :: u64
  ss_out_of_order :: u64

record side =
  sd_label :: string
  sd_reader :: capture_reader
  sd_wire :: bytes
  sd_frame :: frame
  sd_has_frame :: bool
  sd_frame_id :: u64
  sd_last_frame_id :: "u64 option"
  sd_problem :: string
  sd_stats :: side_stats

definition new_side :: "filesystem \<Rightarrow> string \<Rightarrow> path \<Rightarrow> side" where
  "new_side fs label path =
     \<lparr>sd_label = label, sd_reader = new_capture_reader fs path, sd_wire = replicate kWireFrameSize 0,
      sd_frame = default_frame, sd_has_frame = False, sd_frame_id = 0, sd_last_frame_id = None,
      sd_problem = [], sd_stats = \<lparr>ss_total = 0, ss_invalid = 0, ss_out_of_order = 0\<rparr>\<rparr>"

definition side_valid :: "side \<Rightarrow> bool" where
  "side_valid s \<longleftrightarrow> sd_problem s = []"

definition side_location :: "side \<Rightarrow> string" where
  "side_location s = reader_location (sd_reader s)"

text \<open>\<open>Side::raw_frame_id\<close>\<close>

definition raw_frame_id :: "bytes \<Rightarrow> u64" where
  "raw_frame_id wire =
     fold (\<lambda>i value. value OR push_bit (8 * i) (ucast (wire ! (kFrameIdWireOffset + i)))) [0..<8] 0"

text \<open>The \<open>report\<close> closure: the number of lines reported and the lines printed.\<close>

record reports =
  rp_reported :: u64
  rp_printed :: "string list"

definition report :: "u64 \<Rightarrow> string \<Rightarrow> reports \<Rightarrow> reports" where
  "report max_report line r =
     \<lparr>rp_reported = rp_reported r + 1,
      rp_printed = (if rp_reported r < max_report then rp_printed r @ [line] else rp_printed r)\<rparr>"

text \<open>\<open>Side::advance\<close>: the result is the new side and the new reports (\<open>has_frame\<close> is the value returned).\<close>

definition advance :: "filesystem \<Rightarrow> u64 \<Rightarrow> side \<Rightarrow> reports \<Rightarrow> side \<times> reports" where
  "advance fs max_report s r =
     (case reader_next fs (sd_wire s) (sd_reader s) of
        (False, wire, rd) \<Rightarrow> (s\<lparr>sd_reader := rd, sd_wire := wire, sd_has_frame := False\<rparr>, r)
      | (True, wire, rd) \<Rightarrow>
          let (res, frame) = deserialize_frame_into wire (sd_frame s);
              (problem, frame_id) =
                (case res of
                   Inr _ \<Rightarrow> (validate_frame frame, hdr_frame_id (fr_header frame))
                 | Inl ex \<Rightarrow> (ex, raw_frame_id wire));
              s1 = s\<lparr>sd_reader := rd, sd_wire := wire, sd_frame := frame, sd_has_frame := True,
                     sd_frame_id := frame_id, sd_problem := problem,
                     sd_stats := (sd_stats s)\<lparr>ss_total := ss_total (sd_stats s) + 1\<rparr>\<rparr>;
              (s2, r2) =
                (if problem \<noteq> []
                 then (s1\<lparr>sd_stats := (sd_stats s1)\<lparr>ss_invalid := ss_invalid (sd_stats s1) + 1\<rparr>\<rparr>,
                       report max_report
                         (''INVALID '' @ sd_label s @ '' frame_id='' @ to_string (unat frame_id) @ '' at ''
                            @ side_location s1 @ '': '' @ problem) r)
                 else (s1, r));
              (s3, r3) =
                (case sd_last_frame_id s of
                   Some last_id \<Rightarrow>
                     if frame_id \<le> last_id
                     then (s2\<lparr>sd_stats := (sd_stats s2)\<lparr>ss_out_of_order := ss_out_of_order (sd_stats s2) + 1\<rparr>\<rparr>,
                           report max_report
                             (''OUT_OF_ORDER '' @ sd_label s @ '' frame_id='' @ to_string (unat frame_id) @ '' after ''
                                @ to_string (unat last_id) @ '' at '' @ side_location s1) r2)
                     else (s2, r2)
                 | None \<Rightarrow> (s2, r2))
          in (s3\<lparr>sd_last_frame_id := Some frame_id\<rparr>, r3))"

section \<open>The byte comparison\<close>

record frame_diff =
  fd_first :: nat
  fd_differing :: nat
  fd_bit_errors :: u64

text \<open>\<open>std::popcount\<close> of the difference of two bytes\<close>

definition popcount :: "byte \<Rightarrow> nat" where
  "popcount b = length (filter (bit b) [0..<8])"

definition diff_frames :: "bytes \<Rightarrow> bytes \<Rightarrow> frame_diff" where
  "diff_frames a b =
     fold (\<lambda>i d. let diff = a ! i XOR b ! i
                in if diff \<noteq> 0
                   then \<lparr>fd_first = (if fd_differing d = 0 then i else fd_first d),
                         fd_differing = fd_differing d + 1,
                         fd_bit_errors = fd_bit_errors d + of_nat (popcount diff)\<rparr>
                   else d)
       [0..<length a] \<lparr>fd_first = length a, fd_differing = 0, fd_bit_errors = 0\<rparr>"

section \<open>The merge loop\<close>

record totals =
  tl_identical :: u64
  tl_compared :: u64
  tl_bit_errors :: u64
  tl_mismatched :: u64
  tl_missing :: u64
  tl_unexpected :: u64

record merge_state =
  ms_expected :: side
  ms_actual :: side
  ms_totals :: totals
  ms_reports :: reports

definition hex_digit :: "nat \<Rightarrow> char" where
  "hex_digit d = (if d < 10 then char_of (48 + d) else char_of (87 + d))"

text \<open>\<open>%02x\<close> of a byte\<close>

definition hex_byte :: "byte \<Rightarrow> string" where
  "hex_byte b = [hex_digit (unat b div 16), hex_digit (unat b mod 16)]"

definition mismatch_line :: "side \<Rightarrow> side \<Rightarrow> frame_diff \<Rightarrow> bool \<Rightarrow> string" where
  "mismatch_line e a d by_position =
     (let values = ''expected=0x'' @ hex_byte (sd_wire e ! fd_first d) @ '' actual=0x'' @ hex_byte (sd_wire a ! fd_first d)
      in ''MISMATCH frame_id='' @ to_string (unat (sd_frame_id e)) @ '' first_offset='' @ to_string (fd_first d) @
         '' field='' @ field_at (fd_first d) @ '' '' @ values @ '' differing_bytes='' @ to_string (fd_differing d) @
         '' differing_bits='' @ to_string (unat (fd_bit_errors d)) @
         (if by_position then '' actual_frame_id='' @ to_string (unat (sd_frame_id a)) @ ''(paired by position)'' else []) @
         '' (expected '' @ side_location e @ '', actual '' @ side_location a @ '')'')"

text \<open>The conditions of the loop body, then its three branches.\<close>

definition by_position :: "side \<Rightarrow> side \<Rightarrow> bool" where
  "by_position e a \<longleftrightarrow>
     (sd_has_frame e \<and> sd_has_frame a) \<and> sd_frame_id e \<noteq> sd_frame_id a \<and> (\<not> side_valid e \<or> \<not> side_valid a)"

definition only_expected :: "side \<Rightarrow> side \<Rightarrow> bool" where
  "only_expected e a \<longleftrightarrow>
     \<not> by_position e a \<and> (\<not> sd_has_frame a \<or> (sd_has_frame e \<and> sd_frame_id e < sd_frame_id a))"

definition only_actual :: "side \<Rightarrow> side \<Rightarrow> bool" where
  "only_actual e a \<longleftrightarrow> \<not> by_position e a \<and> (\<not> sd_has_frame e \<or> sd_frame_id a < sd_frame_id e)"

definition merge_missing :: "filesystem \<Rightarrow> u64 \<Rightarrow> merge_state \<Rightarrow> merge_state" where
  "merge_missing fs max_report m =
     (let e = ms_expected m;
          line = ''MISSING frame_id='' @ to_string (unat (sd_frame_id e)) @ '' (expected '' @ side_location e @ '')'';
          (e', r) = advance fs max_report e (report max_report line (ms_reports m))
      in m\<lparr>ms_expected := e', ms_reports := r,
           ms_totals := (ms_totals m)\<lparr>tl_missing := tl_missing (ms_totals m) + 1\<rparr>\<rparr>)"

definition merge_unexpected :: "filesystem \<Rightarrow> u64 \<Rightarrow> merge_state \<Rightarrow> merge_state" where
  "merge_unexpected fs max_report m =
     (let a = ms_actual m;
          line = ''UNEXPECTED frame_id='' @ to_string (unat (sd_frame_id a)) @ '' only in actual '' @ side_location a;
          (a', r) = advance fs max_report a (report max_report line (ms_reports m))
      in m\<lparr>ms_actual := a', ms_reports := r,
           ms_totals := (ms_totals m)\<lparr>tl_unexpected := tl_unexpected (ms_totals m) + 1\<rparr>\<rparr>)"

definition count_pair :: "frame_diff \<Rightarrow> totals \<Rightarrow> totals" where
  "count_pair d t =
     (let t1 = t\<lparr>tl_compared := tl_compared t + 1, tl_bit_errors := tl_bit_errors t + fd_bit_errors d\<rparr>
      in if fd_differing d = 0 then t1\<lparr>tl_identical := tl_identical t1 + 1\<rparr>
         else t1\<lparr>tl_mismatched := tl_mismatched t1 + 1\<rparr>)"

definition merge_pair :: "filesystem \<Rightarrow> u64 \<Rightarrow> merge_state \<Rightarrow> merge_state" where
  "merge_pair fs max_report m =
     (let e = ms_expected m; a = ms_actual m;
          d = diff_frames (sd_wire e) (sd_wire a);
          r1 = (if fd_differing d = 0 then ms_reports m
                else report max_report (mismatch_line e a d (by_position e a)) (ms_reports m));
          (e', r2) = advance fs max_report e r1;
          (a', r3) = advance fs max_report a r2
      in \<lparr>ms_expected = e', ms_actual = a', ms_totals = count_pair d (ms_totals m), ms_reports = r3\<rparr>)"

definition merge_step :: "filesystem \<Rightarrow> u64 \<Rightarrow> merge_state \<Rightarrow> merge_state" where
  "merge_step fs max_report m =
     (if only_expected (ms_expected m) (ms_actual m) then merge_missing fs max_report m
      else if only_actual (ms_expected m) (ms_actual m) then merge_unexpected fs max_report m
      else merge_pair fs max_report m)"

text \<open>Every turn takes a frame from a side that has one, so the loop ends.\<close>

definition frames_left :: "filesystem \<Rightarrow> side \<Rightarrow> nat" where
  "frames_left fs s = (if sd_has_frame s then Suc (length (rest_frames fs (sd_reader s))) else 0)"

lemma advance_frames_left:
  assumes "sd_has_frame s"
  shows "frames_left fs (fst (advance fs max_report s r)) < frames_left fs s"
proof (cases "length (sd_wire s) = kWireFrameSize")
  case True
  obtain ok wire rd where nx: "reader_next fs (sd_wire s) (sd_reader s) = (ok, wire, rd)" by (metis prod_cases3)
  show ?thesis
  proof (cases ok)
    case True': True
    have "length (rest_frames fs rd) < length (rest_frames fs (sd_reader s))"
      using rd.total_frames_decrease [OF True] nx True' by simp
    then show ?thesis
      using assms nx True' by (simp add: advance_def frames_left_def Let_def split: prod.splits sum.splits option.splits)
  next
    case False
    then show ?thesis using assms nx by (simp add: advance_def frames_left_def)
  qed
next
  case False
  then show ?thesis using assms by (simp add: advance_def frames_left_def reader_next_def)
qed

lemma merge_branches:
  "\<exists>r. ms_expected (merge_missing fs n m) = fst (advance fs n (ms_expected m) r)"
  "ms_actual (merge_missing fs n m) = ms_actual m"
  "\<exists>r. ms_actual (merge_unexpected fs n m) = fst (advance fs n (ms_actual m) r)"
  "ms_expected (merge_unexpected fs n m) = ms_expected m"
  "\<exists>r. ms_expected (merge_pair fs n m) = fst (advance fs n (ms_expected m) r)"
  "\<exists>r. ms_actual (merge_pair fs n m) = fst (advance fs n (ms_actual m) r)"
  unfolding merge_missing_def merge_unexpected_def merge_pair_def Let_def
  by (simp_all split: prod.splits) (metis fst_conv)+

lemma merge_step_frames_left:
  assumes "sd_has_frame (ms_expected m) \<or> sd_has_frame (ms_actual m)"
  shows "frames_left fs (ms_expected (merge_step fs n m)) + frames_left fs (ms_actual (merge_step fs n m))
       < frames_left fs (ms_expected m) + frames_left fs (ms_actual m)"
proof -
  note less = advance_frames_left [of "ms_expected m" fs n] advance_frames_left [of "ms_actual m" fs n]
  consider (missing) "only_expected (ms_expected m) (ms_actual m)" "sd_has_frame (ms_expected m)"
    | (unexpected) "\<not> only_expected (ms_expected m) (ms_actual m)" "only_actual (ms_expected m) (ms_actual m)"
        "sd_has_frame (ms_actual m)"
    | (pair) "\<not> only_expected (ms_expected m) (ms_actual m)" "\<not> only_actual (ms_expected m) (ms_actual m)"
        "sd_has_frame (ms_expected m)" "sd_has_frame (ms_actual m)"
    using assms unfolding only_expected_def only_actual_def by_position_def by blast
  then show ?thesis
  proof cases
    case missing
    then show ?thesis using less(1) merge_branches(1,2) [of fs n m] by (auto simp: merge_step_def)
  next
    case unexpected
    then show ?thesis using less(2) merge_branches(3,4) [of fs n m] by (auto simp: merge_step_def)
  next
    case pair
    then show ?thesis using less merge_branches(5,6) [of fs n m] by (auto simp: merge_step_def intro: add_strict_mono)
  qed
qed

function merge_loop :: "filesystem \<Rightarrow> u64 \<Rightarrow> merge_state \<Rightarrow> merge_state" where
  "merge_loop fs max_report m =
     (if sd_has_frame (ms_expected m) \<or> sd_has_frame (ms_actual m)
      then merge_loop fs max_report (merge_step fs max_report m) else m)"
  by pat_completeness auto
termination
  by (relation "measure (\<lambda>(fs, n, m). frames_left fs (ms_expected m) + frames_left fs (ms_actual m))")
    (simp_all add: merge_step_frames_left)

declare merge_loop.simps [simp del]

section \<open>The program\<close>

text \<open>\<open>%.3e\<close> of a non-negative number: four significant digits, correctly rounded.\<close>

definition decimal_exponent :: "rat \<Rightarrow> int" where
  "decimal_exponent x =
     (if 1 \<le> x then int (length (to_string (nat \<lfloor>x\<rfloor>))) - 1
      else - int (length (to_string (nat (\<lceil>1 / x\<rceil> - 1)))))"

definition format_e3 :: "rat \<Rightarrow> string" where
  "format_e3 x =
     (if x = 0 then ''0.000e+00''
      else
        let e0 = decimal_exponent x;
            m0 = round_half_even (x * 10 powi (3 - e0));
            (m, e) = (if m0 = 10000 then (1000, e0 + 1) else (m0, e0));
            digits = to_string (nat m)
        in hd digits # ''.'' @ tl digits @ ''e'' @ (if e < 0 then ''-'' else ''+'')
             @ pad_zeros 2 (to_string (nat \<bar>e\<bar>)))"

definition rate_text :: "u64 \<Rightarrow> u64 \<Rightarrow> string" where
  "rate_text num den =
     format_e3 (if den = 0 then 0 else fl (fl (of_nat (unat num)) / fl (of_nat (unat den))))"

fun compare_args :: "string list \<Rightarrow> string list \<Rightarrow> u64 \<Rightarrow> error + string list \<times> u64" where
  "compare_args [] positional max_report = Inr (positional, max_report)"
| "compare_args [arg] positional max_report = Inr (positional @ [arg], max_report)"
| "compare_args (arg # v # rest) positional max_report =
     (if arg = ''--max-report'' then and_then (std_stoull v) (\<lambda>n. compare_args rest positional n)
      else compare_args (v # rest) (positional @ [arg]) max_report)"

definition compare_run :: "filesystem \<Rightarrow> u64 \<Rightarrow> side \<Rightarrow> side \<Rightarrow> merge_state" where
  "compare_run fs max_report expected actual =
     (let r0 = \<lparr>rp_reported = 0, rp_printed = []\<rparr>;
          (e, r1) = advance fs max_report expected r0;
          (a, r2) = advance fs max_report actual r1
      in merge_loop fs max_report
           \<lparr>ms_expected = e, ms_actual = a,
            ms_totals = \<lparr>tl_identical = 0, tl_compared = 0, tl_bit_errors = 0, tl_mismatched = 0,
                         tl_missing = 0, tl_unexpected = 0\<rparr>,
            ms_reports = r2\<rparr>)"

definition side_trailing :: "side \<Rightarrow> u64" where
  "side_trailing s = rd_trailing_bytes (sd_reader s)"

definition compare_ok :: "merge_state \<Rightarrow> bool" where
  "compare_ok m \<longleftrightarrow>
     (let t = ms_totals m; es = sd_stats (ms_expected m); as = sd_stats (ms_actual m)
      in tl_mismatched t = 0 \<and> tl_missing t = 0 \<and> tl_unexpected t = 0 \<and> ss_invalid es = 0 \<and> ss_invalid as = 0
         \<and> ss_out_of_order es = 0 \<and> ss_out_of_order as = 0 \<and> side_trailing (ms_expected m) = 0
         \<and> side_trailing (ms_actual m) = 0 \<and> 0 < ss_total es)"

definition side_summary :: "string \<Rightarrow> side \<Rightarrow> string" where
  "side_summary name s =
     name @ ''_frames='' @ to_string (unat (ss_total (sd_stats s)))
       @ '' invalid='' @ to_string (unat (ss_invalid (sd_stats s)))
       @ '' out_of_order='' @ to_string (unat (ss_out_of_order (sd_stats s)))
       @ '' trailing_bytes='' @ to_string (unat (side_trailing s))"

definition compare_summary :: "u64 \<Rightarrow> merge_state \<Rightarrow> string list" where
  "compare_summary max_report m =
     (let t = ms_totals m; r = ms_reports m;
          compared_bits = tl_compared t * of_nat kWireFrameSize * 8
      in rp_printed r
         @ (if max_report < rp_reported r
            then [''... '' @ to_string (unat (rp_reported r - max_report)) @ '' more issue lines suppressed''] else [])
         @ [''frame_bytes='' @ to_string kWireFrameSize,
            side_summary ''expected'' (ms_expected m),
            side_summary ''actual'' (ms_actual m),
            ''identical='' @ to_string (unat (tl_identical t)) @ '' mismatched='' @ to_string (unat (tl_mismatched t))
              @ '' missing='' @ to_string (unat (tl_missing t)) @ '' unexpected='' @ to_string (unat (tl_unexpected t)),
            ''compared_bits='' @ to_string (unat compared_bits) @ '' bit_errors='' @ to_string (unat (tl_bit_errors t))
              @ '' ber='' @ rate_text (tl_bit_errors t) compared_bits
              @ '' frame_loss_rate='' @ rate_text (tl_missing t) (ss_total (sd_stats (ms_expected m))),
            ''result='' @ (if compare_ok m then ''IDENTICAL'' else ''DIFFERENT'')])"

text \<open>An exit code with the lines of standard output and standard error, or an uncaught exception.\<close>

datatype outcome = Exit int "string list" "string list" | Uncaught error

definition frame_compare :: "filesystem \<Rightarrow> string list \<Rightarrow> outcome" where
  "frame_compare fs args =
     (case compare_args args [] 20 of
        Inl e \<Rightarrow> Uncaught e
      | Inr (positional, max_report) \<Rightarrow>
          if length positional \<noteq> 2
          then Exit 64 [] [''usage: frame_compare <expected.bin|dir> <actual.bin|dir> [--max-report <n>]'']
          else
            let expected = new_side fs ''expected'' (to_path (positional ! 0));
                actual = new_side fs ''actual'' (to_path (positional ! 1))
            in case filter (\<lambda>s. \<not> reader_ok (sd_reader s)) [expected, actual] of
                 s # _ \<Rightarrow> Exit 2 [] [sd_label s @ '': '' @ rd_error (sd_reader s)]
               | [] \<Rightarrow>
                   let m = compare_run fs max_report expected actual
                   in Exit (if compare_ok m then 0 else 1) (compare_summary max_report m) [])"

section \<open>What a side has seen\<close>

definition wire_problem :: "bytes \<Rightarrow> string" where
  "wire_problem wire = (case deserialize_frame wire of Inl ex \<Rightarrow> ex | Inr f \<Rightarrow> validate_frame f)"

definition wire_id :: "bytes \<Rightarrow> u64" where
  "wire_id wire = (case deserialize_frame wire of Inl _ \<Rightarrow> raw_frame_id wire | Inr f \<Rightarrow> hdr_frame_id (fr_header f))"

text \<open>The number of frames whose id is not above that of the frame before.\<close>

fun disorder :: "u64 list \<Rightarrow> nat" where
  "disorder (i # j # ids) = (if j \<le> i then 1 else 0) + disorder (j # ids)"
| "disorder _ = 0"

lemma disorder_snoc:
  "disorder (ids @ [j]) = disorder ids + (if ids \<noteq> [] \<and> j \<le> last ids then 1 else 0)"
  by (induction ids rule: disorder.induct) auto

lemma disorder_0_iff: "disorder ids = 0 \<longleftrightarrow> sorted_wrt (<) ids"
proof (induction ids rule: disorder.induct)
  case (1 i j ids)
  have "sorted_wrt (<) (i # j # ids) \<longleftrightarrow> i < j \<and> sorted_wrt (<) (j # ids)" by auto
  then show ?case using 1 by (auto simp: not_le)
qed auto

lemma disorder_le: "disorder ids \<le> length ids"
  by (induction ids rule: disorder.induct) auto

definition invalid_count :: "bytes list \<Rightarrow> nat" where
  "invalid_count fs = length (filter (\<lambda>f. wire_problem f \<noteq> []) fs)"

definition side_inv :: "filesystem \<Rightarrow> bytes list \<Rightarrow> nat \<Rightarrow> bytes list \<Rightarrow> side \<Rightarrow> bool" where
  "side_inv fs frames trailing seen s \<longleftrightarrow>
     length (sd_wire s) = kWireFrameSize \<and> frames = seen @ rest_frames fs (sd_reader s) \<and>
     rd_trailing_bytes (sd_reader s) + of_nat (rest_trailing fs (sd_reader s)) = of_nat trailing \<and>
     sd_stats s = \<lparr>ss_total = of_nat (length seen), ss_invalid = of_nat (invalid_count seen),
                   ss_out_of_order = of_nat (disorder (map wire_id seen))\<rparr> \<and>
     sd_last_frame_id s = (if seen = [] then None else Some (wire_id (last seen))) \<and>
     (sd_has_frame s \<longrightarrow> seen \<noteq> [] \<and> sd_wire s = last seen \<and> sd_frame_id s = wire_id (last seen) \<and>
        sd_problem s = wire_problem (last seen))"

lemma deserialize_error_independent:
  "fst (deserialize_frame_into wire f0) = fst (deserialize_frame_into wire default_frame)"
  by (auto simp: deserialize_frame_into_def Let_def split: prod.splits sum.splits)

lemma deserialize_side:
  assumes "deserialize_frame_into wire f0 = (res, f)"
  shows "(case res of Inr _ \<Rightarrow> (validate_frame f, hdr_frame_id (fr_header f)) | Inl ex \<Rightarrow> (ex, raw_frame_id wire))
       = (wire_problem wire, wire_id wire)"
proof (cases "well_sized wire")
  case True
  then show ?thesis
    using assms by (auto simp: deserialize_well_sized wire_problem_def wire_id_def deserialize_frame_def)
next
  case False
  have "fst (deserialize_frame_into wire default_frame) = res"
    using assms deserialize_error_independent [of wire f0] by simp
  moreover have "\<nexists>u. res = Inr u" using False assms deserialize_ok_iff [of wire f0] by auto
  ultimately show ?thesis
    by (cases res) (auto simp: wire_problem_def wire_id_def deserialize_frame_def split: prod.splits)
qed

lemma advance_spec:
  assumes inv: "side_inv fs frames trailing seen s" and adv: "advance fs n s r = (s', r')"
  shows "if rest_frames fs (sd_reader s) = []
    then \<not> sd_has_frame s' \<and> side_inv fs frames trailing seen s' \<and> seen = frames \<and> side_trailing s' = of_nat trailing
    else sd_has_frame s' \<and> side_inv fs frames trailing (seen @ [hd (rest_frames fs (sd_reader s))]) s' \<and>
      rest_frames fs (sd_reader s') = tl (rest_frames fs (sd_reader s))"
proof -
  have size: "length (sd_wire s) = kWireFrameSize" using inv by (simp add: side_inv_def)
  obtain ok wire rd where nx: "reader_next fs (sd_wire s) (sd_reader s) = (ok, wire, rd)" by (metis prod_cases3)
  show ?thesis
  proof (cases ok)
    case True
    then have more: "length wire = kWireFrameSize" "rest_frames fs (sd_reader s) = wire # rest_frames fs rd"
        "rd_trailing_bytes rd + of_nat (rest_trailing fs rd)
         = rd_trailing_bytes (sd_reader s) + of_nat (rest_trailing fs (sd_reader s))"
      using rd.next_frame [OF size] nx by auto
    obtain res f where d: "deserialize_frame_into wire (sd_frame s) = (res, f)" by (metis surj_pair)
    have "sd_reader s' = rd \<and> sd_wire s' = wire \<and> sd_has_frame s' \<and> sd_frame_id s' = wire_id wire \<and>
        sd_problem s' = wire_problem wire \<and> sd_last_frame_id s' = Some (wire_id wire) \<and>
        sd_stats s' = \<lparr>ss_total = ss_total (sd_stats s) + 1,
          ss_invalid = ss_invalid (sd_stats s) + (if wire_problem wire \<noteq> [] then 1 else 0),
          ss_out_of_order = ss_out_of_order (sd_stats s) +
            (case sd_last_frame_id s of Some i \<Rightarrow> if wire_id wire \<le> i then 1 else 0 | None \<Rightarrow> 0)\<rparr>"
      using adv nx True deserialize_side [OF d] d
      by (cases "sd_last_frame_id s"; cases "wire_problem wire = []") (auto simp: advance_def Let_def split: if_splits)
    then show ?thesis
      using inv more by (auto simp: side_inv_def invalid_count_def disorder_snoc last_map)
  next
    case False
    then have "rest_frames fs (sd_reader s) = []" "rest_frames fs rd = []" "rest_trailing fs rd = 0"
        "rd_trailing_bytes rd = rd_trailing_bytes (sd_reader s) + of_nat (rest_trailing fs (sd_reader s))"
      using rd.next_end [OF size] nx by auto
    moreover have "length wire = kWireFrameSize"
      using nx size next_loop_spec [of fs "sd_wire s" "sd_reader s" ok wire rd] by (simp add: reader_next_def)
    ultimately show ?thesis
      using adv nx False inv by (auto simp: advance_def side_inv_def side_trailing_def)
  qed
qed

section \<open>The reference merge\<close>

text \<open>The byte loop counts the differing positions; equal frames have none.\<close>

lemma xor_eq_zero_iff: "x XOR y = 0 \<longleftrightarrow> x = (y :: byte)"
  by (auto simp: bit_eq_iff bit_simps)

lemma diff_frames_differing:
  "fd_differing (diff_frames a b) = length (filter (\<lambda>i. a ! i \<noteq> b ! i) [0..<length a])"
proof -
  have "fd_differing (fold (\<lambda>i d. let diff = a ! i XOR b ! i
                in if diff \<noteq> 0
                   then \<lparr>fd_first = (if fd_differing d = 0 then i else fd_first d),
                         fd_differing = fd_differing d + 1,
                         fd_bit_errors = fd_bit_errors d + of_nat (popcount diff)\<rparr>
                   else d) is d) = fd_differing d + length (filter (\<lambda>i. a ! i \<noteq> b ! i) is)" for "is" d
    by (induction "is" arbitrary: d) (simp_all add: Let_def xor_eq_zero_iff)
  then show ?thesis by (simp add: diff_frames_def)
qed

lemma diff_frames_equal_iff:
  "length a = length b \<Longrightarrow> fd_differing (diff_frames a b) = 0 \<longleftrightarrow> a = b"
proof -
  assume "length a = length b"
  then have "a = b \<longleftrightarrow> (\<forall>i < length a. a ! i = b ! i)" by (simp add: list_eq_iff_nth_eq)
  then show ?thesis by (auto simp: diff_frames_differing filter_empty_conv)
qed

text \<open>How two lists of frames are merged: by id, or by position if an id cannot be trusted.\<close>

definition positional :: "bytes \<Rightarrow> bytes \<Rightarrow> bool" where
  "positional e a \<longleftrightarrow> wire_id e \<noteq> wire_id a \<and> (wire_problem e \<noteq> [] \<or> wire_problem a \<noteq> [])"

record verdict =
  vd_identical :: nat
  vd_mismatched :: nat
  vd_missing :: nat
  vd_unexpected :: nat

fun merge_ref :: "bytes list \<Rightarrow> bytes list \<Rightarrow> verdict" where
  "merge_ref [] [] = \<lparr>vd_identical = 0, vd_mismatched = 0, vd_missing = 0, vd_unexpected = 0\<rparr>"
| "merge_ref (e # es) [] = (let v = merge_ref es [] in v\<lparr>vd_missing := vd_missing v + 1\<rparr>)"
| "merge_ref [] (a # as) = (let v = merge_ref [] as in v\<lparr>vd_unexpected := vd_unexpected v + 1\<rparr>)"
| "merge_ref (e # es) (a # as) =
     (if \<not> positional e a \<and> wire_id e < wire_id a
      then let v = merge_ref es (a # as) in v\<lparr>vd_missing := vd_missing v + 1\<rparr>
      else if \<not> positional e a \<and> wire_id a < wire_id e
      then let v = merge_ref (e # es) as in v\<lparr>vd_unexpected := vd_unexpected v + 1\<rparr>
      else let v = merge_ref es as
           in if e = a then v\<lparr>vd_identical := vd_identical v + 1\<rparr>
              else v\<lparr>vd_mismatched := vd_mismatched v + 1\<rparr>)"

definition add_verdict :: "totals \<Rightarrow> verdict \<Rightarrow> totals \<Rightarrow> bool" where
  "add_verdict t v t' \<longleftrightarrow>
     tl_identical t' = tl_identical t + of_nat (vd_identical v) \<and>
     tl_mismatched t' = tl_mismatched t + of_nat (vd_mismatched v) \<and>
     tl_missing t' = tl_missing t + of_nat (vd_missing v) \<and>
     tl_unexpected t' = tl_unexpected t + of_nat (vd_unexpected v)"

text \<open>The frames that the merge has not yet consumed on one side.\<close>

definition todo :: "filesystem \<Rightarrow> side \<Rightarrow> bytes list" where
  "todo fs s = (if sd_has_frame s then sd_wire s # rest_frames fs (sd_reader s) else [])"

definition tracked :: "filesystem \<Rightarrow> bytes list \<Rightarrow> nat \<Rightarrow> side \<Rightarrow> bool" where
  "tracked fs frames trailing s \<longleftrightarrow>
     (\<exists>seen. side_inv fs frames trailing seen s \<and>
       (\<not> sd_has_frame s \<longrightarrow> seen = frames \<and> side_trailing s = of_nat trailing))"

lemma tracked_facts:
  assumes "tracked fs frames trailing s" "sd_has_frame s"
  shows "sd_frame_id s = wire_id (sd_wire s)" "side_valid s \<longleftrightarrow> wire_problem (sd_wire s) = []"
    "length (sd_wire s) = kWireFrameSize"
  using assms by (auto simp: tracked_def side_inv_def side_valid_def)

lemma advance_tracked:
  assumes "tracked fs frames trailing s" "sd_has_frame s"
  shows "tracked fs frames trailing (fst (advance fs n s r)) \<and> todo fs (fst (advance fs n s r)) = tl (todo fs s)"
proof -
  obtain seen where inv: "side_inv fs frames trailing seen s" using assms(1) by (auto simp: tracked_def)
  obtain s' r' where adv: "advance fs n s r = (s', r')" by (metis surj_pair)
  note spec = advance_spec [OF inv adv]
  show ?thesis
  proof (cases "rest_frames fs (sd_reader s) = []")
    case True
    then show ?thesis using spec assms(2) by (auto simp: tracked_def todo_def adv)
  next
    case False
    then have "side_inv fs frames trailing (seen @ [hd (rest_frames fs (sd_reader s))]) s'" "sd_has_frame s'"
        "rest_frames fs (sd_reader s') = tl (rest_frames fs (sd_reader s))" using spec by auto
    moreover from this have "sd_wire s' = hd (rest_frames fs (sd_reader s))" by (simp add: side_inv_def)
    ultimately show ?thesis using False assms(2) by (auto simp: tracked_def todo_def adv)
  qed
qed

lemma merge_totals:
  "ms_totals (merge_missing fs n m) = (ms_totals m)\<lparr>tl_missing := tl_missing (ms_totals m) + 1\<rparr>"
  "ms_totals (merge_unexpected fs n m) = (ms_totals m)\<lparr>tl_unexpected := tl_unexpected (ms_totals m) + 1\<rparr>"
  "ms_totals (merge_pair fs n m) = count_pair (diff_frames (sd_wire (ms_expected m)) (sd_wire (ms_actual m))) (ms_totals m)"
  by (simp_all add: merge_missing_def merge_unexpected_def merge_pair_def Let_def split: prod.splits)

lemma merge_step_spec:
  assumes e: "tracked fs ef te (ms_expected m)" and a: "tracked fs af ta (ms_actual m)"
    and more: "sd_has_frame (ms_expected m) \<or> sd_has_frame (ms_actual m)"
  shows "tracked fs ef te (ms_expected (merge_step fs n m)) \<and> tracked fs af ta (ms_actual (merge_step fs n m)) \<and>
    (add_verdict (ms_totals (merge_step fs n m))
       (merge_ref (todo fs (ms_expected (merge_step fs n m))) (todo fs (ms_actual (merge_step fs n m)))) t \<longrightarrow>
     add_verdict (ms_totals m) (merge_ref (todo fs (ms_expected m)) (todo fs (ms_actual m))) t)"
proof -
  let ?e = "ms_expected m" and ?a = "ms_actual m"
  note step_e = advance_tracked [OF e] and step_a = advance_tracked [OF a]
  have todo_e: "sd_has_frame ?e \<Longrightarrow> todo fs ?e = sd_wire ?e # tl (todo fs ?e)"
    and todo_a: "sd_has_frame ?a \<Longrightarrow> todo fs ?a = sd_wire ?a # tl (todo fs ?a)"
    and none: "\<not> sd_has_frame ?e \<Longrightarrow> todo fs ?e = []" "\<not> sd_has_frame ?a \<Longrightarrow> todo fs ?a = []"
    by (simp_all add: todo_def)
  note ids = tracked_facts(1) [OF e] tracked_facts(1) [OF a]
  have pos: "by_position ?e ?a \<longleftrightarrow> sd_has_frame ?e \<and> sd_has_frame ?a \<and> positional (sd_wire ?e) (sd_wire ?a)"
    using tracked_facts(1,2) [OF e] tracked_facts(1,2) [OF a] by (auto simp: by_position_def positional_def)
  consider (missing) "only_expected ?e ?a" "sd_has_frame ?e"
    | (unexpected) "\<not> only_expected ?e ?a" "only_actual ?e ?a" "sd_has_frame ?a"
    | (pair) "\<not> only_expected ?e ?a" "\<not> only_actual ?e ?a" "sd_has_frame ?e" "sd_has_frame ?a"
    using more unfolding only_expected_def only_actual_def by_position_def by blast
  then show ?thesis
  proof cases
    case missing
    have "merge_ref (todo fs ?e) (todo fs ?a)
        = (let v = merge_ref (tl (todo fs ?e)) (todo fs ?a) in v\<lparr>vd_missing := vd_missing v + 1\<rparr>)"
    proof (cases "sd_has_frame ?a")
      case True
      then show ?thesis
        using missing ids pos by (subst (1) todo_e, simp, subst (1 2) todo_a, simp, simp add: only_expected_def)
    next
      case False
      then show ?thesis using missing by (subst (1) todo_e, simp) (simp add: none)
    qed
    then show ?thesis
      using missing a step_e merge_branches(1,2) [of fs n m]
      by (auto simp: merge_step_def merge_totals add_verdict_def Let_def)
  next
    case unexpected
    have "merge_ref (todo fs ?e) (todo fs ?a)
        = (let v = merge_ref (todo fs ?e) (tl (todo fs ?a)) in v\<lparr>vd_unexpected := vd_unexpected v + 1\<rparr>)"
    proof (cases "sd_has_frame ?e")
      case True
      then show ?thesis
        using unexpected ids pos by (subst (1) todo_a, simp, subst (1 2) todo_e, simp)
          (auto simp: only_actual_def only_expected_def)
    next
      case False
      then show ?thesis using unexpected by (subst (1) todo_a, simp) (simp add: none)
    qed
    then show ?thesis
      using unexpected e step_a merge_branches(3,4) [of fs n m]
      by (auto simp: merge_step_def merge_totals add_verdict_def Let_def)
  next
    case pair
    have "merge_ref (todo fs ?e) (todo fs ?a)
        = (let v = merge_ref (tl (todo fs ?e)) (tl (todo fs ?a))
           in if sd_wire ?e = sd_wire ?a then v\<lparr>vd_identical := vd_identical v + 1\<rparr>
              else v\<lparr>vd_mismatched := vd_mismatched v + 1\<rparr>)"
      using pair ids pos by (subst (1) todo_e, simp, subst (1) todo_a, simp)
        (auto simp: only_actual_def only_expected_def)
    moreover have "fd_differing (diff_frames (sd_wire ?e) (sd_wire ?a)) = 0 \<longleftrightarrow> sd_wire ?e = sd_wire ?a"
      using tracked_facts(3) [OF e] tracked_facts(3) [OF a] pair by (intro diff_frames_equal_iff) simp
    ultimately show ?thesis
      using pair step_e step_a merge_branches(5,6) [of fs n m]
      by (auto simp: merge_step_def merge_totals count_pair_def add_verdict_def Let_def)
  qed
qed

lemma merge_loop_spec:
  assumes "tracked fs ef te (ms_expected m)" "tracked fs af ta (ms_actual m)"
  shows "tracked fs ef te (ms_expected (merge_loop fs n m)) \<and> tracked fs af ta (ms_actual (merge_loop fs n m)) \<and>
    \<not> sd_has_frame (ms_expected (merge_loop fs n m)) \<and> \<not> sd_has_frame (ms_actual (merge_loop fs n m)) \<and>
    add_verdict (ms_totals m) (merge_ref (todo fs (ms_expected m)) (todo fs (ms_actual m)))
      (ms_totals (merge_loop fs n m))"
  using assms
proof (induction fs n m rule: merge_loop.induct)
  case (1 fs n m)
  show ?case
  proof (cases "sd_has_frame (ms_expected m) \<or> sd_has_frame (ms_actual m)")
    case False
    then have "merge_loop fs n m = m" by (subst merge_loop.simps) simp
    then show ?thesis using False "1.prems" by (simp add: todo_def add_verdict_def)
  next
    case True
    then have "merge_loop fs n m = merge_loop fs n (merge_step fs n m)" by (subst merge_loop.simps) simp
    then show ?thesis
      using "1.IH" [OF True] merge_step_spec [OF "1.prems" True] by auto
  qed
qed

section \<open>Correctness\<close>

lemma merge_ref_account:
  "vd_identical (merge_ref es as) + vd_mismatched (merge_ref es as) + vd_missing (merge_ref es as) = length es"
  "vd_identical (merge_ref es as) + vd_mismatched (merge_ref es as) + vd_unexpected (merge_ref es as) = length as"
  by (induction es as rule: merge_ref.induct) (simp_all add: Let_def split: if_split_asm if_split)

lemma merge_ref_clean_iff:
  "vd_mismatched (merge_ref es as) = 0 \<and> vd_missing (merge_ref es as) = 0 \<and> vd_unexpected (merge_ref es as) = 0
   \<longleftrightarrow> es = as"
  by (induction es as rule: merge_ref.induct) (auto simp: Let_def)

lemma compare_run_spec:
  assumes "ef = files_frames fs (capture_files fs p)" "te = files_trailing fs (capture_files fs p)"
    and "af = files_frames fs (capture_files fs q)" "ta = files_trailing fs (capture_files fs q)"
    and "m = compare_run fs n (new_side fs ''expected'' p) (new_side fs ''actual'' q)"
  shows "side_trailing (ms_expected m) = of_nat te \<and> side_trailing (ms_actual m) = of_nat ta \<and>
    sd_stats (ms_expected m) = \<lparr>ss_total = of_nat (length ef), ss_invalid = of_nat (invalid_count ef),
       ss_out_of_order = of_nat (disorder (map wire_id ef))\<rparr> \<and>
    sd_stats (ms_actual m) = \<lparr>ss_total = of_nat (length af), ss_invalid = of_nat (invalid_count af),
       ss_out_of_order = of_nat (disorder (map wire_id af))\<rparr> \<and>
    tl_identical (ms_totals m) = of_nat (vd_identical (merge_ref ef af)) \<and>
    tl_mismatched (ms_totals m) = of_nat (vd_mismatched (merge_ref ef af)) \<and>
    tl_missing (ms_totals m) = of_nat (vd_missing (merge_ref ef af)) \<and>
    tl_unexpected (ms_totals m) = of_nat (vd_unexpected (merge_ref ef af))"
proof -
  let ?e = "new_side fs ''expected'' p" and ?a = "new_side fs ''actual'' q"
  have fresh: "side_inv fs (files_frames fs (capture_files fs d)) (files_trailing fs (capture_files fs d)) []
      (new_side fs label d)" for label d
    by (simp add: side_inv_def new_side_def new_reader_rest invalid_count_def)
  have start: "tracked fs (files_frames fs (capture_files fs d)) (files_trailing fs (capture_files fs d)) s'
      \<and> todo fs s' = files_frames fs (capture_files fs d)"
    if "advance fs n (new_side fs label d) r = (s', r')" for label d s' r r'
  proof -
    let ?fr = "files_frames fs (capture_files fs d)"
    have rest: "rest_frames fs (sd_reader (new_side fs label d)) = ?fr"
      by (simp add: new_side_def new_reader_rest)
    note spec = advance_spec [OF fresh that, unfolded rest append_Nil]
    show ?thesis
    proof (cases "?fr = []")
      case True
      then have "\<not> sd_has_frame s'" "side_inv fs ?fr (files_trailing fs (capture_files fs d)) [] s'"
          "side_trailing s' = of_nat (files_trailing fs (capture_files fs d))"
        using spec by simp_all
      then show ?thesis using True unfolding tracked_def todo_def by simp
    next
      case False
      then have s': "sd_has_frame s'" "side_inv fs ?fr (files_trailing fs (capture_files fs d)) [hd ?fr] s'"
          "rest_frames fs (sd_reader s') = tl ?fr"
        using spec by simp_all
      then have "sd_wire s' = hd ?fr" unfolding side_inv_def by simp
      then show ?thesis using False s' unfolding tracked_def todo_def by auto
    qed
  qed
  obtain e r1 where e: "advance fs n ?e \<lparr>rp_reported = 0, rp_printed = []\<rparr> = (e, r1)" by (metis surj_pair)
  obtain a r2 where a: "advance fs n ?a r1 = (a, r2)" by (metis surj_pair)
  let ?m = "\<lparr>ms_expected = e, ms_actual = a,
      ms_totals = \<lparr>tl_identical = 0, tl_compared = 0, tl_bit_errors = 0, tl_mismatched = 0, tl_missing = 0,
        tl_unexpected = 0\<rparr>, ms_reports = r2\<rparr>"
  have m: "m = merge_loop fs n ?m" using assms(5) e a by (simp add: compare_run_def)
  have loop: "tracked fs ef te (ms_expected m) \<and> tracked fs af ta (ms_actual m) \<and>
      \<not> sd_has_frame (ms_expected m) \<and> \<not> sd_has_frame (ms_actual m) \<and>
      add_verdict (ms_totals ?m) (merge_ref ef af) (ms_totals m)"
    using merge_loop_spec [of fs ef te ?m af ta n] start [OF e] start [OF a] assms(1-4) by (simp add: m)
  have finished: "side_trailing s = of_nat t \<and> sd_stats s = \<lparr>ss_total = of_nat (length fr),
      ss_invalid = of_nat (invalid_count fr), ss_out_of_order = of_nat (disorder (map wire_id fr))\<rparr>"
    if "tracked fs fr t s" "\<not> sd_has_frame s" for fr t s
    using that by (auto simp: tracked_def side_inv_def)
  show ?thesis
    using loop finished [of ef te "ms_expected m"] finished [of af ta "ms_actual m"] by (simp add: add_verdict_def)
qed

lemma of_nat_u64_zero_iff: "n < 2 ^ 64 \<Longrightarrow> (of_nat n :: u64) = 0 \<longleftrightarrow> n = 0"
  using of_nat_u64_eq_iff [of n 0] by simp

lemma deserialize_error_nonempty:
  "fst (deserialize_frame_into wire f) = Inl ex \<Longrightarrow> ex \<noteq> []"
  by (auto simp: deserialize_frame_into_def decode_header_def Let_def split: prod.splits sum.splits if_splits)

lemma wire_problem_ok_iff: "wire_problem f = [] \<longleftrightarrow> acceptable f"
proof (cases "well_sized f")
  case True
  then show ?thesis
    by (simp add: wire_problem_def deserialize_frame_def deserialize_well_sized acceptable_def)
next
  case False
  obtain res g where d: "deserialize_frame_into f default_frame = (res, g)" by (metis surj_pair)
  then have "res \<noteq> Inr ()" using False deserialize_ok_iff [of f default_frame] by auto
  then obtain ex where "res = Inl ex" "ex \<noteq> []"
    using deserialize_error_nonempty [of f default_frame] d by (cases res) auto
  then show ?thesis using False d by (simp add: wire_problem_def deserialize_frame_def acceptable_def)
qed

lemma invalid_count_0_iff: "invalid_count fs = 0 \<longleftrightarrow> (\<forall>f \<in> set fs. acceptable f)"
  by (simp add: invalid_count_def filter_empty_conv wire_problem_ok_iff)

lemma invalid_count_le: "invalid_count fs \<le> length fs"
  by (simp add: invalid_count_def)

text \<open>The frames of a capture named on the command line, and the bytes behind them.\<close>

definition captured_frames :: "filesystem \<Rightarrow> string \<Rightarrow> bytes list" where
  "captured_frames fs name = files_frames fs (capture_files fs (to_path name))"

definition captured_trailing :: "filesystem \<Rightarrow> string \<Rightarrow> nat" where
  "captured_trailing fs name = files_trailing fs (capture_files fs (to_path name))"

lemma compare_ok_iff:
  assumes "m = compare_run fs n (new_side fs ''expected'' (to_path p)) (new_side fs ''actual'' (to_path q))"
    and "length (captured_frames fs p) < 2 ^ 64" "length (captured_frames fs q) < 2 ^ 64"
    and "captured_trailing fs p < 2 ^ 64" "captured_trailing fs q < 2 ^ 64"
  shows "compare_ok m \<longleftrightarrow> captured_frames fs p = captured_frames fs q \<and> captured_frames fs p \<noteq> [] \<and>
    (\<forall>f \<in> set (captured_frames fs p). acceptable f) \<and> sorted_wrt (<) (map wire_id (captured_frames fs p)) \<and>
    captured_trailing fs p = 0 \<and> captured_trailing fs q = 0"
proof -
  let ?ef = "captured_frames fs p" and ?af = "captured_frames fs q"
  let ?v = "merge_ref ?ef ?af"
  note run = compare_run_spec [OF captured_frames_def captured_trailing_def captured_frames_def captured_trailing_def assms(1)]
  have small: "vd_mismatched ?v < 2 ^ 64" "vd_missing ?v < 2 ^ 64" "vd_unexpected ?v < 2 ^ 64"
      "invalid_count ?ef < 2 ^ 64" "invalid_count ?af < 2 ^ 64"
      "disorder (map wire_id ?ef) < 2 ^ 64" "disorder (map wire_id ?af) < 2 ^ 64"
    using merge_ref_account [of ?ef ?af] assms(2,3) invalid_count_le [of ?ef] invalid_count_le [of ?af]
      disorder_le [of "map wire_id ?ef"] disorder_le [of "map wire_id ?af"] by simp_all
  have "compare_ok m \<longleftrightarrow> (vd_mismatched ?v = 0 \<and> vd_missing ?v = 0 \<and> vd_unexpected ?v = 0) \<and>
      invalid_count ?ef = 0 \<and> invalid_count ?af = 0 \<and> disorder (map wire_id ?ef) = 0 \<and>
      disorder (map wire_id ?af) = 0 \<and> captured_trailing fs p = 0 \<and> captured_trailing fs q = 0 \<and> length ?ef \<noteq> 0"
    using run small assms(2-5) unfolding compare_ok_def Let_def
    by (simp add: of_nat_u64_zero_iff word_neq_0_conv [symmetric] conj_ac)
  then show ?thesis by (auto simp: merge_ref_clean_iff invalid_count_0_iff disorder_0_iff)
qed

lemma frame_compare_code:
  assumes "frame_compare fs args = Exit code out err" and "compare_args args [] 20 = Inr ([p, q], n)"
    and "length (captured_frames fs p) < 2 ^ 64" and "length (captured_frames fs q) < 2 ^ 64"
    and "captured_trailing fs p < 2 ^ 64" and "captured_trailing fs q < 2 ^ 64"
  shows "code = 0 \<longleftrightarrow> captured_frames fs p = captured_frames fs q \<and> captured_frames fs p \<noteq> [] \<and>
    (\<forall>f \<in> set (captured_frames fs p). parse_result_ok (parse_frame f)) \<and>
    sorted_wrt (<) (map wire_id (captured_frames fs p)) \<and>
    captured_trailing fs p = 0 \<and> captured_trailing fs q = 0"
proof -
  let ?e = "new_side fs ''expected'' (to_path p)" and ?a = "new_side fs ''actual'' (to_path q)"
  have ok: "reader_ok (sd_reader ?e) \<longleftrightarrow> capture_files fs (to_path p) \<noteq> []"
      "reader_ok (sd_reader ?a) \<longleftrightarrow> capture_files fs (to_path q) \<noteq> []"
    by (simp_all add: reader_ok_def new_side_def new_capture_reader_def Let_def)
  note run = assms(1) [unfolded frame_compare_def assms(2)]
  show ?thesis
  proof (cases "reader_ok (sd_reader ?e) \<and> reader_ok (sd_reader ?a)")
    case True
    then have "code = (if compare_ok (compare_run fs n ?e ?a) then 0 else 1)"
      using run by (simp add: Let_def)
    then show ?thesis using compare_ok_iff [OF refl assms(3-6), of n] unfolding parse_frame_ok_iff by auto
  next
    case False
    then have "code = 2" using run by (auto simp: Let_def split: if_splits)
    moreover have "captured_frames fs p = [] \<or> captured_frames fs q = []"
      using False by (auto simp: ok captured_frames_def)
    ultimately show ?thesis by auto
  qed
qed

text \<open>
  What a capture holds, whether the program may open its files or not: the complete frames of all its
  .bin files in the order of their names, and the number of bytes behind the last complete frame of each.
\<close>

definition recorded_bytes :: "filesystem \<Rightarrow> path \<Rightarrow> bytes" where
  "recorded_bytes fs p = (case map_of fs p of Some (Regular _ bs) \<Rightarrow> bs | _ \<Rightarrow> [])"

definition recorded_frames :: "filesystem \<Rightarrow> string \<Rightarrow> bytes list" where
  "recorded_frames fs name = concat (map (whole_frames \<circ> recorded_bytes fs) (capture_files fs (to_path name)))"

definition recorded_trailing :: "filesystem \<Rightarrow> string \<Rightarrow> nat" where
  "recorded_trailing fs name =
     sum_list (map (\<lambda>p. length (recorded_bytes fs p) mod kWireFrameSize) (capture_files fs (to_path name)))"

definition all_readable :: "filesystem \<Rightarrow> string \<Rightarrow> bool" where
  "all_readable fs name \<longleftrightarrow> list_all (\<lambda>p. file_contents fs p \<noteq> None) (capture_files fs (to_path name))"

lemma recorded_captured:
  assumes "all_readable fs name"
  shows "captured_frames fs name = recorded_frames fs name" "captured_trailing fs name = recorded_trailing fs name"
proof -
  have "readable_bytes fs p = recorded_bytes fs p" if "p \<in> set (capture_files fs (to_path name))" for p
    using assms that
    by (auto simp: all_readable_def list_all_iff readable_bytes_def recorded_bytes_def file_contents_def
        split: option.splits node.splits bool.splits)
  then show "captured_frames fs name = recorded_frames fs name" "captured_trailing fs name = recorded_trailing fs name"
    by (auto simp: captured_frames_def recorded_frames_def files_frames_def captured_trailing_def recorded_trailing_def
        files_trailing_def intro!: arg_cong [where f = concat] arg_cong [where f = sum_list] map_cong)
qed

text \<open>
  C21: for two captures named on the command line whose .bin files can all be opened, \<open>frame_compare\<close>
  returns 0 exactly when the captures hold the same frames byte for byte in the same order, there is at
  least one, each of them passes the parser, their ids are strictly increasing, and no file has bytes
  behind its last complete frame.  (A .bin file that cannot be opened is skipped without a word: then the
  code 0 speaks of the readable files only, as the example of \<open>skipped_file_unnoticed\<close> shows.)
\<close>

theorem frame_compare_identical_iff:
  assumes "frame_compare fs args = Exit code out err" and "compare_args args [] 20 = Inr ([p, q], n)"
    and "all_readable fs p" and "all_readable fs q"
    and "length (recorded_frames fs p) < 2 ^ 64" and "length (recorded_frames fs q) < 2 ^ 64"
    and "recorded_trailing fs p < 2 ^ 64" and "recorded_trailing fs q < 2 ^ 64"
  shows "code = 0 \<longleftrightarrow> recorded_frames fs p = recorded_frames fs q \<and> recorded_frames fs p \<noteq> [] \<and>
    (\<forall>f \<in> set (recorded_frames fs p). parse_result_ok (parse_frame f)) \<and>
    sorted_wrt (<) (map wire_id (recorded_frames fs p)) \<and>
    recorded_trailing fs p = 0 \<and> recorded_trailing fs q = 0"
  using frame_compare_code [OF assms(1,2)] assms(5-8) unfolding recorded_captured [OF assms(3)] recorded_captured [OF assms(4)]
  by blast

text \<open>On captures in order, whose ids can be trusted, the merge is the set algebra of the ids.\<close>

abbreviation ids_of :: "bytes list \<Rightarrow> u64 set" where
  "ids_of fs \<equiv> wire_id ` set fs"

lemma sorted_ids_fresh:
  assumes "sorted_wrt (<) (map wire_id (f # fs))" "i \<le> wire_id f"
  shows "i \<notin> ids_of fs" "i < wire_id f \<Longrightarrow> i \<notin> ids_of (f # fs)"
  using assms by auto

lemma merge_ref_sets:
  assumes "sorted_wrt (<) (map wire_id es)" "sorted_wrt (<) (map wire_id as)"
    and "\<forall>f \<in> set es \<union> set as. wire_problem f = []"
  shows "vd_missing (merge_ref es as) = card (ids_of es - ids_of as) \<and>
    vd_unexpected (merge_ref es as) = card (ids_of as - ids_of es) \<and>
    vd_identical (merge_ref es as) + vd_mismatched (merge_ref es as) = card (ids_of es \<inter> ids_of as)"
  using assms
proof (induction es as rule: merge_ref.induct)
  case (2 e es)
  have "wire_id e \<notin> ids_of es" using "2.prems"(1) by (intro sorted_ids_fresh) auto
  then show ?case using 2 by (simp add: Let_def)
next
  case (3 a as)
  have "wire_id a \<notin> ids_of as" using "3.prems"(2) by (intro sorted_ids_fresh) auto
  then show ?case using 3 by (simp add: Let_def)
next
  case (4 e es a as)
  have pos: "\<not> positional e a" using "4.prems"(3) by (simp add: positional_def)
  have e: "wire_id e \<notin> ids_of es" and a: "wire_id a \<notin> ids_of as"
    using sorted_ids_fresh(1) [OF "4.prems"(1)] sorted_ids_fresh(1) [OF "4.prems"(2)] by auto
  consider "wire_id e < wire_id a" | "wire_id a < wire_id e" | "wire_id e = wire_id a" by force
  then show ?case
  proof cases
    case 1
    then have "wire_id e \<notin> ids_of (a # as)" using sorted_ids_fresh(2) [OF "4.prems"(2)] by auto
    then have "ids_of (e # es) - ids_of (a # as) = insert (wire_id e) (ids_of es - ids_of (a # as))"
        "ids_of (a # as) - ids_of (e # es) = ids_of (a # as) - ids_of es"
        "ids_of (e # es) \<inter> ids_of (a # as) = ids_of es \<inter> ids_of (a # as)" by auto
    then show ?thesis using 1 pos e "4.IH"(1) "4.prems" by (simp add: Let_def)
  next
    case 2
    then have "wire_id a \<notin> ids_of (e # es)" using sorted_ids_fresh(2) [OF "4.prems"(1)] by auto
    then have "ids_of (a # as) - ids_of (e # es) = insert (wire_id a) (ids_of as - ids_of (e # es))"
        "ids_of (e # es) - ids_of (a # as) = ids_of (e # es) - ids_of as"
        "ids_of (e # es) \<inter> ids_of (a # as) = ids_of (e # es) \<inter> ids_of as" by auto
    then show ?thesis using 2 pos a "4.IH"(2) "4.prems" by (simp add: Let_def)
  next
    case 3
    then have "ids_of (e # es) - ids_of (a # as) = ids_of es - ids_of as"
        "ids_of (a # as) - ids_of (e # es) = ids_of as - ids_of es"
        "ids_of (e # es) \<inter> ids_of (a # as) = insert (wire_id e) (ids_of es \<inter> ids_of as)"
      using e a by auto
    then show ?thesis using 3 pos e "4.IH"(3) "4.prems" by (simp add: Let_def)
  qed
qed simp

text \<open>
  The counts of the report are the set algebra of the frame ids.  For two captures whose frames
  all pass the parser and come in strictly increasing order of their ids, \<open>missing\<close> counts the ids
  only expected, \<open>unexpected\<close> those only actual, and \<open>compared\<close> pairs are the ids in both.
\<close>

theorem frame_compare_counts:
  assumes "m = compare_run fs n (new_side fs ''expected'' (to_path p)) (new_side fs ''actual'' (to_path q))"
    and "sorted_wrt (<) (map wire_id (captured_frames fs p))" and "sorted_wrt (<) (map wire_id (captured_frames fs q))"
    and "\<forall>f \<in> set (captured_frames fs p) \<union> set (captured_frames fs q). parse_result_ok (parse_frame f)"
  shows "let expected = wire_id ` set (captured_frames fs p); actual = wire_id ` set (captured_frames fs q)
    in tl_missing (ms_totals m) = of_nat (card (expected - actual)) \<and>
       tl_unexpected (ms_totals m) = of_nat (card (actual - expected)) \<and>
       tl_identical (ms_totals m) + tl_mismatched (ms_totals m) = of_nat (card (expected \<inter> actual))"
proof -
  note run = compare_run_spec [OF captured_frames_def captured_trailing_def captured_frames_def captured_trailing_def assms(1)]
  have "\<forall>f \<in> set (captured_frames fs p) \<union> set (captured_frames fs q). wire_problem f = []"
    using assms(4) by (simp add: wire_problem_ok_iff parse_frame_ok_iff)
  from merge_ref_sets [OF assms(2,3) this] run show ?thesis by (simp add: Let_def flip: of_nat_add)
qed

section \<open>Examples\<close>

definition sim_wire :: "u64 \<Rightarrow> bytes" where
  "sim_wire i = encode_frame (fill_frame default_frame i 0 0 200)"

lemma sim_wire_ok: "acceptable (sim_wire i)"
  using parse_filled [of 200 default_frame i 0 0 default_frame]
  by (simp add: sim_wire_def kMaxSampleRateHz_def flip: parse_frame_into_kNone_iff [where f = default_frame])

lemma sim_wire_frame: "frame_at (sim_wire i) = sealed_frame (fill_frame default_frame i 0 0 200)"
  using parse_filled [of 200 default_frame i 0 0 default_frame] parse_frame_into_kNone [OF sim_wire_ok, of i default_frame]
  by (simp add: sim_wire_def kMaxSampleRateHz_def)

lemma sim_wire_id [simp]: "wire_id (sim_wire i) = i"
proof -
  have "deserialize_frame (sim_wire i) = Inr (frame_at (sim_wire i))"
    using sim_wire_ok [of i] by (simp add: deserialize_frame_iff acceptable_def)
  then show ?thesis by (simp add: wire_id_def sim_wire_frame fill_frame_header)
qed

lemma length_sim_wire [simp]: "length (sim_wire i) = kWireFrameSize"
  using acceptable_length [OF sim_wire_ok] by simp

definition two_captures :: "bytes list \<Rightarrow> bytes list \<Rightarrow> filesystem" where
  "two_captures es as = [(Path [''e''], Regular True (concat es)), (Path [''a''], Regular True (concat as))]"

lemma two_captures_frames:
  assumes "\<forall>f \<in> set es \<union> set as. length f = kWireFrameSize"
  shows "captured_frames (two_captures es as) ''e'' = es" "captured_frames (two_captures es as) ''a'' = as"
    "captured_trailing (two_captures es as) ''e'' = 0" "captured_trailing (two_captures es as) ''a'' = 0"
  using assms whole_frames_concat [of es "[]"] whole_frames_concat [of as "[]"]
    length_concat_frames [of es] length_concat_frames [of as]
  by (simp_all add: captured_frames_def captured_trailing_def capture_files_def two_captures_def to_path_def
      is_directory_def is_regular_file_def readable_bytes_def file_contents_def)

theorem frame_compare_identical_iff_witness:
  "\<exists>out. frame_compare (two_captures [sim_wire 1, sim_wire 2] [sim_wire 1, sim_wire 2]) [''e'', ''a'', ''--max-report'', ''5'']
     = Exit 0 out []"
proof -
  let ?fs = "two_captures [sim_wire 1, sim_wire 2] [sim_wire 1, sim_wire 2]"
  have args: "compare_args [''e'', ''a'', ''--max-report'', ''5''] [] 20 = Inr ([''e'', ''a''], 5)"
    by (simp add: std_stoull_def std_unsigned_def scan_integer_def scan_sign_def is_space_def is_digit_def
        decimal_value_def digit_value_def)
  have files: "capture_files ?fs (to_path ''e'') \<noteq> []" "capture_files ?fs (to_path ''a'') \<noteq> []"
    by (simp_all add: capture_files_def two_captures_def to_path_def is_directory_def is_regular_file_def)
  obtain code out where run: "frame_compare ?fs [''e'', ''a'', ''--max-report'', ''5''] = Exit code out []"
    using files unfolding frame_compare_def args
    by (simp add: Let_def reader_ok_def new_side_def new_capture_reader_def)
  note caps = two_captures_frames [of "[sim_wire 1, sim_wire 2]" "[sim_wire 1, sim_wire 2]"]
  have readable: "all_readable ?fs ''e''" "all_readable ?fs ''a''"
    by (simp_all add: all_readable_def capture_files_def two_captures_def to_path_def is_directory_def is_regular_file_def
        file_contents_def)
  have "code = 0"
    using frame_compare_identical_iff [OF run args readable] caps unfolding recorded_captured [OF readable(1)] recorded_captured [OF readable(2)]
    by (simp add: parse_frame_ok_iff sim_wire_ok)
  then show ?thesis using run by blast
qed

text \<open>A directory with two files, of which the second cannot be opened, is found identical to the first.\<close>

definition skipping_capture :: filesystem where
  "skipping_capture =
     [(Path [''e''], Directory), (Path [''e'', ''1.bin''], Regular True (sim_wire 1)),
      (Path [''e'', ''2.bin''], Regular False (sim_wire 2)), (Path [''a''], Regular True (sim_wire 1))]"

lemma skipping_capture_files:
  "capture_files skipping_capture (to_path ''e'') = [Path [''e'', ''1.bin''], Path [''e'', ''2.bin'']]"
  "capture_files skipping_capture (to_path ''a'') = [Path [''a'']]"
  by (simp_all add: capture_files_def skipping_capture_def to_path_def is_directory_def is_regular_file_def
      directory_entries_def in_directory_def path_extension_def path_filename_def less_eq_path_def Let_def)

theorem skipped_file_unnoticed:
  "(\<exists>out. frame_compare skipping_capture [''e'', ''a''] = Exit 0 out [])
     \<and> recorded_frames skipping_capture ''e'' \<noteq> recorded_frames skipping_capture ''a''"
proof
  have args: "compare_args [''e'', ''a''] [] 20 = Inr ([''e'', ''a''], 20)" by simp
  obtain code out where run: "frame_compare skipping_capture [''e'', ''a''] = Exit code out []"
    unfolding frame_compare_def args
    by (simp add: Let_def reader_ok_def new_side_def new_capture_reader_def skipping_capture_files)
  have one: "whole_frames (sim_wire i) = [sim_wire i]" for i
    using whole_frames_concat [of "[sim_wire i]" "[]"] by simp
  have read: "readable_bytes skipping_capture (Path [''e'', ''1.bin'']) = sim_wire 1"
    "readable_bytes skipping_capture (Path [''e'', ''2.bin'']) = []"
    "readable_bytes skipping_capture (Path [''a'']) = sim_wire 1"
    by (simp_all add: readable_bytes_def file_contents_def skipping_capture_def)
  have caps: "captured_frames skipping_capture ''e'' = [sim_wire 1]" "captured_frames skipping_capture ''a'' = [sim_wire 1]"
    "captured_trailing skipping_capture ''e'' = 0" "captured_trailing skipping_capture ''a'' = 0"
    by (simp_all add: captured_frames_def captured_trailing_def skipping_capture_files files_trailing_def read one
        whole_frames_short)
  have "code = 0"
    using frame_compare_code [OF run args] caps by (simp add: parse_frame_ok_iff sim_wire_ok)
  then show "\<exists>out. frame_compare skipping_capture [''e'', ''a''] = Exit 0 out []" using run by blast
  have "recorded_frames skipping_capture ''e'' = [sim_wire 1, sim_wire 2]"
    "recorded_frames skipping_capture ''a'' = [sim_wire 1]"
    unfolding recorded_frames_def skipping_capture_files
    by (simp_all add: recorded_bytes_def skipping_capture_def one)
  then show "recorded_frames skipping_capture ''e'' \<noteq> recorded_frames skipping_capture ''a''" by simp
qed

theorem frame_compare_counts_witness:
  "tl_missing (ms_totals (compare_run (two_captures [sim_wire 1, sim_wire 2] [sim_wire 2, sim_wire 3]) 5
     (new_side (two_captures [sim_wire 1, sim_wire 2] [sim_wire 2, sim_wire 3]) ''expected'' (to_path ''e''))
     (new_side (two_captures [sim_wire 1, sim_wire 2] [sim_wire 2, sim_wire 3]) ''actual'' (to_path ''a'')))) = 1"
proof -
  note caps = two_captures_frames [of "[sim_wire 1, sim_wire 2]" "[sim_wire 2, sim_wire 3]"]
  have "{1 :: u64, 2} - {2, 3} = {1}" by auto
  then show ?thesis
    using frame_compare_counts [OF refl, of "two_captures [sim_wire 1, sim_wire 2] [sim_wire 2, sim_wire 3]" "''e''" "''a''" 5] caps
    by (simp add: parse_frame_ok_iff sim_wire_ok Let_def)
qed

end
