(* ===== verification/Comparison_Chain.thy ===== *)
theory Comparison_Chain
  imports Transmission Frame_Compare
begin

text \<open>
  The acceptance test of the system: a sender that keeps what it sends, a receiver that captures it, and
  \<open>frame_compare\<close> on the two captures.
\<close>

text \<open>A directory named on the command line is a copy of one of another machine, as far as a reader can tell.\<close>

definition copy_of :: "filesystem \<Rightarrow> string \<Rightarrow> filesystem \<Rightarrow> path \<Rightarrow> bool" where
  "copy_of fs name fs' dir \<longleftrightarrow>
     captured_frames fs name = files_frames fs' (capture_files fs' dir)
     \<and> captured_trailing fs name = files_trailing fs' (capture_files fs' dir)"

lemma wire_id_acceptable: "acceptable f \<Longrightarrow> wire_id f = hdr_frame_id (fr_header (frame_at f))"
  by (simp add: wire_id_def deserialize_frame_def deserialize_well_sized acceptable_def)

lemma generated_sorted:
  assumes "0 < so_rate_hz so" "so_rate_hz so \<le> kMaxSampleRateHz" "n < 2 ^ 64"
  shows "sorted_wrt (<) (map wire_id (generated_frames env so n))"
proof -
  have "map wire_id (generated_frames env so n) = map of_nat [0..<n]"
    using generated_frame(1) [OF assms(1,2)] generated_id [OF assms(1,2)]
    by (simp add: generated_frames_def wire_id_acceptable o_def)
  moreover have "(of_nat i :: u64) < of_nat j" if "i < j" "j < n" for i j
    using that assms(3) by (simp add: word_less_nat_alt word_less_of_nat)
  ultimately show ?thesis by (auto simp: sorted_wrt_iff_nth_less)
qed

text \<open>
  C7: what \<open>frame_compare\<close> says of a session is right.  The sender generated its frames, kept them
  with --save-sent and returned 0; the receiver took its stream with options that agree and returned 0; the two
  captures, of fresh directories and at most ten thousand million frames, are compared.  The tool returns 0
  exactly if the receiver's worker left nothing in the queue: it never raises a false alarm, and it does find the
  frames that the worker leaves behind when it ends too early, which the receiver's exit code does not show.
\<close>

theorem comparison_finds_lost_frames:
  assumes "parse_sender_options sargs = Inr so" and "honest_stream 0 (se_answers senv)"
    and "sender_main show_double now senv sargs = (Returned 0 pio, concat pieces, sfs)"
    and "so_input_path so = []" and "so_save_sent_dir so \<noteq> []" and "so_frame_count so \<le> 10 ^ 10"
    and "distinct (map fst sfs)" and "is_directory sfs (to_path (so_save_sent_dir so))"
    and "\<forall>p. in_directory (to_path (so_save_sent_dir so)) p \<longrightarrow> is_regular_file (se_fs senv) p \<longrightarrow> path_extension p \<noteq> ''.bin''"
    and "receiver_start renv rargs = Inr rs" and "ro_capture_queue_frames (rs_options rs) \<noteq> - 1"
    and "[] \<notin> set pieces" and "programs_agree so (rs_options rs)"
    and "reachable rs pieces rfs s" and "pl_main s = M_joined"
    and "exit_status (pipeline_result show_double later (rs_options rs) s) = 0"
    and "distinct (map fst rfs)" and "is_directory (pl_fs s) capture_root"
    and "\<forall>p. in_directory capture_root p \<longrightarrow> is_regular_file rfs p \<longrightarrow> path_extension p \<noteq> ''.bin''"
    and "copy_of fs expected sfs (to_path (so_save_sent_dir so))" and "copy_of fs actual (pl_fs s) capture_root"
    and "compare_args cargs [] 20 = Inr ([expected, actual], n)" and "frame_compare fs cargs = Exit code out err"
  shows "code = 0 \<longleftrightarrow> queue_items (pl_queue s) = []"
proof -
  let ?n = "unat (so_frame_count so)"
  obtain frames where frames: "concat pieces = concat frames" "length frames = ?n" "\<forall>f\<in>set frames. sendable so f"
    and gen: "frames = generated_frames senv so ?n"
    and sent: "captured_frames fs expected = frames" "captured_trailing fs expected = 0"
    using sender_saved_files [OF assms(1-3,5,7-9,6)] assms(4,20) by (auto simp: copy_of_def)
  have expected: "ro_expected_frames (rs_options rs) = so_frame_count so" using assms(13) by (simp add: programs_agree_def)
  note files = session_files [OF assms(10-12,14-19), unfolded expected, OF assms(6)]
  have stored: "captured_frames fs actual = pl_stored s" "captured_trailing fs actual = 0"
    using assms(21) files by (simp_all add: copy_of_def)
  have all: "frames = pl_stored s @ map cf_wire (queue_items (pl_queue s))"
    using session_of_sendable(2) [OF assms(10-15) frames(3,2,1) refl assms(16)] files(3) by simp
  have n: "0 < ?n" "?n < 2 ^ 64" using parse_sender_options_range [OF assms(1)] unat_u64_less [of "so_frame_count so"]
    by (auto simp: unat_gt_0)
  have rate: "0 < so_rate_hz so" "so_rate_hz so \<le> kMaxSampleRateHz"
    using parse_sender_options_range [OF assms(1)] by (auto simp: word_less_nat_alt word_le_nat_alt)
  have "\<forall>f\<in>set frames. parse_result_ok (parse_frame f)" using frames(3) by (simp add: parse_frame_ok_iff sendable_def)
  moreover have "sorted_wrt (<) (map wire_id frames)" unfolding gen by (rule generated_sorted [OF rate n(2)])
  moreover have "frames \<noteq> []" using frames(2) n(1) by auto
  moreover have "frames = pl_stored s \<longleftrightarrow> queue_items (pl_queue s) = []" using all by auto
  moreover have "length frames < 2 ^ 64" "length (pl_stored s) < 2 ^ 64" using frames(2) n(2) files(4) by simp_all
  ultimately show ?thesis
    using frame_compare_code [OF assms(23,22)] unfolding sent stored by simp
qed

section \<open>An instance\<close>

definition keeping_options :: sender_options where
  "keeping_options = one_send_options\<lparr>so_save_sent_dir := ''sent''\<rparr>"

definition keeping_env :: sender_env where
  "keeping_env = quiet_sender_env\<lparr>se_fs := [], se_turn := (\<lambda>_. \<lparr>te_send_start = 0, te_monotonic = 0, te_socket_start = 0,
     te_send_end = 0, te_write = all_ok\<rparr>)\<rparr>"

lemma keeping_simps:
  "so_input_path keeping_options = []" "so_save_sent_dir keeping_options = ''sent''" "so_timing_log keeping_options = []"
  "so_bind_host keeping_options = []" "so_frame_count keeping_options = 1" "so_rate_hz keeping_options = 200"
  "se_fs keeping_env = []" "honest_stream 0 (se_answers keeping_env)"
  using honest_quiet
  by (simp_all add: keeping_options_def one_send_options_def default_sender_options_def kSampleRateHz_def keeping_env_def
      quiet_sender_env_def)

lemma parse_keeping: "parse_sender_options (sender_command_line keeping_options) = Inr keeping_options"
  by (rule parse_sender_command_line)
    (simp_all add: keeping_options_def one_send_options_def default_sender_options_def sender_options_ok_def
      starts_with_def kMaxSampleRateHz_def kSampleRateHz_def)

lemma first_write:
  assumes "length f = kWireFrameSize"
  shows "\<exists>w fs. write_frame f all_ok (new_capture_writer (to_path ''sent'') 10000, []) = (True, w, fs) \<and> is_directory fs (to_path ''sent'')"
  using assms
  by (simp add: write_frame_def open_segment_def new_capture_writer_def all_ok_def Let_def segment_path_def
      append_file_def create_directories_def to_path_def is_directory_def)

lemma keeping_run:
  "\<exists>pio wire sfs. sender_main (\<lambda>_. []) [] keeping_env (sender_command_line keeping_options) = (Returned 0 pio, wire, sfs)
     \<and> distinct (map fst sfs) \<and> is_directory sfs (to_path ''sent'')"
proof -
  have "\<exists>st1. prepare_frame keeping_options te 0 st = (True, st1)" if "sender_start keeping_env keeping_options = Inr st" for te st
    using sender_start_inv [OF that keeping_simps(8)] keeping_simps(1)
    by (auto simp: prepare_frame_def sender_inv_def source_inv_def Let_def split: option.splits)
  note ready = this
  have env: "quiet_sender_env\<lparr>se_fs := [], se_turn := se_turn keeping_env\<rparr> = keeping_env"
    and disk: "te_write (se_turn keeping_env 0) = all_ok"
    by (simp_all add: keeping_env_def)
  have saves: "\<exists>w fs. write_frame f (te_write (se_turn keeping_env 0)) (new_capture_writer (to_path (so_save_sent_dir keeping_options)) 10000, [])
      = (True, w, fs)" if "length f = kWireFrameSize" for f
    using first_write [OF that] unfolding disk keeping_simps by blast
  note main = one_frame_run [of "sender_command_line keeping_options" keeping_options "[]" "se_turn keeping_env" "\<lambda>_. []" "[]",
      unfolded env, OF parse_keeping keeping_simps(5,3,4) disjI1 [OF keeping_simps(1)] saves ready]
  obtain pio wire sfs f w where run: "sender_main (\<lambda>_. []) [] keeping_env (sender_command_line keeping_options) = (Returned 0 pio, wire, sfs)"
    and saved: "write_frame f all_ok (new_capture_writer (to_path ''sent'') 10000, []) = (True, w, sfs)"
    using main unfolding disk keeping_simps(2) by auto
  have "length f = kWireFrameSize" using saved by (simp add: write_frame_def split: if_splits)
  then show ?thesis using run saved first_write [of f] write_frame_distinct [OF saved] by auto
qed

theorem comparison_finds_lost_frames_witness:
  "\<exists>pio f sfs rs s out. sender_main (\<lambda>_. []) [] keeping_env (sender_command_line keeping_options) = (Returned 0 pio, f, sfs)
     \<and> receiver_start quiet_env (receiver_command_line one_frame_options) = Inr rs
     \<and> reachable rs [f] [] s \<and> pl_stored s = [f]
     \<and> frame_compare (two_captures [f] (pl_stored s)) [''e'', ''a''] = Exit 0 out []"
proof -
  let ?o = keeping_options
  obtain pio f sfs where run: "sender_main (\<lambda>_. []) [] keeping_env (sender_command_line ?o) = (Returned 0 pio, concat [f], sfs)"
    and dist: "distinct (map fst sfs)" and dir: "is_directory sfs (to_path (so_save_sent_dir ?o))"
    using keeping_run keeping_simps(2) by auto
  have fresh: "\<forall>p. in_directory (to_path (so_save_sent_dir ?o)) p \<longrightarrow> is_regular_file (se_fs keeping_env) p \<longrightarrow> path_extension p \<noteq> ''.bin''"
    by (simp add: keeping_simps is_regular_file_def)
  have o: "so_input_path ?o = []" "so_save_sent_dir ?o \<noteq> []" "so_frame_count ?o \<le> 10 ^ 10" by (simp_all add: keeping_simps)
  obtain frames where frames: "concat [f] = concat frames" "length frames = unat (so_frame_count ?o)" "\<forall>f\<in>set frames. sendable ?o f"
    and sent: "files_frames sfs (capture_files sfs (to_path (so_save_sent_dir ?o))) = frames"
      "files_trailing sfs (capture_files sfs (to_path (so_save_sent_dir ?o))) = 0"
    by (rule sender_saved_files [OF parse_keeping keeping_simps(8) run o(2) dist dir fresh o(3)])
  have f: "frames = [f]" "sendable ?o f" using frames by (cases frames; auto simp: keeping_simps)+
  obtain rs where rs: "receiver_start quiet_env (receiver_command_line one_frame_options) = Inr rs"
    and opts: "rs_options rs = one_frame_options" by (rule one_frame_session)
  have agree: "programs_agree ?o (rs_options rs)"
    by (simp add: opts programs_agree_def one_frame_options_def default_receiver_options_def keeping_simps kSampleRateHz_def)
  have size: "length f = kWireFrameSize" using f(2) by (rule sendable_length)
  then have ne: "[] \<notin> set [f]" by (auto simp: kWireFrameSize_def)
  note session = frame_seven(1) [OF opts] ne
  have "frame_verdict (rs_options rs) (concat [f]) = 0" using sendable_verdict [OF agree f(2)] by simp
  then obtain s where s: "reachable rs [f] [] s" "pl_main s = M_joined"
      "exit_status (pipeline_result (\<lambda>_. []) [] (rs_options rs) s) = 0" "queue_items (pl_queue s) = []"
      "is_directory (pl_fs s) capture_root"
    using complete_run [OF rs session frame_seven(3) [OF opts]] by blast
  have rfresh: "\<forall>p. in_directory capture_root p \<longrightarrow> is_regular_file [] p \<longrightarrow> path_extension p \<noteq> ''.bin''"
    by (simp add: is_regular_file_def)
  have small: "ro_expected_frames (rs_options rs) \<le> 10 ^ 10" by (simp add: frame_seven(3) [OF opts])
  note stored = session_files [OF rs session s(1-3) _ s(5) rfresh small, simplified]
  have all: "pl_stored s = [f]"
    using session_of_sendable(2) [OF rs session agree s(1,2) frames(3,2,1) refl s(3)] stored(3) s(4) f(1) by simp
  let ?fs = "two_captures [f] (pl_stored s)"
  have caps: "captured_frames ?fs ''e'' = [f]" "captured_frames ?fs ''a'' = pl_stored s"
    "captured_trailing ?fs ''e'' = 0" "captured_trailing ?fs ''a'' = 0"
    using two_captures_frames [of "[f]" "pl_stored s"] size all by simp_all
  have copies: "copy_of ?fs ''e'' sfs (to_path (so_save_sent_dir ?o))" "copy_of ?fs ''a'' (pl_fs s) capture_root"
    using caps sent f(1) stored(1,2) by (simp_all add: copy_of_def)
  have args: "compare_args [''e'', ''a''] [] 20 = Inr ([''e'', ''a''], 20)" by simp
  have "capture_files ?fs (to_path ''e'') \<noteq> []" "capture_files ?fs (to_path ''a'') \<noteq> []"
    by (simp_all add: capture_files_def two_captures_def to_path_def is_directory_def is_regular_file_def)
  then obtain code out where cmp: "frame_compare ?fs [''e'', ''a''] = Exit code out []"
    unfolding frame_compare_def args by (simp add: Let_def reader_ok_def new_side_def new_capture_reader_def)
  have d: "distinct (map fst ([] :: filesystem))" by simp
  have "code = 0"
    using comparison_finds_lost_frames [OF parse_keeping keeping_simps(8) run o dist dir fresh rs session agree s(1-3) d s(5) rfresh
        copies args cmp] s(4) by simp
  then show ?thesis using run rs s(1) all cmp by (intro exI [of _ pio] exI [of _ f]) auto
qed

end
