(* ===== verification/Pipeline_Liveness.thy ===== *)
theory Pipeline_Liveness
  imports Pipeline_Runs
begin

text \<open>
  The two threads come to rest: every step lowers a measure, so a run without spurious wake-ups has a
  bounded number of steps, and the moment of the last notification decides in which of two states it ends.
\<close>

section \<open>The measure\<close>

text \<open>The steps the receiving thread has left: at most eight for each turn, and four at the end.\<close>

fun turn_steps :: "main_pc \<Rightarrow> nat" where
  "turn_steps M_check = 7"
| "turn_steps M_space = 6"
| "turn_steps M_receive = 5"
| "turn_steps (M_publish _ _) = 4"
| "turn_steps (M_depth _ _) = 3"
| "turn_steps (M_notify _ _ _) = 2"
| "turn_steps (M_timing _ _ _) = 1"
| "turn_steps M_set_done = 3"
| "turn_steps M_notify_all = 2"
| "turn_steps M_join = 1"
| "turn_steps M_joined = 0"

definition main_steps :: "receiver_options \<Rightarrow> pipeline \<Rightarrow> nat" where
  "main_steps opts s = turn_steps (pl_main s)
     + (if in_loop (pl_main s) then 8 * (unat (ro_expected_frames opts) - unat (pl_index s)) else 0)"

text \<open>
  How far the worker is from its next rest.  Each waiting frame pays for one round of writing; once
  \<open>acquisition_done\<close> is set, the waiting part of the loop leads back to the start once more.
\<close>

fun worker_steps :: "bool \<Rightarrow> bool \<Rightarrow> worker_pc \<Rightarrow> nat" where
  "worker_steps done idle W_flush = 8"
| "worker_steps done idle W_poll = (if idle then 7 else 3)"
| "worker_steps done idle W_load_done = 6"
| "worker_steps done idle W_test_done = (if done then 15 else 5)"
| "worker_steps done idle W_test_empty = (if done then 14 else 4)"
| "worker_steps done idle W_block = (if done then 13 else 3)"
| "worker_steps done idle W_waiting = (if done then 12 else 2)"
| "worker_steps done idle W_write = 2"
| "worker_steps done idle W_final_flush = 2"
| "worker_steps done idle (W_release _ _) = 1"
| "worker_steps done idle (W_fail _) = 1"
| "worker_steps done idle W_exited = 0"

definition steps_left :: "receiver_options \<Rightarrow> pipeline \<Rightarrow> nat" where
  "steps_left opts s = 40 * main_steps opts s + 20 * length (queue_items (pl_queue s))
     + worker_steps (pl_done s) (queue_items (pl_queue s) = []) (pl_worker s)"

lemma worker_steps_bound: "worker_steps done idle w \<le> 15"
  by (cases "(done, idle, w)" rule: worker_steps.cases) simp_all

lemma worker_steps_idle: "worker_steps done False w \<le> worker_steps done idle w"
  by (cases "(done, idle, w)" rule: worker_steps.cases) simp_all

lemma turns_left_Suc:
  "(i :: u64) < n \<Longrightarrow> Suc (unat n - unat (i + 1)) = unat n - unat i"
  using word_Suc_less [of i n] by (auto simp: word_less_nat_alt word_le_nat_alt)

lemma main_steps_decrease:
  assumes "main_step opts tcp clock s = Some t" "count_inv opts s"
  shows "main_steps opts t < main_steps opts s"
proof (cases "pl_main s")
  case (M_timing c m d)
  then have "pl_index s < ro_expected_frames opts" using assms(2) by (simp add: count_inv_def)
  then show ?thesis
    using assms(1) M_timing turns_left_Suc [of "pl_index s" "ro_expected_frames opts"]
    by (auto simp: main_steps_def main_step_def end_turn_def next_turn_def)
next
  case M_receive
  then have t: "receive_into_slot opts tcp clock s = t" using assms(1) by (simp add: main_step_def)
  have "pl_index s < ro_expected_frames opts" using assms(2) M_receive by (simp add: count_inv_def)
  then show ?thesis
    using receive_stops_or_publishes [OF t] M_receive by (auto simp: main_steps_def)
qed (use assms in \<open>auto simp: main_defs main_steps_def split: if_splits\<close>)

lemma main_queue_growth:
  assumes "main_step opts tcp clock s = Some t" "slots_safe s"
  shows "length (queue_items (pl_queue t)) \<le> length (queue_items (pl_queue s)) + 1"
  using assms
  by (cases "pl_main s")
    (auto simp: main_defs receive_into_slot_def slots_safe_def queue_items_publish simp del: length_queue_items
      split: if_splits sum.splits prod.splits)

lemma steps_left_main:
  assumes "main_step opts tcp clock s = Some t" "count_inv opts s" "slots_safe s"
  shows "steps_left opts t < steps_left opts s"
  using main_steps_decrease [OF assms(1,2)] main_queue_growth [OF assms(1,3)]
    worker_steps_bound [of "pl_done t" "queue_items (pl_queue t) = []" "pl_worker t"]
  unfolding steps_left_def by linarith

lemma steps_left_worker:
  assumes "worker_step env s = Some t" "slots_safe s"
  shows "steps_left opts t < steps_left opts s"
proof -
  have main: "main_steps opts t = main_steps opts s" by (simp add: main_steps_def worker_leaves [OF assms(1)])
  have inv: "queue_inv (pl_queue s)" using assms(2) by (simp add: slots_safe_def)
  show ?thesis
  proof (cases "pl_worker s")
    case (W_release wrote i)
    then have "queue_items (pl_queue s) \<noteq> []" using assms(2) by (auto simp: slots_safe_def)
    then have "queue_items (release (pl_queue s)) = tl (queue_items (pl_queue s))"
      "length (queue_items (pl_queue s)) = Suc (length (tl (queue_items (pl_queue s))))"
      using inv queue_items_release_not_empty by (simp_all del: length_queue_items)
    then show ?thesis
      using assms(1) W_release main
      by (auto simp: steps_left_def worker_defs simp del: length_queue_items)
  next
    case W_poll
    then show ?thesis using assms(1) main inv
      by (auto simp: steps_left_def worker_step_def poll_queue_def consumer_slot_items)
  next
    case W_test_empty
    then show ?thesis using assms(1) main inv
      by (auto simp: steps_left_def worker_step_def queue_empty_iff)
  qed (use assms(1) main in \<open>auto simp: steps_left_def worker_defs split: prod.splits\<close>)
qed

lemma steps_left_step:
  assumes "pipeline_step (rs_options rs) (rs_receiver rs) s t" "pipeline_inv rs pieces fs s"
  shows "steps_left (rs_options rs) t < steps_left (rs_options rs) s"
  using assms steps_left_main steps_left_worker
  by (auto elim!: pipeline_step.cases simp: pipeline_inv_def)

text \<open>Runs of a given number of steps.\<close>

lemma run_bounded:
  assumes "(pipeline_step (rs_options rs) (rs_receiver rs) ^^ n) s t" "pipeline_inv rs pieces fs s"
    and "tr_client_socket (rs_receiver rs) \<noteq> kInvalidSocket"
  shows "n + steps_left (rs_options rs) t \<le> steps_left (rs_options rs) s \<and> pipeline_inv rs pieces fs t"
  using assms(1)
proof (induction n arbitrary: t)
  case 0
  then show ?case using assms(2) by simp
next
  case (Suc n)
  then obtain u where u: "(pipeline_step (rs_options rs) (rs_receiver rs) ^^ n) s u"
    "pipeline_step (rs_options rs) (rs_receiver rs) u t" by auto
  note IH = Suc.IH [OF u(1)]
  then have inv: "pipeline_inv rs pieces fs u" ..
  have "pipeline_inv rs pieces fs t"
    by (rule pipeline_inv_step [OF pipeline_step_spurious.moves [OF u(2)] inv assms(3)])
  then show ?case using IH steps_left_step [OF u(2) inv] by simp
qed

text \<open>
  C27: the receiver comes to rest.  Without spurious wake-ups every run of the two threads has at most
  \<open>320\<close> steps for each expected frame and a constant more, whatever the peer, the disk and the scheduler do.
\<close>

theorem run_length_bounded:
  assumes "receiver_start env args = Inr rs" and "ro_capture_queue_frames (rs_options rs) \<noteq> - 1"
    and "[] \<notin> set pieces"
    and "(pipeline_step (rs_options rs) (rs_receiver rs) ^^ n) (new_pipeline rs pieces fs) t"
  shows "n \<le> 320 * unat (ro_expected_frames (rs_options rs)) + 287"
proof -
  let ?s = "new_pipeline rs pieces fs"
  have "queue_items (rs_queue rs) = []"
    using new_capture_queue_inv [OF receiver_start_session(2) [OF assms(1)] assms(2)] by simp
  then have "steps_left (rs_options rs) ?s \<le> 320 * unat (ro_expected_frames (rs_options rs)) + 287"
    by (simp add: steps_left_def new_pipeline_def main_steps_def next_turn_def del: length_queue_items)
  then show ?thesis
    using run_bounded [OF assms(4) new_pipeline_inv [OF assms(1-3)] receiver_start_session(3) [OF assms(1)]]
    by simp
qed

section \<open>The states at rest\<close>












theorem run_length_bounded_witness:
  "\<exists>rs t. receiver_start quiet_env (receiver_command_line one_frame_options) = Inr rs
     \<and> (pipeline_step (rs_options rs) (rs_receiver rs) ^^ 1) (new_pipeline rs [] []) t \<and> (1 :: nat) \<le> 607"
proof -
  obtain rs where rs: "receiver_start quiet_env (receiver_command_line one_frame_options) = Inr rs"
    and opts: "rs_options rs = one_frame_options" by (rule one_frame_session)
  have o: "ro_capture_queue_frames (rs_options rs) \<noteq> - 1" "ro_expected_frames (rs_options rs) = 1"
    by (simp_all add: opts one_frame_options_def)
  have "main_step (rs_options rs) (rs_receiver rs) \<lparr>tc_wire_complete = 0, tc_parse_start = 0, tc_parse_end = 0\<rparr>
      (new_pipeline rs [] []) = Some ((new_pipeline rs [] [])\<lparr>pl_main := M_space\<rparr>)"
    using o by (simp add: main_defs new_pipeline_def)
  then have run: "(pipeline_step (rs_options rs) (rs_receiver rs) ^^ 1) (new_pipeline rs [] [])
      ((new_pipeline rs [] [])\<lparr>pl_main := M_space\<rparr>)"
    by (auto simp: OO_def intro: main_moves)
  from run_length_bounded [OF rs o(1) _ this] have "(1 :: nat) \<le> 607" using o(2) by simp
  then show ?thesis using rs run by blast
qed


end
