(* ===== verification/Pipeline_Refinement.thy ===== *)
theory Pipeline_Refinement
  imports Pipeline_Properties
begin

text \<open>
  What the two threads of the receiver promise together, without the ring, its indices, the flags and
  the condition variable: a spool, a bounded buffer between an acceptor of frames and a writer that
  can break.  Every step of either thread is a step of the spool or leaves it as it is.
\<close>

section \<open>The spool\<close>

datatype spool_writer = Working | Broken | Finished

record spool =
  sp_accepted :: "bytes list"
  sp_waiting :: "bytes list"
  sp_stored :: "bytes list"
  sp_ended :: bool
  sp_writer :: spool_writer

definition empty_spool :: spool where
  "empty_spool = \<lparr>sp_accepted = [], sp_waiting = [], sp_stored = [], sp_ended = False, sp_writer = Working\<rparr>"

text \<open>
  A frame is accepted if it is a good one and there is room, until the acceptor has ended.  The writer
  stores the oldest frame, or breaks, with the loss of that frame or without; only after the
  acceptor's end it finishes.
\<close>

inductive spool_step :: "(bytes \<Rightarrow> bool) \<Rightarrow> nat \<Rightarrow> spool \<Rightarrow> spool \<Rightarrow> bool"
  for good :: "bytes \<Rightarrow> bool" and room :: nat where
  accept: "\<not> sp_ended a \<Longrightarrow> good f \<Longrightarrow> length (sp_waiting a) < room \<Longrightarrow>
    spool_step good room a (a\<lparr>sp_accepted := sp_accepted a @ [f], sp_waiting := sp_waiting a @ [f]\<rparr>)"
| end_accepting: "\<not> sp_ended a \<Longrightarrow> spool_step good room a (a\<lparr>sp_ended := True\<rparr>)"
| store: "sp_writer a = Working \<Longrightarrow> sp_waiting a = f # rest \<Longrightarrow>
    spool_step good room a (a\<lparr>sp_waiting := rest, sp_stored := sp_stored a @ [f]\<rparr>)"
| lose: "sp_writer a = Working \<Longrightarrow> sp_waiting a = f # rest \<Longrightarrow>
    spool_step good room a (a\<lparr>sp_waiting := rest, sp_writer := Broken\<rparr>)"
| give_up: "sp_writer a = Working \<Longrightarrow> spool_step good room a (a\<lparr>sp_writer := Broken\<rparr>)"
| finish: "sp_writer a = Working \<Longrightarrow> sp_ended a \<Longrightarrow> spool_step good room a (a\<lparr>sp_writer := Finished\<rparr>)"

inductive_cases spool_stepE: "spool_step good room a b"

text \<open>What the spool guarantees.\<close>

definition spool_ok :: "(bytes \<Rightarrow> bool) \<Rightarrow> nat \<Rightarrow> spool \<Rightarrow> bool" where
  "spool_ok good room a \<longleftrightarrow>
     (\<forall>f\<in>set (sp_accepted a). good f) \<and> length (sp_waiting a) \<le> room
     \<and> (\<exists>lost. sp_accepted a = sp_stored a @ lost @ sp_waiting a \<and> length lost \<le> 1
          \<and> (sp_writer a \<noteq> Broken \<longrightarrow> lost = []))
     \<and> (sp_writer a = Finished \<longrightarrow> sp_ended a)"

lemma spool_ok_empty: "spool_ok good room empty_spool"
  by (simp add: spool_ok_def empty_spool_def)

lemma spool_ok_step: "spool_step good room a b \<Longrightarrow> spool_ok good room a \<Longrightarrow> spool_ok good room b"
  by (erule spool_step.cases) (auto simp: spool_ok_def)

text \<open>A writer that has stopped stores nothing more, and an acceptor that has ended accepts nothing more.\<close>

definition spool_later :: "spool \<Rightarrow> spool \<Rightarrow> bool" where
  "spool_later a b \<longleftrightarrow>
     (\<exists>new. sp_accepted b = sp_accepted a @ new \<and> (sp_ended a \<longrightarrow> new = []))
     \<and> (\<exists>more. sp_stored b = sp_stored a @ more \<and> (sp_writer a \<noteq> Working \<longrightarrow> more = []))
     \<and> (sp_ended a \<longrightarrow> sp_ended b) \<and> (sp_writer a \<noteq> Working \<longrightarrow> sp_writer b = sp_writer a)"

lemma spool_later_refl: "spool_later a a"
  by (simp add: spool_later_def)

lemma spool_later_step: "spool_later a b \<Longrightarrow> spool_step good room b c \<Longrightarrow> spool_later a c"
  by (erule spool_step.cases) (auto simp: spool_later_def)

lemma spool_run_ok: "(spool_step good room)\<^sup>*\<^sup>* a b \<Longrightarrow> spool_ok good room a \<Longrightarrow> spool_ok good room b"
  by (induction rule: rtranclp_induct) (auto intro: spool_ok_step)

lemma spool_run_later: "(spool_step good room)\<^sup>*\<^sup>* a b \<Longrightarrow> spool_later a b"
  by (induction rule: rtranclp_induct) (auto intro: spool_later_refl spool_later_step)

section \<open>Simulation\<close>

text \<open>
  A step relation implements another one: under an invariant every step is a step of the specification
  or one that it does not see.
\<close>

locale simulation =
  fixes step :: "'c \<Rightarrow> 'c \<Rightarrow> bool"
    and inv :: "'c \<Rightarrow> bool"
    and view :: "'c \<Rightarrow> 'a"
    and spec :: "'a \<Rightarrow> 'a \<Rightarrow> bool"
  assumes keeps: "step s t \<Longrightarrow> inv s \<Longrightarrow> inv t"
    and simulates: "step s t \<Longrightarrow> inv s \<Longrightarrow> view t = view s \<or> spec (view s) (view t)"
begin

lemma run_keeps: "step\<^sup>*\<^sup>* s t \<Longrightarrow> inv s \<Longrightarrow> inv t"
  by (induction rule: rtranclp_induct) (auto intro: keeps)

lemma run_simulates: "step\<^sup>*\<^sup>* s t \<Longrightarrow> inv s \<Longrightarrow> spec\<^sup>*\<^sup>* (view s) (view t)"
proof (induction rule: rtranclp_induct)
  case (step t u)
  then have "inv t" using run_keeps by blast
  then show ?case
    using simulates [OF step.hyps(2)] step by (metis rtranclp.rtrancl_into_rtrancl)
qed simp

end

section \<open>The two threads as a spool\<close>

definition spool_of :: "pipeline \<Rightarrow> spool" where
  "spool_of s =
     \<lparr>sp_accepted = map cf_wire (pl_published s), sp_waiting = outstanding s, sp_stored = pl_stored s,
      sp_ended = pl_done s,
      sp_writer = (if failing s then Broken else if pl_worker s = W_exited then Finished else Working)\<rparr>"

text \<open>The flag tells where the receiving thread is, and only after it the worker comes to its end.\<close>

fun past_done :: "main_pc \<Rightarrow> bool" where
  "past_done M_notify_all = True"
| "past_done M_join = True"
| "past_done M_joined = True"
| "past_done _ = False"

definition done_inv :: "pipeline \<Rightarrow> bool" where
  "done_inv s \<longleftrightarrow> pl_done s = past_done (pl_main s) \<and> (pl_worker s = W_final_flush \<longrightarrow> pl_done s)"

definition spooling :: "receiver_session \<Rightarrow> bytes list \<Rightarrow> filesystem \<Rightarrow> pipeline \<Rightarrow> bool" where
  "spooling rs pieces fs s \<longleftrightarrow>
     tr_client_socket (rs_receiver rs) \<noteq> kInvalidSocket \<and> pipeline_inv rs pieces fs s \<and> done_inv s
     \<and> length (cq_slots (pl_queue s)) = unat (ro_capture_queue_frames (rs_options rs)) + 1"

lemma past_done_next_turn [simp]: "\<not> past_done (next_turn opts i)"
  by (simp add: next_turn_def)

lemma wake_W_final_flush [simp]: "wake w = W_final_flush \<longleftrightarrow> w = W_final_flush"
  by (simp add: wake_def)

lemma done_inv_main: "main_step opts tcp clock s = Some t \<Longrightarrow> done_inv s \<Longrightarrow> done_inv t"
  by (cases "pl_main s")
    (auto simp: done_inv_def main_defs receive_into_slot_def simp del: next_turn_def
      split: if_splits sum.splits prod.splits)

lemma done_inv_worker: "worker_step env s = Some t \<Longrightarrow> done_inv s \<Longrightarrow> done_inv t"
  by (cases "pl_worker s") (auto simp: done_inv_def worker_defs split: if_splits prod.splits)

lemma spooling_step:
  assumes "pipeline_step_spurious (rs_options rs) (rs_receiver rs) s t" "spooling rs pieces fs s"
  shows "spooling rs pieces fs t"
proof -
  have "pipeline_inv rs pieces fs t"
    using assms pipeline_inv_step unfolding spooling_def by blast
  moreover from assms(1) have "done_inv t \<and> length (cq_slots (pl_queue t)) = length (cq_slots (pl_queue s))"
  proof (cases rule: any_step)
    case wakes
    then show ?thesis using assms(2) by (simp add: spooling_def done_inv_def)
  qed (use assms(2) done_inv_main done_inv_worker main_step_slots worker_leaves(7) in
    \<open>auto simp: spooling_def worker_leaves(7)\<close>)
  ultimately show ?thesis using assms(2) by (simp add: spooling_def)
qed

text \<open>A step of the receiving thread: \<open>publish\<close> accepts, the flag ends the accepting.\<close>

lemma spool_of_wake:
  assumes "pl_worker t = pl_worker s \<or> pl_worker t = wake (pl_worker s)"
    and "queue_items (pl_queue t) = queue_items (pl_queue s)"
    and "pl_published t = pl_published s" "pl_stored t = pl_stored s" "pl_failed t = pl_failed s"
  shows "spool_of t = (spool_of s)\<lparr>sp_ended := pl_done t\<rparr>"
proof -
  have "failing t = failing s" "pl_worker t = W_exited \<longleftrightarrow> pl_worker s = W_exited"
    using assms(1,5) by (elim disjE; simp add: failing_def)+
  then show ?thesis using assms(3,4) outstanding_wake [OF assms(1,2)] by (simp add: spool_of_def)
qed

lemma spool_accepts:
  assumes "pl_main s = M_publish c m" "spooling rs pieces fs s"
  shows "spool_step (\<lambda>f. frame_verdict (rs_options rs) f = 0) (unat (ro_capture_queue_frames (rs_options rs)))
    (spool_of s) (spool_of (publish_frame c m s))"
proof -
  let ?slot = "producer_slot (pl_queue s)" and ?items = "queue_items (pl_queue s)"
  have safe: "slots_safe s" and stream: "stream_inv (rs_options rs) pieces s"
    and ended: "\<not> pl_done s" and slots: "length (cq_slots (pl_queue s)) = unat (ro_capture_queue_frames (rs_options rs)) + 1"
    using assms by (simp_all add: spooling_def pipeline_inv_def done_inv_def)
  then have inv: "queue_inv (pl_queue s)" "has_space (pl_queue s)" using assms(1) by (simp_all add: slots_safe_def)
  have good: "frame_verdict (rs_options rs) (cf_wire ?slot) = 0"
    using stream assms(1) by (auto simp: stream_inv_def received_def pending_def good_frame_def)
  have "length ?items < unat (ro_capture_queue_frames (rs_options rs))"
    using inv has_space_iff [OF inv(1)] slots by (simp add: queue_inv_def)
  then have room: "length (outstanding s) < unat (ro_capture_queue_frames (rs_options rs))"
    by (cases "(pl_worker s, ?items)" rule: unwritten.cases) (simp_all add: outstanding_def)
  have "outstanding (publish_frame c m s) = outstanding s @ [cf_wire ?slot]"
    using safe queue_items_publish [OF inv]
    by (simp add: publish_frame_def outstanding_def slots_safe_def unwritten_append)
  then have "spool_of (publish_frame c m s) = (spool_of s)
    \<lparr>sp_accepted := sp_accepted (spool_of s) @ [cf_wire ?slot], sp_waiting := sp_waiting (spool_of s) @ [cf_wire ?slot]\<rparr>"
    by (simp add: spool_of_def publish_frame_def failing_def)
  moreover have "\<not> sp_ended (spool_of s)" "sp_waiting (spool_of s) = outstanding s"
    using ended by (simp_all add: spool_of_def)
  ultimately show ?thesis
    using spool_step.accept [of "spool_of s" "\<lambda>f. frame_verdict (rs_options rs) f = 0" "cf_wire ?slot"] good room by simp
qed

lemma spool_simulates_main:
  assumes "main_step (rs_options rs) tcp clock s = Some t" "spooling rs pieces fs s"
  shows "spool_of t = spool_of s
    \<or> spool_step (\<lambda>f. frame_verdict (rs_options rs) f = 0) (unat (ro_capture_queue_frames (rs_options rs)))
        (spool_of s) (spool_of t)"
proof (cases "\<exists>c m. pl_main s = M_publish c m")
  case True
  then show ?thesis using spool_accepts [OF _ assms(2)] assms(1) by (auto simp: main_step_def)
next
  case False
  have inv: "queue_inv (pl_queue s)" and ended: "pl_done s = past_done (pl_main s)"
    using assms(2) by (simp_all add: spooling_def pipeline_inv_def slots_safe_def done_inv_def)
  have "pl_published t = pl_published s" "queue_items (pl_queue t) = queue_items (pl_queue s)"
    using assms(1) inv False
    by (cases "pl_main s"; auto simp: main_defs receive_into_slot_def split: if_splits sum.splits prod.splits)+
  then have view: "spool_of t = (spool_of s)\<lparr>sp_ended := pl_done t\<rparr>"
    using spool_of_wake [of t s] main_leaves(3,4,6) [OF assms(1)] by simp
  have "pl_done t = pl_done s \<or> \<not> pl_done s \<and> pl_done t"
    using assms(1) ended
    by (cases "pl_main s"; auto simp: main_defs receive_into_slot_def split: if_splits sum.splits prod.splits)
  then show ?thesis
  proof
    assume "pl_done t = pl_done s"
    then have "spool_of t = spool_of s" unfolding view by (simp add: spool_of_def)
    then show ?thesis ..
  next
    assume "\<not> pl_done s \<and> pl_done t"
    then have "spool_of t = (spool_of s)\<lparr>sp_ended := True\<rparr>" "\<not> sp_ended (spool_of s)"
      unfolding view by (simp_all add: spool_of_def)
    then show ?thesis using spool_step.end_accepting by metis
  qed
qed

text \<open>A step of the worker: a write stores, the release after a failed write loses.\<close>

lemma spool_stores:
  assumes "pl_worker s = W_write" "spooling rs pieces fs s"
  shows "spool_of (write_captured env s) = spool_of s \<or> spool_step good room (spool_of s) (spool_of (write_captured env s))"
proof -
  let ?items = "queue_items (pl_queue s)"
  have inv: "queue_inv (pl_queue s)" "?items \<noteq> []"
    using assms by (simp_all add: spooling_def pipeline_inv_def slots_safe_def)
  then have items: "map cf_wire ?items = cf_wire (captured_slot s) # map cf_wire (tl ?items)"
    using captured_slot_hd [of s] by (cases ?items) simp_all
  obtain wrote storage fs' where run:
      "write_frame (cf_wire (captured_slot s)) (we_write env) (pl_storage s, pl_fs s) = (wrote, storage, fs')"
    by (metis prod_cases3)
  show ?thesis
  proof (cases wrote)
    case True
    then have "spool_of (write_captured env s) = (spool_of s)
        \<lparr>sp_waiting := map cf_wire (tl ?items), sp_stored := sp_stored (spool_of s) @ [cf_wire (captured_slot s)]\<rparr>"
      using run assms(1) by (simp add: spool_of_def write_captured_def outstanding_def failing_def Let_def)
    moreover have "sp_waiting (spool_of s) = cf_wire (captured_slot s) # map cf_wire (tl ?items)"
      "sp_writer (spool_of s) = Working"
      using items assms(1) by (simp_all add: spool_of_def outstanding_def failing_def)
    ultimately show ?thesis using spool_step.store by metis
  next
    case False
    then show ?thesis using run assms(1)
      by (simp add: spool_of_def write_captured_def outstanding_def failing_def Let_def)
  qed
qed

lemma spool_releases:
  assumes "pl_worker s = W_release wrote i" "spooling rs pieces fs s"
  shows "spool_of (release_captured wrote i s) = spool_of s
    \<or> spool_step good room (spool_of s) (spool_of (release_captured wrote i s))"
proof -
  let ?items = "queue_items (pl_queue s)"
  have "?items \<noteq> []" and items: "queue_items (release (pl_queue s)) = tl ?items"
    using assms queue_items_release_not_empty by (auto simp: spooling_def pipeline_inv_def slots_safe_def)
  then obtain c rest where split: "?items = c # rest" by (cases ?items) simp_all
  show ?thesis
  proof (cases wrote)
    case True
    then show ?thesis using assms(1) items
      by (simp add: spool_of_def release_captured_def outstanding_def failing_def Let_def)
  next
    case False
    then have "spool_of (release_captured wrote i s) = (spool_of s)\<lparr>sp_waiting := map cf_wire rest, sp_writer := Broken\<rparr>"
      using assms(1) items split by (simp add: spool_of_def release_captured_def outstanding_def failing_def Let_def)
    moreover have "sp_waiting (spool_of s) = cf_wire c # map cf_wire rest" "sp_writer (spool_of s) = Working"
      using split assms(1) False by (simp_all add: spool_of_def outstanding_def failing_def)
    ultimately show ?thesis using spool_step.lose by metis
  qed
qed

lemma spool_flushes:
  assumes "pl_worker s = W_flush \<and> go_on = W_poll \<or> pl_worker s = W_final_flush \<and> go_on = W_exited"
    and "spooling rs pieces fs s"
  shows "spool_of (flush_captured go_on message env s) = spool_of s
    \<or> spool_step good room (spool_of s) (spool_of (flush_captured go_on message env s))"
proof -
  obtain flushed w' where run: "flush_writer (we_flush_ok env) (pl_storage s) = (flushed, w')" by (metis surj_pair)
  have working: "sp_writer (spool_of s) = Working" "\<not> pl_failed s"
    using assms by (auto simp: spool_of_def failing_def spooling_def pipeline_inv_def storage_inv_def)
  consider "flushed" "go_on = W_poll" | "flushed" "pl_worker s = W_final_flush" "go_on = W_exited" | "\<not> flushed"
    using assms(1) by blast
  then show ?thesis
  proof cases
    case 1
    then show ?thesis using run assms(1) by (auto simp: spool_of_def flush_captured_def outstanding_def failing_def)
  next
    case 2
    then have "sp_ended (spool_of s)" using assms(2) by (auto simp: spool_of_def spooling_def done_inv_def)
    moreover have "spool_of (flush_captured go_on message env s) = (spool_of s)\<lparr>sp_writer := Finished\<rparr>"
      using 2 run working(2) by (simp add: spool_of_def flush_captured_def outstanding_def failing_def)
    ultimately show ?thesis using working(1) spool_step.finish by metis
  next
    case 3
    then have "spool_of (flush_captured go_on message env s) = (spool_of s)\<lparr>sp_writer := Broken\<rparr>"
      using assms(1) run by (auto simp: spool_of_def flush_captured_def outstanding_def failing_def)
    then show ?thesis using working(1) spool_step.give_up by metis
  qed
qed

lemma spool_simulates_worker:
  assumes "worker_step env s = Some t" "spooling rs pieces fs s"
  shows "spool_of t = spool_of s \<or> spool_step good room (spool_of s) (spool_of t)"
proof (cases "pl_worker s")
  case W_write
  then show ?thesis using spool_stores [OF W_write assms(2)] assms(1) by (auto simp: worker_step_def)
next
  case (W_release wrote i)
  then show ?thesis using spool_releases [OF W_release assms(2)] assms(1) by (auto simp: worker_step_def)
next
  case W_flush
  then show ?thesis using spool_flushes [of s W_poll, OF disjI1 assms(2)] assms(1) by (auto simp: worker_step_def)
next
  case W_final_flush
  then show ?thesis using spool_flushes [of s W_exited, OF disjI2 assms(2)] assms(1) by (auto simp: worker_step_def)
qed (use assms(1) in \<open>auto simp: worker_step_def poll_queue_def fail_worker_def spool_of_def outstanding_def failing_def
  split: if_splits\<close>)

lemma spool_simulates:
  assumes "pipeline_step_spurious (rs_options rs) (rs_receiver rs) s t" "spooling rs pieces fs s"
  shows "spool_of t = spool_of s
    \<or> spool_step (\<lambda>f. frame_verdict (rs_options rs) f = 0) (unat (ro_capture_queue_frames (rs_options rs)))
        (spool_of s) (spool_of t)"
  using assms(1)
proof (cases rule: any_step)
  case wakes
  then show ?thesis by (auto simp: spool_of_def outstanding_def failing_def)
qed (use assms(2) spool_simulates_main spool_simulates_worker in blast)+

interpretation spool: simulation
  "pipeline_step_spurious (rs_options rs) (rs_receiver rs)" "spooling rs pieces fs" spool_of
  "spool_step (\<lambda>f. frame_verdict (rs_options rs) f = 0) (unat (ro_capture_queue_frames (rs_options rs)))"
  for rs :: receiver_session and pieces :: "bytes list" and fs :: filesystem
  by unfold_locales (rule spooling_step, assumption+, rule spool_simulates, assumption+)

lemma spooling_start:
  assumes "receiver_start env args = Inr rs" and "ro_capture_queue_frames (rs_options rs) \<noteq> - 1"
    and "[] \<notin> set pieces"
  shows "spooling rs pieces fs (new_pipeline rs pieces fs)"
    "spool_of (new_pipeline rs pieces fs) = empty_spool"
proof -
  have "done_inv (new_pipeline rs pieces fs)" by (simp add: done_inv_def new_pipeline_def)
  then show "spooling rs pieces fs (new_pipeline rs pieces fs)"
    using new_pipeline_inv [OF assms] reachable_slots [OF assms(1,2) reachable.start] receiver_start_session(3) [OF assms(1)]
    by (simp add: spooling_def)
  show "spool_of (new_pipeline rs pieces fs) = empty_spool"
    using started_queue(2) [OF assms(1,2)]
    by (simp add: spool_of_def empty_spool_def new_pipeline_def outstanding_def failing_def)
qed

lemma reachable_run:
  "reachable rs pieces fs s \<Longrightarrow>
    (pipeline_step_spurious (rs_options rs) (rs_receiver rs))\<^sup>*\<^sup>* (new_pipeline rs pieces fs) s"
  by (induction rule: reachable.induct) (auto intro: rtranclp.rtrancl_into_rtrancl)

lemma run_reachable:
  "(pipeline_step_spurious (rs_options rs) (rs_receiver rs))\<^sup>*\<^sup>* s t \<Longrightarrow> reachable rs pieces fs s \<Longrightarrow>
    reachable rs pieces fs t"
  by (induction rule: rtranclp_induct) (auto intro: reachable.step)

section \<open>Properties\<close>

text \<open>
  C5: the receiver's two threads refine the spool.  Seen through \<open>spool_of\<close>, whatever has happened so far
  is a run of the spool from the empty one, with room for as many frames as the options ask for, which
  accepts only frames with the verdict \<open>accepted\<close>; so is whatever happens from there on; and so the
  guarantees of the spool hold of the threads, now and later.
\<close>

theorem pipeline_refines_spool:
  assumes "receiver_start env args = Inr rs" and "ro_capture_queue_frames (rs_options rs) \<noteq> - 1"
    and "[] \<notin> set pieces" and "reachable rs pieces fs s"
    and "(pipeline_step_spurious (rs_options rs) (rs_receiver rs))\<^sup>*\<^sup>* s t"
    and "good = (\<lambda>f. frame_verdict (rs_options rs) f = 0)" and "room = unat (ro_capture_queue_frames (rs_options rs))"
  shows "(spool_step good room)\<^sup>*\<^sup>* empty_spool (spool_of s)
    \<and> (spool_step good room)\<^sup>*\<^sup>* (spool_of s) (spool_of t)
    \<and> spool_ok good room (spool_of s) \<and> spool_later (spool_of s) (spool_of t)"
proof -
  note start = spooling_start [OF assms(1-3), of fs] and run = reachable_run [OF assms(4)]
  have first: "(spool_step good room)\<^sup>*\<^sup>* empty_spool (spool_of s)"
    using spool.run_simulates [OF run start(1)] assms(6,7) start(2) by simp
  have "spooling rs pieces fs s" by (rule spool.run_keeps [OF run start(1)])
  then have then_: "(spool_step good room)\<^sup>*\<^sup>* (spool_of s) (spool_of t)"
    using spool.run_simulates [OF assms(5)] assms(6,7) by simp
  show ?thesis
    using first then_ spool_run_ok [OF first spool_ok_empty] spool_run_later [OF then_] by blast
qed

section \<open>Instances\<close>

theorem pipeline_refines_spool_witness:
  "\<exists>rs s. receiver_start quiet_env (receiver_command_line one_frame_options) = Inr rs
     \<and> reachable rs [frame_seven] [] s \<and> length (sp_stored (spool_of s)) = 1 \<and> sp_writer (spool_of s) = Finished
     \<and> (spool_step (\<lambda>f. frame_verdict one_frame_options f = 0) (unat (ro_capture_queue_frames one_frame_options)))\<^sup>*\<^sup>*
         empty_spool (spool_of s)"
proof -
  obtain rs where rs: "receiver_start quiet_env (receiver_command_line one_frame_options) = Inr rs"
    and opts: "rs_options rs = one_frame_options" by (rule one_frame_session)
  obtain s where s: "reachable rs [frame_seven] [] s" "pl_main s = M_joined"
      "exit_status (pipeline_result (\<lambda>_. []) [] (rs_options rs) s) = 0" "length (pl_stored s) = 1"
    using complete_run [OF rs frame_seven [OF opts]] by blast
  have inv: "pipeline_inv rs [frame_seven] [] s" by (rule reachable_inv [OF rs frame_seven(1,2) [OF opts] s(1)])
  have "pl_worker s = W_exited" "\<not> pl_failed s"
    using inv joined_status [OF inv s(2)] s(2,3) by (auto simp: pipeline_inv_def joined_after_exit_def split: if_splits)
  then have "sp_writer (spool_of s) = Finished" by (simp add: spool_of_def failing_def)
  moreover from pipeline_refines_spool [OF rs frame_seven(1,2) [OF opts] s(1) rtranclp.rtrancl_refl refl refl]
  have "(spool_step (\<lambda>f. frame_verdict one_frame_options f = 0) (unat (ro_capture_queue_frames one_frame_options)))\<^sup>*\<^sup>*
      empty_spool (spool_of s)" unfolding opts by blast
  ultimately show ?thesis using rs s(1,4) by (intro exI [of _ rs] exI [of _ s]) (simp add: spool_of_def)
qed

end
