(* ===== verification/Receiver_Report.thy ===== *)
theory Receiver_Report
  imports Pipeline_Properties
begin

text \<open>
  What the receiver reports at its end.  The reference is written over the clock readings of the turns
  and the ids of the frames received; the counters that the threads keep on the way, and the line of
  the metrics file made of them, are shown to agree with it, however the session ends.
\<close>

section \<open>The reference\<close>

text \<open>The time between a frame and the next, the part of it beyond the deadline, and the time to parse.\<close>

fun arrival_gaps :: "turn_clock list \<Rightarrow> u64 list" where
  "arrival_gaps (a # b # cs) = micros_between (tc_wire_complete a) (tc_wire_complete b) # arrival_gaps (b # cs)"
| "arrival_gaps cs = []"

definition overdue :: "u64 \<Rightarrow> turn_clock list \<Rightarrow> u64 list" where
  "overdue deadline cs = map (\<lambda>gap. gap - deadline) (filter (\<lambda>gap. deadline < gap) (arrival_gaps cs))"

definition parse_times :: "turn_clock list \<Rightarrow> u64 list" where
  "parse_times cs = map (\<lambda>c. micros_between (tc_parse_start c) (tc_parse_end c)) cs"

definition crc_rejected :: "bytes \<Rightarrow> bool" where
  "crc_rejected stream \<longleftrightarrow>
     (case parse_frame_into (take kWireFrameSize stream) default_frame of (e, _) \<Rightarrow> e = kPayloadCrc \<or> e = kHeaderCrc)"

text \<open>What is counted while the loop runs, which ends with \<open>code\<close> on the bytes \<open>rest\<close> of the stream.\<close>

definition loop_counts :: "u64 \<Rightarrow> turn_clock list \<Rightarrow> u64 \<Rightarrow> bytes \<Rightarrow> metrics_snapshot" where
  "loop_counts deadline cs code rest = empty_snapshot
     \<lparr>mt_parse_fail_count := (if code = 4 \<or> code = 5 then 1 else 0),
      mt_crc_error_count := (if code = 4 \<and> crc_rejected rest then 1 else 0),
      mt_tcp_disconnect_count := (if code = 3 then 1 else 0),
      mt_recv_deadline_miss_count := of_nat (length (overdue deadline cs)),
      mt_recv_max_late_us := fold max (overdue deadline cs) 0,
      mt_capture_queue_overrun_count := (if code = 9 then 1 else 0)\<rparr>"

definition receiver_report ::
  "receiver_options \<Rightarrow> u64 \<Rightarrow> turn_clock list \<Rightarrow> u64 list \<Rightarrow> bytes \<Rightarrow> u64 \<Rightarrow> u64 list \<Rightarrow> metrics_snapshot" where
  "receiver_report opts code cs ids rest high_water writes =
     (loop_counts (recv_deadline opts) cs code rest)
       \<lparr>mt_frame_id_begin := (if ids = [] then 0 else hd ids),
        mt_frame_id_end := (if ids = [] then 0 else Max (set ids)),
        mt_frame_count := of_nat (length ids),
        mt_recv_gap_avg_us := latency_average (latency_run (arrival_gaps cs)),
        mt_recv_span_us := (if cs = [] then 0 else micros_between (tc_wire_complete (hd cs)) (tc_wire_complete (last cs))),
        mt_recv_gap_max_us := ls_max (latency_run (arrival_gaps cs)),
        mt_recv_gap_p999_us := percentile p999 (latency_run (arrival_gaps cs)),
        mt_recv_deadline_us := recv_deadline opts,
        mt_recv_parse_avg_us := latency_average (latency_run (parse_times cs)),
        mt_recv_parse_max_us := ls_max (latency_run (parse_times cs)),
        mt_capture_queue_capacity := ro_capture_queue_frames opts,
        mt_capture_queue_high_water := high_water,
        mt_storage_write_avg_us := latency_average (latency_run writes),
        mt_storage_write_max_us := ls_max (latency_run writes)\<rparr>"

lemma arrival_gaps_snoc:
  "arrival_gaps (cs @ [c]) =
     (if cs = [] then [] else arrival_gaps cs @ [micros_between (tc_wire_complete (last cs)) (tc_wire_complete c)])"
  by (induction cs rule: arrival_gaps.induct) simp_all

lemma overdue_snoc:
  "overdue deadline (cs @ [c]) =
     (let gap = micros_between (tc_wire_complete (last cs)) (tc_wire_complete c)
      in if cs \<noteq> [] \<and> deadline < gap then overdue deadline cs @ [gap - deadline] else overdue deadline cs)"
  by (simp add: overdue_def arrival_gaps_snoc Let_def)

lemma loop_counts_snoc:
  "loop_counts deadline (cs @ [c]) 0 later =
     (let gap = micros_between (tc_wire_complete (last cs)) (tc_wire_complete c); s = loop_counts deadline cs 0 before
      in if cs \<noteq> [] \<and> deadline < gap
         then s\<lparr>mt_recv_deadline_miss_count := mt_recv_deadline_miss_count s + 1,
                mt_recv_max_late_us := max (mt_recv_max_late_us s) (gap - deadline)\<rparr>
         else s)"
  by (simp add: overdue_snoc loop_counts_def Let_def empty_snapshot_def max.commute)

section \<open>One turn\<close>

text \<open>The acquisition's statistics are those of the turns whose clock readings are listed.\<close>

definition turns_noted :: "u64 \<Rightarrow> turn_clock list \<Rightarrow> acquisition \<Rightarrow> bool" where
  "turns_noted deadline cs aq \<longleftrightarrow>
     aq_gap_stats aq = latency_run (arrival_gaps cs) \<and> aq_parse_stats aq = latency_run (parse_times cs)
     \<and> (aq_has_previous aq \<longleftrightarrow> cs \<noteq> [])
     \<and> (cs \<noteq> [] \<longrightarrow> aq_first aq = tc_wire_complete (hd cs) \<and> aq_previous aq = tc_wire_complete (last cs))"

lemma note_arrival_counts:
  assumes "note_arrival deadline (tc_wire_complete c) aq = (tms, aq')"
    and "aq_gap_stats aq = latency_run (arrival_gaps cs)" "aq_has_previous aq \<longleftrightarrow> cs \<noteq> []"
    and "cs \<noteq> [] \<longrightarrow> aq_first aq = tc_wire_complete (hd cs) \<and> aq_previous aq = tc_wire_complete (last cs)"
    and "aq_snapshot aq = loop_counts deadline cs 0 rest"
  shows "aq_gap_stats aq' = latency_run (arrival_gaps (cs @ [c]))" "aq_has_previous aq'"
    "aq_first aq' = tc_wire_complete (hd (cs @ [c]))" "aq_previous aq' = tc_wire_complete c"
    "aq_snapshot aq' = loop_counts deadline (cs @ [c]) 0 rest'"
    "aq_parse_stats aq' = aq_parse_stats aq" "aq_io aq' = aq_io aq"
proof -
  note defs = assms(1) [unfolded note_arrival_def Let_def]
  show "aq_gap_stats aq' = latency_run (arrival_gaps (cs @ [c]))" "aq_has_previous aq'"
    "aq_first aq' = tc_wire_complete (hd (cs @ [c]))" "aq_previous aq' = tc_wire_complete c"
    "aq_parse_stats aq' = aq_parse_stats aq" "aq_io aq' = aq_io aq"
    using defs assms(2-4) by (cases "cs = []"; auto simp: arrival_gaps_snoc latency_run_snoc split: if_splits)+
  show "aq_snapshot aq' = loop_counts deadline (cs @ [c]) 0 rest'"
    using defs assms(2-5) unfolding loop_counts_snoc [of deadline cs c rest' rest] Let_def
    by (cases "cs = []") (auto split: if_splits)
qed

lemma crc_rejected_any:
  "parse_frame_into (take kWireFrameSize stream) f = (e, g, m) \<Longrightarrow>
    crc_rejected stream \<longleftrightarrow> e = kPayloadCrc \<or> e = kHeaderCrc"
proof (cases "well_sized (take kWireFrameSize stream)")
  case False
  assume parse: "parse_frame_into (take kWireFrameSize stream) f = (e, g, m)"
  then show ?thesis
    using parse_frame_into_malformed_iff [of _ f] parse_frame_into_malformed_iff [of _ default_frame] False
    by (force simp: crc_rejected_def split: prod.splits)
qed (auto simp: crc_rejected_def parse_frame_into_well_sized split: prod.splits)

lemma receive_frame_counts:
  assumes "receive_frame opts tcp clock slot aq = (res, slot', aq')"
    and "tr_client_socket tcp \<noteq> kInvalidSocket" "[] \<notin> set (aq_pieces aq)" "length (cf_wire slot) = kWireFrameSize"
    and "turns_noted (recv_deadline opts) cs aq" "aq_snapshot aq = loop_counts (recv_deadline opts) cs 0 before"
  obtains (left) "res = Inl 3" "length (concat (aq_pieces aq)) < kWireFrameSize" "turns_noted (recv_deadline opts) cs aq'"
      "aq_snapshot aq' = loop_counts (recv_deadline opts) cs 3 (concat (aq_pieces aq))"
      "pi_metrics (aq_io aq') = pi_metrics (aq_io aq)"
  | (rejected) code where "res = Inl code" "code = 4 \<or> code = 5" "kWireFrameSize \<le> length (concat (aq_pieces aq))"
      "turns_noted (recv_deadline opts) (cs @ [clock]) aq'"
      "aq_snapshot aq' = loop_counts (recv_deadline opts) (cs @ [clock]) code (concat (aq_pieces aq))"
      "pi_metrics (aq_io aq') = pi_metrics (aq_io aq)"
  | (taken) tms where "res = Inr tms" "kWireFrameSize \<le> length (concat (aq_pieces aq))" "cf_wire_complete_steady_ns slot' = steady_ns (tc_wire_complete clock)"
      "turns_noted (recv_deadline opts) (cs @ [clock]) aq'"
      "\<And>later. aq_snapshot aq' = loop_counts (recv_deadline opts) (cs @ [clock]) 0 later"
      "pi_metrics (aq_io aq') = pi_metrics (aq_io aq)"
proof -
  let ?d = "recv_deadline opts"
  obtain ok wire pieces where recv: "receive_exact (cf_wire slot) (aq_pieces aq) tcp = (ok, wire, pieces)"
    by (metis prod_cases3)
  have "receive_loop (cf_wire slot) 0 (aq_pieces aq) = (ok, wire, pieces)"
    using recv assms(2) by (simp add: receive_exact_def)
  then have loop: "ok \<longleftrightarrow> kWireFrameSize \<le> length (concat (aq_pieces aq))"
    "ok \<Longrightarrow> wire = take kWireFrameSize (concat (aq_pieces aq))"
    using receive_loop_spec [of "cf_wire slot" 0 "aq_pieces aq" ok wire pieces] assms(3,4) by (auto split: if_splits)
  show thesis
  proof (cases ok)
    case False
    then have res: "res = Inl 3" "aq' = note_disconnect (aq\<lparr>aq_pieces := pieces\<rparr>)"
      using assms(1) recv by (simp_all add: receive_frame_def)
    show thesis
      using assms(5,6) loop(1) False
      by (intro left [OF res(1)]) (simp_all add: res(2) note_disconnect_def turns_noted_def loop_counts_def log_error_def empty_snapshot_def)
  next
    case True
    note wire = loop(2) [OF True]
    have whole: "kWireFrameSize \<le> length (concat (aq_pieces aq))" using loop(1) True by simp
    obtain tms aq1 where arr: "note_arrival ?d (tc_wire_complete clock) (aq\<lparr>aq_pieces := pieces\<rparr>) = (tms, aq1)"
      by (metis surj_pair)
    obtain e frame message where parse: "parse_frame_into wire (aq_frame aq1) = (e, frame, message)" by (metis prod_cases3)
    note crc = crc_rejected_any [OF parse [unfolded wire]]
    let ?p = "micros_between (tc_parse_start clock) (tc_parse_end clock)"
    let ?aq2 = "aq1\<lparr>aq_frame := frame, aq_parse_stats := add_latency ?p (aq_parse_stats aq1)\<rparr>"
    have counts: "aq_gap_stats aq1 = latency_run (arrival_gaps (cs @ [clock]))" "aq_has_previous aq1"
      "aq_first aq1 = tc_wire_complete (hd (cs @ [clock]))" "aq_previous aq1 = tc_wire_complete clock"
      "\<And>later. aq_snapshot aq1 = loop_counts ?d (cs @ [clock]) 0 later"
      "aq_parse_stats aq1 = latency_run (parse_times cs)" "aq_io aq1 = aq_io aq"
      using note_arrival_counts [OF arr, of cs before] assms(5,6) by (simp_all add: turns_noted_def)
    have noted: "turns_noted ?d (cs @ [clock]) ?aq2"
      using counts by (simp add: turns_noted_def parse_times_def latency_run_snoc)
    have recv1: "receive_exact (cf_wire slot) (aq_pieces aq) tcp = (True, wire, pieces)" using recv True by simp
    note unfolded = assms(1) [unfolded receive_frame_def recv1 prod.case bool.case Let_def arr parse]
    show thesis
    proof (cases "e = kNone")
      case bad: False
      then have res: "res = Inl 4" "aq' = note_parse_failure e message ?aq2" using unfolded by simp_all
      show thesis
        using noted counts(5) [of "[]"] counts(7) crc whole
        by (intro rejected [OF res(1)])
          (simp_all add: res(2) note_parse_failure_def turns_noted_def loop_counts_def log_error_def Let_def empty_snapshot_def)
    next
      case good: True
      show thesis
      proof (cases "hdr_sample_rate_hz (fr_header frame) = ro_rate_hz opts
          \<and> (ro_validate_module_id opts \<longrightarrow> hdr_module_id (fr_header frame) = ro_expected_module_id opts)")
        case True
        then show thesis
          using unfolded good noted counts(5,7) whole
          by (intro taken [of "tms\<lparr>tt_parse_us := ?p\<rparr>"]) (auto simp: turns_noted_def)
      next
        case False
        then obtain m where res: "res = Inl 5" "aq' = note_mismatch m ?aq2" using unfolded good by (auto split: if_splits)
        show thesis
          using noted counts(5) [of "[]"] counts(7) whole
          by (intro rejected [OF res(1)])
            (simp_all add: res(2) note_mismatch_def turns_noted_def loop_counts_def log_error_def empty_snapshot_def)
      qed
    qed
  qed
qed

section \<open>What a run is measured by\<close>

text \<open>
  A run with everything the report is made of written down where it happens: the clock readings of every
  turn in which a frame is complete, those before and after every write, and the number of frames in the
  queue whenever the receiving thread looks at it.
\<close>

record observations =
  ob_turns :: "turn_clock list"
  ob_writes :: "(int \<times> int) list"
  ob_depths :: "nat list"

definition see_main :: "turn_clock \<Rightarrow> pipeline \<Rightarrow> observations \<Rightarrow> observations" where
  "see_main clock s ob =
     (case pl_main s of
        M_receive \<Rightarrow> (if kWireFrameSize \<le> length (concat (aq_pieces (pl_aq s)))
                      then ob\<lparr>ob_turns := ob_turns ob @ [clock]\<rparr> else ob)
      | M_depth c m \<Rightarrow> ob\<lparr>ob_depths := ob_depths ob @ [length (queue_items (pl_queue s))]\<rparr>
      | _ \<Rightarrow> ob)"

definition see_worker :: "worker_env \<Rightarrow> pipeline \<Rightarrow> observations \<Rightarrow> observations" where
  "see_worker env s ob =
     (case pl_worker s of
        W_write \<Rightarrow> ob\<lparr>ob_writes := ob_writes ob @ [(we_start env, we_end env)]\<rparr>
      | _ \<Rightarrow> ob)"

inductive observed_run :: "receiver_session \<Rightarrow> bytes list \<Rightarrow> filesystem \<Rightarrow> observations \<Rightarrow> pipeline \<Rightarrow> bool"
  for rs :: receiver_session and pieces :: "bytes list" and fs :: filesystem where
  begins: "observed_run rs pieces fs \<lparr>ob_turns = [], ob_writes = [], ob_depths = []\<rparr> (new_pipeline rs pieces fs)"
| sees_main: "observed_run rs pieces fs ob s \<Longrightarrow> main_step (rs_options rs) (rs_receiver rs) clock s = Some t
     \<Longrightarrow> observed_run rs pieces fs (see_main clock s ob) t"
| sees_worker: "observed_run rs pieces fs ob s \<Longrightarrow> worker_step env s = Some t
     \<Longrightarrow> observed_run rs pieces fs (see_worker env s ob) t"
| sees_nothing: "observed_run rs pieces fs ob s \<Longrightarrow> pl_worker s = W_waiting
     \<Longrightarrow> observed_run rs pieces fs ob (s\<lparr>pl_worker := W_test_done\<rparr>)"

text \<open>Every run can be observed, and only runs.\<close>

lemma reachable_observed: "reachable rs pieces fs s \<longleftrightarrow> (\<exists>ob. observed_run rs pieces fs ob s)"
proof
  show "\<exists>ob. observed_run rs pieces fs ob s" if "reachable rs pieces fs s"
    using that
  proof (induction rule: reachable.induct)
    case (step s t)
    then obtain ob where ob: "observed_run rs pieces fs ob s" by blast
    from step.hyps(2) show ?case
      by (cases rule: any_step) (use ob in \<open>blast intro: sees_main sees_worker sees_nothing\<close>)+
  qed (blast intro: begins)
next
  assume "\<exists>ob. observed_run rs pieces fs ob s"
  then obtain ob where "observed_run rs pieces fs ob s" ..
  then show "reachable rs pieces fs s"
    by (induction rule: observed_run.induct)
      (blast intro: reachable.intros pipeline_step_spurious.intros pipeline_step.intros)+
qed

section \<open>The loop\<close>

text \<open>The bytes of the stream after the frames received.\<close>

definition unread :: "bytes list \<Rightarrow> pipeline \<Rightarrow> bytes" where
  "unread pieces s = drop (length (concat (map cf_wire (received s)))) (concat pieces)"

definition loop_report :: "receiver_session \<Rightarrow> bytes list \<Rightarrow> turn_clock list \<Rightarrow> pipeline \<Rightarrow> bool" where
  "loop_report rs pieces cs s \<longleftrightarrow>
     turns_noted (recv_deadline (rs_options rs)) cs (pl_aq s)
     \<and> aq_snapshot (pl_aq s) = loop_counts (recv_deadline (rs_options rs)) cs (pl_exit_code s) (unread pieces s)
     \<and> pi_metrics (aq_io (pl_aq s)) = pi_metrics (rs_io rs)
     \<and> length cs = length (received s) + (if pl_exit_code s = 4 \<or> pl_exit_code s = 5 then 1 else 0)
     \<and> map cf_wire_complete_steady_ns (received s)
         = map (\<lambda>c. steady_ns (tc_wire_complete c)) (take (length (received s)) cs)"

lemma loop_counts_0: "loop_counts d cs 0 rest = loop_counts d cs 0 rest'"
  by (simp add: loop_counts_def)

lemma loop_counts_7: "loop_counts d cs 7 rest = loop_counts d cs 0 rest'"
  by (simp add: loop_counts_def)

lemma unread_stream:
  assumes "stream_inv opts pieces s" "pl_exit_code s = 0"
  shows "unread pieces s = concat (aq_pieces (pl_aq s))"
  using assms by (auto simp: stream_inv_def unread_def)

lemma loop_report_receive:
  assumes "pl_main s = M_receive" "pipeline_inv rs pieces fs s" "loop_report rs pieces cs s"
    and "tr_client_socket (rs_receiver rs) \<noteq> kInvalidSocket"
  shows "loop_report rs pieces (if kWireFrameSize \<le> length (concat (aq_pieces (pl_aq s))) then cs @ [clock] else cs)
      (receive_into_slot (rs_options rs) (rs_receiver rs) clock s)"
proof -
  let ?q = "pl_queue s" and ?aq = "pl_aq s" and ?d = "recv_deadline (rs_options rs)"
  let ?t = "receive_into_slot (rs_options rs) (rs_receiver rs) clock s"
  have stream: "stream_inv (rs_options rs) pieces s" and q: "queue_inv ?q"
    using assms(2) by (auto simp: pipeline_inv_def slots_safe_def)
  obtain res slot aq where run: "receive_frame (rs_options rs) (rs_receiver rs) clock (producer_slot ?q) ?aq = (res, slot, aq)"
    by (metis prod_cases3)
  have "producer_slot ?q \<in> set (cq_slots ?q)" using q by (simp add: queue_inv_def producer_slot_def)
  then have sized: "length (cf_wire (producer_slot ?q)) = kWireFrameSize" using stream by (simp add: stream_inv_def)
  have code: "pl_exit_code s = 0" using assms(1) stream by (auto simp: stream_inv_def)
  then have pieces: "[] \<notin> set (aq_pieces ?aq)" using stream by (auto simp: stream_inv_def)
  have before: "turns_noted ?d cs ?aq" "aq_snapshot ?aq = loop_counts ?d cs 0 (unread pieces s)"
    "pi_metrics (aq_io ?aq) = pi_metrics (rs_io rs)" "length cs = length (received s)"
    "map cf_wire_complete_steady_ns (received s) = map (\<lambda>c. steady_ns (tc_wire_complete c)) cs"
    using assms(3) code by (simp_all add: loop_report_def)
  note rest = unread_stream [OF stream code]
  have stopped: "received (stop c a (s\<lparr>pl_queue := q'\<rparr>)) = received s" for c a q'
    using assms(1) by (simp add: received_def pending_def stop_def)
  from run assms(4) pieces sized before(1,2) show ?thesis
  proof (cases rule: receive_frame_counts)
    case left
    then have t: "?t = stop 3 aq (s\<lparr>pl_queue := set_producer_slot slot ?q\<rparr>)" using run by (simp add: receive_into_slot_def)
    have "loop_report rs pieces cs ?t"
      using left before stopped rest unfolding loop_report_def t unread_def by (simp add: stop_def)
    then show ?thesis using left(2) by simp
  next
    case (rejected c)
    then have t: "?t = stop c aq (s\<lparr>pl_queue := set_producer_slot slot ?q\<rparr>)" using run by (simp add: receive_into_slot_def)
    have "loop_report rs pieces (cs @ [clock]) ?t"
      using rejected before stopped rest unfolding loop_report_def t unread_def by (auto simp: stop_def)
    then show ?thesis using rejected(3) by simp
  next
    case (taken tms)
    then have t: "?t = s\<lparr>pl_queue := set_producer_slot slot ?q, pl_aq := aq, pl_main := M_publish clock tms\<rparr>"
      using run by (simp add: receive_into_slot_def)
    have "received ?t = received s @ [slot]" using assms(1) q by (simp add: t received_def pending_def)
    then have "loop_report rs pieces (cs @ [clock]) ?t"
      using taken before code unfolding loop_report_def by (simp add: t)
    then show ?thesis using taken(2) by simp
  qed
qed

text \<open>What the other steps of the receiving thread do to the acquisition.\<close>

lemma main_other:
  assumes "main_step opts tcp clock s = Some t" "pl_main s \<noteq> M_receive"
  obtains (quiet) timing where "pl_aq t = (pl_aq s)\<lparr>aq_timing := timing\<rparr>" "pl_exit_code t = pl_exit_code s"
  | (failed) m where "pl_aq t = (pl_aq s)\<lparr>aq_io := log_error m (aq_io (pl_aq s))\<rparr>" "pl_exit_code t = 7" "in_loop (pl_main s)"
  | (overrun) "pl_aq t = note_overrun (pl_aq s)" "pl_exit_code t = 9" "in_loop (pl_main s)"
proof -
  show thesis
  proof (cases "pl_main s")
    case M_check
    then have t: "t = check_worker s" using assms(1) by (simp add: main_step_def)
    show thesis
    proof (cases "pl_failed s")
      case True
      show thesis by (rule failed [of "''capture worker failed''"])
        (use True M_check in \<open>simp_all add: t check_worker_def stop_def Let_def\<close>)
    next
      case False
      show thesis by (rule quiet [of "aq_timing (pl_aq s)"]) (use False in \<open>simp_all add: t check_worker_def Let_def\<close>)
    qed
  next
    case M_space
    then have t: "t = check_space s" using assms(1) by (simp add: main_step_def)
    show thesis
    proof (cases "has_space (pl_queue s)")
      case True
      show thesis by (rule quiet [of "aq_timing (pl_aq s)"]) (use True in \<open>simp_all add: t check_space_def\<close>)
    next
      case False
      show thesis by (rule overrun) (use False M_space in \<open>simp_all add: t check_space_def stop_def\<close>)
    qed
  next
    case (M_timing c m d)
    show thesis by (rule quiet [of "aq_timing (pl_aq t)"])
      (use assms(1) M_timing in \<open>auto simp: main_step_def end_turn_def log_timing_def\<close>)
  next
    case M_receive
    then show thesis using assms(2) by simp
  next
    case M_join
    show thesis by (rule quiet [of "aq_timing (pl_aq s)"]) (use assms(1) M_join in \<open>auto simp: main_step_def split: if_splits\<close>)
  next
    case M_joined
    then show thesis using assms(1) by (simp add: main_step_def)
  qed (rule quiet [of "aq_timing (pl_aq s)"]; use assms(1) in
    \<open>auto simp: main_step_def publish_frame_def note_depth_def notify_worker_def Let_def\<close>)+
qed

lemma loop_report_main:
  assumes "main_step (rs_options rs) (rs_receiver rs) clock s = Some t" "pipeline_inv rs pieces fs s"
    and "loop_report rs pieces cs s" "tr_client_socket (rs_receiver rs) \<noteq> kInvalidSocket"
  shows "loop_report rs pieces (ob_turns (see_main clock s (ob\<lparr>ob_turns := cs\<rparr>))) t"
proof (cases "pl_main s = M_receive")
  case True
  then show ?thesis using loop_report_receive [OF True assms(2-4), of clock] assms(1)
    by (simp add: main_step_def see_main_def split: if_splits)
next
  case False
  have code: "in_loop (pl_main s) \<Longrightarrow> pl_exit_code s = 0"
    using assms(2) by (auto simp: pipeline_inv_def stream_inv_def)
  have "received t = received s" using assms(1) False
    by (cases "pl_main s") (auto simp: main_defs received_def pending_def split: if_splits)
  then have same: "received t = received s" "unread pieces t = unread pieces s" by (simp_all add: unread_def)
  have noted: "turns_noted (recv_deadline (rs_options rs)) cs (pl_aq s)"
    "aq_snapshot (pl_aq s) = loop_counts (recv_deadline (rs_options rs)) cs (pl_exit_code s) (unread pieces s)"
    using assms(3) by (simp_all add: loop_report_def)
  have "loop_report rs pieces cs t"
    using assms(1) False
  proof (cases rule: main_other)
    case quiet
    then show ?thesis using assms(3) noted same by (simp add: loop_report_def turns_noted_def)
  next
    case failed
    then show ?thesis
      using assms(3) noted same code loop_counts_7 [of _ cs]
      by (simp add: loop_report_def turns_noted_def log_error_def) metis
  next
    case overrun
    then show ?thesis
      using assms(3) noted same code
      by (simp add: loop_report_def turns_noted_def note_overrun_def log_error_def loop_counts_def empty_snapshot_def)
  qed
  moreover have "ob_turns (see_main clock s (ob\<lparr>ob_turns := cs\<rparr>)) = cs"
    using False by (simp add: see_main_def split: main_pc.splits)
  ultimately show ?thesis by simp
qed

lemma loop_report_worker:
  assumes "worker_step env s = Some t" "loop_report rs pieces cs s"
  shows "loop_report rs pieces cs t"
  using assms(2) worker_leaves [OF assms(1)] worker_received [OF assms(1)] by (simp add: loop_report_def unread_def)

section \<open>The queue's depth and the writes\<close>

definition writes_noted :: "u64 list \<Rightarrow> pipeline \<Rightarrow> bool" where
  "writes_noted ws s \<longleftrightarrow> pl_write_stats s = latency_run ws
     \<and> length (pl_stored s) \<le> length ws \<and> length ws \<le> length (pl_stored s) + (if healthy s then 0 else 1)"

lemma writes_noted_wake:
  assumes "pl_worker t = pl_worker s \<or> pl_worker t = wake (pl_worker s)"
    and "pl_write_stats t = pl_write_stats s" "pl_stored t = pl_stored s" "pl_failed t = pl_failed s"
  shows "writes_noted ws t = writes_noted ws s"
proof -
  have "healthy t = healthy s" using assms(1,4) by (elim disjE; simp add: failing_def healthy_def)
  then show ?thesis using assms(2,3) by (simp add: writes_noted_def)
qed

lemma writes_noted_worker:
  assumes "worker_step env s = Some t" "writes_noted ws s"
  shows "writes_noted (ws @ (if pl_worker s = W_write then [micros_between (we_start env) (we_end env)] else [])) t"
proof (cases "pl_worker s")
  case W_write
  then have t: "t = write_captured env s" using assms(1) by (simp add: worker_step_def)
  have "healthy s" using W_write by (simp add: healthy_def failing_def)
  then have "writes_noted (ws @ [micros_between (we_start env) (we_end env)]) t"
    using assms(2)
    by (auto simp: t writes_noted_def write_captured_def latency_run_snoc Let_def healthy_def failing_def split: prod.splits)
  then show ?thesis using W_write by simp
qed (use assms in \<open>auto simp: worker_defs writes_noted_def healthy_def failing_def split: if_splits prod.splits\<close>)

section \<open>Every observed run\<close>

text \<open>The depths of the queue: one for each frame published, and the high-water mark is their maximum.\<close>

definition depths_noted :: "u64 \<Rightarrow> nat list \<Rightarrow> pipeline \<Rightarrow> bool" where
  "depths_noted capacity ds s \<longleftrightarrow> pl_high_water s = fold max (map of_nat ds) 0
     \<and> list_all (\<lambda>d. d \<le> unat capacity) ds
     \<and> length ds + (case pl_main s of M_depth _ _ \<Rightarrow> 1 | _ \<Rightarrow> 0) = length (pl_published s)"

lemma depths_noted_main:
  assumes "main_step opts tcp clock s = Some t" "queue_inv (pl_queue s)"
    and "length (cq_slots (pl_queue s)) = unat capacity + 1" "depths_noted capacity (ob_depths ob) s"
  shows "depths_noted capacity (ob_depths (see_main clock s ob)) t"
proof (cases "\<exists>c m. pl_main s = M_depth c m")
  case True
  have "queue_size (pl_queue s) \<le> unat capacity"
    using queue_size_bound [OF assms(2)] assms(2,3) by (simp add: queue_inv_def)
  moreover from True obtain c m where pc: "pl_main s = M_depth c m" by blast
  then have t: "t = note_depth c m s" using assms(1) by (simp add: main_step_def)
  have "pl_high_water t = max (of_nat (queue_size (pl_queue s))) (pl_high_water s)"
    by (auto simp: t note_depth_def max_def Let_def)
  moreover have "pl_main t = M_notify c m (queue_size (pl_queue s))" "pl_published t = pl_published s"
    by (simp_all add: t note_depth_def Let_def)
  moreover have "ob_depths (see_main clock s ob) = ob_depths ob @ [queue_size (pl_queue s)]" by (simp add: see_main_def pc)
  ultimately show ?thesis using assms(4) by (simp add: depths_noted_def pc)
next
  case False
  then have "ob_depths (see_main clock s ob) = ob_depths ob" by (auto simp: see_main_def split: main_pc.splits)
  moreover have "pl_high_water t = pl_high_water s" using assms(1) False
    by (cases "pl_main s") (auto simp: main_defs receive_into_slot_def split: if_splits sum.splits prod.splits)
  moreover have "length (pl_published t) = length (pl_published s) + (case pl_main t of M_depth _ _ \<Rightarrow> 1 | _ \<Rightarrow> 0)"
    using assms(1) False
    by (cases "pl_main s") (auto simp: main_defs receive_into_slot_def next_turn_def split: if_splits sum.splits prod.splits)
  moreover have "(case pl_main s of M_depth _ _ \<Rightarrow> 1 | _ \<Rightarrow> 0) = (0 :: nat)" using False by (auto split: main_pc.splits)
  ultimately show ?thesis using assms(4) unfolding depths_noted_def by simp
qed

definition all_noted :: "receiver_session \<Rightarrow> bytes list \<Rightarrow> observations \<Rightarrow> pipeline \<Rightarrow> bool" where
  "all_noted rs pieces ob s \<longleftrightarrow> loop_report rs pieces (ob_turns ob) s
     \<and> writes_noted (map (\<lambda>(a, b). micros_between a b) (ob_writes ob)) s
     \<and> depths_noted (ro_capture_queue_frames (rs_options rs)) (ob_depths ob) s"

lemma see_main_writes [simp]: "ob_writes (see_main clock s ob) = ob_writes ob"
  by (simp add: see_main_def split: main_pc.splits)

lemma see_worker_simps [simp]:
  "ob_turns (see_worker env s ob) = ob_turns ob" "ob_depths (see_worker env s ob) = ob_depths ob"
  "map f (ob_writes (see_worker env s ob))
     = map f (ob_writes ob) @ (if pl_worker s = W_write then [f (we_start env, we_end env)] else [])"
  by (simp_all add: see_worker_def split: worker_pc.splits)

lemma observed_noted:
  assumes "receiver_start env args = Inr rs" and "ro_capture_queue_frames (rs_options rs) \<noteq> - 1"
    and "[] \<notin> set pieces"
  shows "observed_run rs pieces fs ob s \<Longrightarrow> all_noted rs pieces ob s"
proof (induction rule: observed_run.induct)
  case begins
  let ?s = "new_pipeline rs pieces fs"
  have "received ?s = []" by (simp add: received_def pending_def new_pipeline_def next_turn_def)
  then have "loop_report rs pieces [] ?s"
    by (simp add: loop_report_def turns_noted_def new_pipeline_def new_acquisition_def latency_run_def parse_times_def
        loop_counts_def overdue_def empty_snapshot_def)
  moreover have "writes_noted [] ?s" by (simp add: writes_noted_def new_pipeline_def latency_run_def)
  ultimately show ?case by (simp add: all_noted_def depths_noted_def new_pipeline_def next_turn_def)
next
  case (sees_main ob s clock t)
  have reach: "reachable rs pieces fs s" using sees_main.hyps(1) reachable_observed by blast
  note inv = reachable_inv [OF assms reach] and main = sees_main.hyps(2)
  have "loop_report rs pieces (ob_turns (see_main clock s (ob\<lparr>ob_turns := ob_turns ob\<rparr>))) t"
    by (rule loop_report_main [OF main inv _ receiver_start_session(3) [OF assms(1)]])
      (use sees_main.IH in \<open>simp add: all_noted_def\<close>)
  moreover have "pl_write_stats t = pl_write_stats s" using main
    by (cases "pl_main s") (auto simp: main_defs receive_into_slot_def split: if_splits sum.splits prod.splits)
  then have "writes_noted ws t = writes_noted ws s" for ws using writes_noted_wake main_leaves(3,4,6) [OF main] by blast
  moreover have "depths_noted (ro_capture_queue_frames (rs_options rs)) (ob_depths (see_main clock s ob)) t"
    by (rule depths_noted_main [OF main _ reachable_slots [OF assms(1,2) reach]])
      (use inv sees_main.IH in \<open>simp_all add: pipeline_inv_def slots_safe_def all_noted_def\<close>)
  ultimately show ?case using sees_main.IH by (simp add: all_noted_def)
next
  case (sees_worker ob s env' t)
  note worker = sees_worker.hyps(2)
  have "pl_high_water t = pl_high_water s" "pl_published t = pl_published s" using worker
    by (cases "pl_worker s"; auto simp: worker_defs split: if_splits prod.splits)+
  moreover have "writes_noted (map (\<lambda>(a, b). micros_between a b) (ob_writes (see_worker env' s ob))) t"
    using writes_noted_worker [OF worker, of "map (\<lambda>(a, b). micros_between a b) (ob_writes ob)"] sees_worker.IH
    by (cases "pl_worker s = W_write") (simp_all add: all_noted_def)
  ultimately show ?case
    using loop_report_worker [OF worker] sees_worker.IH worker_leaves [OF worker]
    by (simp add: all_noted_def depths_noted_def)
next
  case (sees_nothing ob s)
  then show ?case
    using writes_noted_wake [of "s\<lparr>pl_worker := W_test_done\<rparr>" s]
    by (simp add: all_noted_def depths_noted_def loop_report_def unread_def received_worker)
qed

lemma receiver_finish_metrics:
  "receiver_finish show_double now opts queue high_water write_stats writer_failed code aq = Returned status pio \<Longrightarrow>
    pi_metrics pio = pi_metrics (aq_io aq)
      @ [metrics_line show_double now (final_snapshot opts queue high_water write_stats aq)]"
  by (auto simp: receiver_finish_def Let_def append_metrics_def log_error_def log_info_def to_stdout_def split: if_splits)

lemma final_snapshot_report:
  assumes "turns_noted (recv_deadline opts) cs aq" "aq_snapshot aq = loop_counts (recv_deadline opts) cs code rest"
    and "aq_continuity aq = observe_run ids" "length ids < 2 ^ 64" "cq_capacity queue = ro_capture_queue_frames opts"
  shows "final_snapshot opts queue high_water (latency_run ws) aq = receiver_report opts code cs ids rest high_water ws"
proof -
  have count: "cs_frame_count (run_stats ids) = of_nat (length ids)"
    using observe_run_count [OF assms(4)] by (simp add: run_stats_def)
  have "unat (cs_frame_count (run_stats ids)) = length ids"
    using run_count [OF _ assms(4)] count by (cases "ids = []") simp_all
  then have "0 < cs_frame_count (run_stats ids) \<longleftrightarrow> ids \<noteq> []" by (simp add: word_less_nat_alt)
  then show ?thesis
    using assms(1-3,5) count run_first [of ids] run_last [of ids]
    by (simp add: final_snapshot_def receiver_report_def Let_def run_stats_def turns_noted_def)
qed

section \<open>Properties\<close>

text \<open>
  C6: the receiver's report is exact, however the session ends.  The line appended to the metrics file
  is the reference's over what was observed on the way: the first and the largest id and the number of
  the frames received, the average, the maximum and the percentile of the gaps between consecutive frames
  and their number beyond the deadline, the average and the maximum of the times that parsing took in
  every turn and writing in every write, the greatest depth the queue was seen at, and exactly the failure
  that the exit code stands for.  The turns observed are those whose time is stamped on the frames, and
  one more for a frame that was rejected; one write was timed for every frame stored, and one more that
  failed; the queue was looked at once for each frame, and was never deeper than its capacity.
\<close>

theorem receiver_report_exact:
  assumes "receiver_start env args = Inr rs" and "ro_capture_queue_frames (rs_options rs) \<noteq> - 1"
    and "[] \<notin> set pieces" and "observed_run rs pieces fs ob s" and "pl_main s = M_joined"
    and "pipeline_result show_double now (rs_options rs) s = Returned status pio"
  shows "pi_metrics pio = pi_metrics (rs_io rs)
      @ [metrics_line show_double now
           (receiver_report (rs_options rs) status (ob_turns ob) (map cf_frame_id (received s)) (unread pieces s)
              (fold max (map of_nat (ob_depths ob)) 0) (map (\<lambda>(a, b). micros_between a b) (ob_writes ob)))]
    \<and> map (\<lambda>c. steady_ns (tc_wire_complete c)) (take (length (received s)) (ob_turns ob))
        = map cf_wire_complete_steady_ns (received s)
    \<and> length (ob_turns ob) = length (received s) + (if status = 4 \<or> status = 5 then 1 else 0)
    \<and> length (pl_stored s) \<le> length (ob_writes ob)
    \<and> length (ob_writes ob) \<le> length (pl_stored s) + (if pl_failed s then 1 else 0)
    \<and> length (ob_depths ob) = length (received s)
    \<and> list_all (\<lambda>d. d \<le> unat (ro_capture_queue_frames (rs_options rs))) (ob_depths ob)"
proof -
  let ?writes = "map (\<lambda>(a, b). micros_between a b) (ob_writes ob)" and ?cs = "ob_turns ob"
  have reach: "reachable rs pieces fs s" using assms(4) reachable_observed by blast
  note inv = reachable_inv [OF assms(1-3) reach]
  have report: "loop_report rs pieces ?cs s" "writes_noted ?writes s"
    and depths: "depths_noted (ro_capture_queue_frames (rs_options rs)) (ob_depths ob) s"
    using observed_noted [OF assms(1-4)] by (simp_all add: all_noted_def)
  have status: "status = (if pl_exit_code s \<noteq> 0 then pl_exit_code s else if pl_failed s then 7 else 0)"
    using joined_status [OF inv assms(5)] assms(6) by (metis ending.sel(1))
  have counts: "aq_snapshot (pl_aq s) = loop_counts (recv_deadline (rs_options rs)) ?cs status (unread pieces s)"
    using report(1) loop_counts_7 [of "recv_deadline (rs_options rs)" ?cs "unread pieces s" "unread pieces s"]
    by (simp add: status loop_report_def)
  have noted: "turns_noted (recv_deadline (rs_options rs)) ?cs (pl_aq s)" and writes: "pl_write_stats s = latency_run ?writes"
    using report by (simp_all add: loop_report_def writes_noted_def)
  have ids: "aq_continuity (pl_aq s) = observe_run (map cf_frame_id (received s))"
    using inv by (simp add: pipeline_inv_def stream_inv_def)
  have rec: "received s = pl_published s" using assms(5) by (simp add: received_def pending_def)
  then have "length (map cf_frame_id (received s)) < 2 ^ 64"
    using published_bound [of "rs_options rs" s] inv unat_u64_less [of "ro_expected_frames (rs_options rs)"]
    by (simp add: pipeline_inv_def)
  moreover have "cq_capacity (pl_queue s) = ro_capture_queue_frames (rs_options rs)"
    using reachable_slots [OF assms(1,2) reach] inv by (simp add: pipeline_inv_def slots_safe_def queue_inv_def word_unat_eq_iff)
  ultimately have "final_snapshot (rs_options rs) (pl_queue s) (pl_high_water s) (pl_write_stats s) (pl_aq s)
      = receiver_report (rs_options rs) status ?cs (map cf_frame_id (received s)) (unread pieces s) (pl_high_water s) ?writes"
    using final_snapshot_report [OF noted counts ids] writes by simp
  then have "pi_metrics pio = pi_metrics (rs_io rs)
      @ [metrics_line show_double now
           (receiver_report (rs_options rs) status ?cs (map cf_frame_id (received s)) (unread pieces s) (pl_high_water s) ?writes)]"
    using receiver_finish_metrics [OF assms(6) [unfolded pipeline_result_def]] report(1) by (simp add: loop_report_def)
  moreover have "healthy s \<longleftrightarrow> \<not> pl_failed s"
    using inv assms(5) by (auto simp: pipeline_inv_def joined_after_exit_def healthy_def failing_def)
  moreover have "status = 4 \<or> status = 5 \<longleftrightarrow> pl_exit_code s = 4 \<or> pl_exit_code s = 5"
    unfolding status by auto
  ultimately show ?thesis
    using report depths rec assms(5) by (auto simp: loop_report_def writes_noted_def depths_noted_def)
qed

section \<open>Instances\<close>

text \<open>A session of one frame: no gap, no failure.\<close>

theorem receiver_report_exact_witness:
  "\<exists>rs s pio c d w. receiver_start quiet_env (receiver_command_line one_frame_options) = Inr rs
     \<and> pipeline_result (\<lambda>_. []) [] one_frame_options s = Returned 0 pio
     \<and> observed_run rs [frame_seven] [] \<lparr>ob_turns = [c], ob_writes = [w], ob_depths = [d]\<rparr> s \<and> d \<le> 1
     \<and> pi_metrics pio = pi_metrics (rs_io rs)
         @ [metrics_line (\<lambda>_. []) [] (receiver_report one_frame_options 0 [c] (map cf_frame_id (received s))
              (unread [frame_seven] s) (max (of_nat d) 0) [micros_between (fst w) (snd w)])]
     \<and> length (received s) = 1"
proof -
  obtain rs where rs: "receiver_start quiet_env (receiver_command_line one_frame_options) = Inr rs"
    and opts: "rs_options rs = one_frame_options" by (rule one_frame_session)
  obtain s where s: "reachable rs [frame_seven] [] s" "pl_main s = M_joined"
      "exit_status (pipeline_result (\<lambda>_. []) [] (rs_options rs) s) = 0" "length (pl_stored s) = 1"
    using complete_run [OF rs frame_seven [OF opts]] by blast
  then obtain pio where res: "pipeline_result (\<lambda>_. []) [] (rs_options rs) s = Returned 0 pio"
    by (cases "pipeline_result (\<lambda>_. []) [] (rs_options rs) s")
      (auto simp: pipeline_result_def receiver_finish_def Let_def split: if_splits)
  note joined = joined_status [OF reachable_inv [OF rs frame_seven(1,2) [OF opts] s(1)] s(2)]
  have fine: "pl_exit_code s = 0" "\<not> pl_failed s" using joined s(3) by (auto split: if_splits)
  then have len: "length (received s) = 1"
    using joined_frames(1) [OF reachable_inv [OF rs frame_seven(1,2) [OF opts] s(1)] s(2)] frame_seven(3) [OF opts] by simp
  obtain ob where ob: "observed_run rs [frame_seven] [] ob s" using s(1) reachable_observed by blast
  note report = receiver_report_exact [OF rs frame_seven(1,2) [OF opts] ob s(2) res]
  have "length (ob_turns ob) = 1" "length (ob_depths ob) = 1" "length (ob_writes ob) = 1"
    using report len s(4) fine(2) by auto
  then obtain c w d where shape: "ob_turns ob = [c]" "ob_writes ob = [w]" "ob_depths ob = [d]"
    by (auto simp: length_Suc_conv)
  then have "ob = \<lparr>ob_turns = [c], ob_writes = [w], ob_depths = [d]\<rparr>" by (cases ob) simp
  then have "observed_run rs [frame_seven] [] \<lparr>ob_turns = [c], ob_writes = [w], ob_depths = [d]\<rparr> s" using ob by simp
  moreover have "d \<le> 1" using report shape(3) by (simp add: opts one_frame_options_def)
  ultimately show ?thesis using rs res report len shape unfolding opts
    by (intro exI [of _ rs] exI [of _ s] exI [of _ pio] exI [of _ c] exI [of _ d] exI [of _ w])
      (simp add: max.commute split: prod.splits)
qed

end
