(* ===== verification/Sender_Report.thy ===== *)
theory Sender_Report
  imports Sender_Properties
begin

text \<open>
  What the sender reports at its end: the line of the metrics file and the table of the timing log.  The
  reference is written over the clock readings of all turns; the counters that the loop keeps are shown
  to agree with it.
\<close>

section \<open>The reference\<close>

definition turn_of :: "sender_env \<Rightarrow> nat \<Rightarrow> sender_turn" where
  "turn_of env i = se_turn env (of_nat i)"

definition due :: "sender_env \<Rightarrow> sender_options \<Rightarrow> nat \<Rightarrow> int" where
  "due env opts i = scheduled_at (se_schedule_start env) (so_rate_hz opts) (of_nat i)"

definition lateness :: "sender_env \<Rightarrow> sender_options \<Rightarrow> nat \<Rightarrow> u64" where
  "lateness env opts i = late_us (due env opts i) (te_send_start (turn_of env i))"

text \<open>The time between two readings of the same turn, and between the starts of a turn and the one before.\<close>

definition took :: "(sender_turn \<Rightarrow> int) \<Rightarrow> (sender_turn \<Rightarrow> int) \<Rightarrow> sender_env \<Rightarrow> nat \<Rightarrow> u64" where
  "took begins ends env i = micros_between (begins (turn_of env i)) (ends (turn_of env i))"

definition period :: "sender_env \<Rightarrow> nat \<Rightarrow> u64" where
  "period env i = micros_between (te_send_start (turn_of env (i - 1))) (te_send_start (turn_of env i))"

definition frame_number :: "bytes \<Rightarrow> u64" where
  "frame_number wire = hdr_frame_id (fr_header (frame_at wire))"

definition sender_report :: "sender_env \<Rightarrow> sender_options \<Rightarrow> bytes list \<Rightarrow> metrics_snapshot" where
  "sender_report env opts frames =
     (let n = length frames;
          late = map (lateness env opts) [0..<n];
          periods = latency_run (map (period env) [1..<n]);
          work = latency_run (map (took te_send_start te_send_end env) [0..<n]);
          encode = latency_run (map (took te_send_start te_socket_start env) [0..<n]);
          socket_send = latency_run (map (took te_socket_start te_send_end env) [0..<n])
      in empty_snapshot
        \<lparr>mt_frame_id_begin := (if frames = [] then 0 else frame_number (hd frames)),
         mt_frame_id_end := (if frames = [] then 0 else frame_number (last frames)),
         mt_frame_count := of_nat n,
         mt_send_period_avg_us := latency_average periods,
         mt_send_period_max_us := ls_max periods,
         mt_send_period_p999_us := percentile p999 periods,
         mt_send_deadline_us := so_deadline_us opts,
         mt_send_deadline_miss_count := of_nat (length (filter (\<lambda>l. so_deadline_us opts < l) late)),
         mt_send_max_late_us := fold max late 0,
         mt_send_schedule_late_avg_us := latency_average (latency_run late),
         mt_send_schedule_late_max_us := ls_max (latency_run late),
         mt_send_work_avg_us := latency_average work,
         mt_send_work_max_us := ls_max work,
         mt_send_encode_avg_us := latency_average encode,
         mt_send_encode_max_us := ls_max encode,
         mt_send_socket_avg_us := latency_average socket_send,
         mt_send_socket_max_us := ls_max socket_send\<rparr>)"

definition timing_line :: "sender_env \<Rightarrow> sender_options \<Rightarrow> nat \<Rightarrow> string" where
  "timing_line env opts i = comma_separated
     [u64_text (of_nat i), u64_text (steady_ns (due env opts i)), u64_text (steady_ns (te_send_start (turn_of env i))),
      u64_text (steady_ns (te_send_end (turn_of env i))), u64_text (lateness env opts i),
      u64_text (took te_send_start te_send_end env i), u64_text (took te_send_start te_socket_start env i),
      u64_text (took te_socket_start te_send_end env i), u64_text (so_deadline_us opts),
      if so_deadline_us opts < lateness env opts i then ''1'' else ''0'']"


section \<open>The figures kept by the loop\<close>

definition figures_noted :: "sender_env \<Rightarrow> sender_options \<Rightarrow> nat \<Rightarrow> text_stream \<Rightarrow> sending \<Rightarrow> bool" where
  "figures_noted env opts n timing st \<longleftrightarrow>
     (0 < n \<longrightarrow> sg_previous_start st = te_send_start (turn_of env (n - 1)))
     \<and> sg_deadline_miss_count st
         = of_nat (length (filter (\<lambda>l. so_deadline_us opts < l) (map (lateness env opts) [0..<n])))
     \<and> sg_max_late_us st = fold max (map (lateness env opts) [0..<n]) 0
     \<and> sg_send_period st = latency_run (map (period env) [1..<n])
     \<and> sg_schedule_late st = latency_run (map (lateness env opts) [0..<n])
     \<and> sg_send_work st = latency_run (map (took te_send_start te_send_end env) [0..<n])
     \<and> sg_encode st = latency_run (map (took te_send_start te_socket_start env) [0..<n])
     \<and> sg_socket_send st = latency_run (map (took te_socket_start te_send_end env) [0..<n])
     \<and> sg_timing st = fold write_line (map (timing_line env opts) [0..<n]) timing"

definition numbers_noted :: "bytes list \<Rightarrow> sending \<Rightarrow> bool" where
  "numbers_noted frames st \<longleftrightarrow>
     sg_first_frame_id st = (if frames = [] then 0 else frame_number (hd frames))
     \<and> sg_last_frame_id st = (if frames = [] then 0 else frame_number (last frames))"

lemma figures_noted_same:
  "sg_previous_start t = sg_previous_start s \<Longrightarrow> sg_deadline_miss_count t = sg_deadline_miss_count s \<Longrightarrow>
    sg_max_late_us t = sg_max_late_us s \<Longrightarrow> sg_send_period t = sg_send_period s \<Longrightarrow>
    sg_schedule_late t = sg_schedule_late s \<Longrightarrow> sg_send_work t = sg_send_work s \<Longrightarrow> sg_encode t = sg_encode s \<Longrightarrow>
    sg_socket_send t = sg_socket_send s \<Longrightarrow> sg_timing t = sg_timing s \<Longrightarrow>
    figures_noted env opts n timing t = figures_noted env opts n timing s"
  by (simp add: figures_noted_def)

lemma prepare_frame_figures:
  "prepare_frame opts te i st = (ok, st1) \<Longrightarrow> figures_noted env opts n timing st1 = figures_noted env opts n timing st
    \<and> sg_first_frame_id st1 = sg_first_frame_id st \<and> sg_last_frame_id st1 = sg_last_frame_id st
    \<and> pi_metrics (sg_io st1) = pi_metrics (sg_io st)"
  by (intro conjI figures_noted_same;
      auto simp: prepare_frame_def replay_frame_def input_failure_def log_error_def to_stderr_def Let_def
        split: option.splits prod.splits bool.splits if_splits)

text \<open>The frame last decoded or filled in is the one whose bytes are sent.\<close>

lemma prepare_frame_number:
  assumes "prepare_frame opts te i st = (True, st1)" "0 < so_rate_hz opts" "so_rate_hz opts \<le> kMaxSampleRateHz"
  shows "hdr_frame_id (fr_header (sg_frame st1)) = frame_number (sg_bytes st1)"
proof (cases "sg_input st")
  case None
  let ?ts = "monotonic_ns (te_monotonic te)"
  have "sg_bytes st1 = generated opts ?ts i"
    "hdr_frame_id (fr_header (sg_frame st1)) = i"
    using assms(1) None encode_fill_any
    by (auto simp: prepare_frame_def encode_into_eq generated_def fill_frame_header Let_def)
  then show ?thesis using generated_frame(2) [OF assms(2,3)]
    by (simp add: frame_number_def sealed_frame_header fill_frame_header)
next
  case (Some r)
  obtain more wire r1 where nx: "reader_next (sg_fs st) (sg_bytes st) r = (more, wire, r1)" by (metis prod_cases3)
  obtain problem frame where pr: "input_problem wire (sg_frame st) = (problem, frame)" by (metis surj_pair)
  have "problem = [] \<and> sg_frame st1 = frame \<and> sg_bytes st1 = wire"
    using assms(1) Some nx pr by (cases more) (auto simp: prepare_frame_def replay_frame_def Let_def split: if_splits)
  then show ?thesis using pr input_problem_ok by (auto simp: frame_number_def)
qed

lemma note_times_figures:
  assumes "figures_noted env opts n timing st" "n < 2 ^ 64"
  shows "figures_noted env opts (Suc n) timing (note_times opts (due env opts n) (turn_of env n) (of_nat n) st)"
proof -
  have pos: "0 < (of_nat n :: u64) \<longleftrightarrow> 0 < n" using assms(2) by (simp add: word_less_nat_alt unat_of_nat take_bit_nat_eq_self)
  have upt: "[1..<Suc n] = (if 0 < n then [1..<n] @ [n] else [])" by simp
  show ?thesis
    using assms(1) pos unfolding figures_noted_def upt
    by (auto simp: note_times_def Let_def latency_run_snoc lateness_def took_def period_def timing_line_def
        write_line_bad max.commute)
qed

lemma note_times_numbers [simp]:
  "sg_first_frame_id (note_times opts sch env i st) = sg_first_frame_id st"
  "sg_last_frame_id (note_times opts sch env i st) = sg_last_frame_id st"
  "sg_io (note_times opts sch env i st) = sg_io st"
  by (simp_all add: note_times_def Let_def)

text \<open>One turn that goes on.\<close>

lemma send_turn_noted:
  assumes turn: "send_turn opts (se_schedule_start env) (se_turn env (of_nat (length frames))) (of_nat (length frames)) st = (None, st')"
    and inv: "sender_inv env opts frames st" and rate: "0 < so_rate_hz opts" "so_rate_hz opts \<le> kMaxSampleRateHz"
    and n: "length frames + 1 < 2 ^ 64"
    and noted: "figures_noted env opts (length frames) timing st" "numbers_noted frames st"
  shows "\<exists>f. sender_inv env opts (frames @ [f]) st' \<and> figures_noted env opts (length (frames @ [f])) timing st'
    \<and> numbers_noted (frames @ [f]) st' \<and> pi_metrics (sg_io st') = pi_metrics (sg_io st)"
proof -
  let ?id = "of_nat (length frames) :: u64" and ?te = "se_turn env (of_nat (length frames))"
  obtain f where f: "sender_inv env opts (frames @ [f]) st'" using send_turn_spec [OF turn inv rate n] by auto
  obtain st1 where pr: "prepare_frame opts ?te ?id st = (True, st1)"
    using turn by (auto simp: send_turn_def split: prod.splits bool.splits)
  obtain st2 where ps: "pass_frame (note_frame_id ?id st1) = (True, st2)"
    using turn pr by (auto simp: send_turn_def split: prod.splits bool.splits)
  obtain st3 where sv: "save_frame (te_write ?te) st2 = (True, st3)"
    using turn pr ps by (auto simp: send_turn_def split: prod.splits bool.splits)
  have st': "st' = note_times opts (due env opts (length frames)) (turn_of env (length frames)) ?id st3"
    using turn pr ps sv by (simp add: send_turn_def due_def turn_of_def)
  obtain passed answers sender where sb: "send_bytes (sg_bytes st1) (sg_answers st1) (sg_sender st1) = (True, passed, answers, sender)"
    and st2: "st2 = (note_frame_id ?id st1)\<lparr>sg_sender := sender, sg_answers := answers, sg_wire := sg_wire st1 @ passed\<rparr>"
    using ps by (auto simp: pass_frame_def split: prod.splits)
  have st3: "sg_wire st3 = sg_wire st2" "sg_io st3 = sg_io st2" "sg_first_frame_id st3 = sg_first_frame_id st2"
    "sg_last_frame_id st3 = sg_last_frame_id st2"
    "figures_noted env opts m timing st3 = figures_noted env opts m timing st2" for m
    using sv by (auto simp: save_frame_def figures_noted_def split: option.splits prod.splits)
  have src: "source_inv env opts frames st" "files_in_place env opts st" "honest_stream 0 (sg_answers st)"
    and wire: "sg_wire st = concat frames"
    using inv saved_files_in_place by (auto simp: sender_inv_def)
  note prep = prepare_frame_spec [OF pr src(1) rate src(2)]
  have "length (sg_bytes st1) = kWireFrameSize" using prep by (simp add: sendable_def acceptable_length)
  then have "passed = sg_bytes st1" using send_bytes_honest [OF sb] prep src(3) by simp
  then have "sg_wire st' = concat frames @ sg_bytes st1" using prep wire by (simp add: st' st3 st2)
  moreover have "sg_wire st' = concat frames @ f" using f by (simp add: sender_inv_def)
  ultimately have number: "frame_number f = hdr_frame_id (fr_header (sg_frame st1))"
    using prepare_frame_number [OF pr rate] by simp
  note same = prepare_frame_figures [OF pr]
  have "figures_noted env opts (length frames) timing st3"
    using same [of env "length frames" timing] noted(1) unfolding st3 st2
    by (simp add: figures_noted_def note_frame_id_def Let_def)
  then have "figures_noted env opts (length (frames @ [f])) timing st'"
    using note_times_figures [of env opts "length frames" timing st3] n by (simp add: st')
  moreover have "numbers_noted (frames @ [f]) st'"
  proof -
    have "?id = 0 \<longleftrightarrow> frames = []"
    proof -
      have "unat ?id = length frames" using n by (simp add: unat_of_nat take_bit_nat_eq_self)
      then show ?thesis by (metis length_0_conv unat_eq_zero)
    qed
    then show ?thesis using noted(2) same number
      by (auto simp: numbers_noted_def st' st3 st2 note_frame_id_def Let_def)
  qed
  moreover have "pi_metrics (sg_io st') = pi_metrics (sg_io st)"
    using same by (simp add: st' st3 st2 note_frame_id_def Let_def)
  ultimately show ?thesis using f by blast
qed

lemma send_frames_noted:
  assumes "send_frames opts (se_schedule_start env) (se_turn env) n (of_nat (length frames)) st = (None, st')"
    and "sender_inv env opts frames st" and rate: "0 < so_rate_hz opts" "so_rate_hz opts \<le> kMaxSampleRateHz"
    and "length frames + n < 2 ^ 64"
    and "figures_noted env opts (length frames) timing st" "numbers_noted frames st"
  shows "\<exists>fs. length fs = length frames + n \<and> sender_inv env opts fs st' \<and> figures_noted env opts (length fs) timing st'
    \<and> numbers_noted fs st' \<and> pi_metrics (sg_io st') = pi_metrics (sg_io st)"
  using assms(1,2,5-)
proof (induction n arbitrary: frames st)
  case 0
  then show ?case by auto
next
  case (Suc n)
  obtain st1 where turn: "send_turn opts (se_schedule_start env) (se_turn env (of_nat (length frames))) (of_nat (length frames)) st
      = (None, st1)"
    and rest: "send_frames opts (se_schedule_start env) (se_turn env) n (of_nat (length frames) + 1) st1 = (None, st')"
    using Suc.prems(1) by (auto split: prod.splits option.splits)
  obtain f where f: "sender_inv env opts (frames @ [f]) st1" "figures_noted env opts (length (frames @ [f])) timing st1"
    "numbers_noted (frames @ [f]) st1" "pi_metrics (sg_io st1) = pi_metrics (sg_io st)"
    using send_turn_noted [OF turn Suc.prems(2) rate _ Suc.prems(4,5)] Suc.prems(3) by auto
  have "send_frames opts (se_schedule_start env) (se_turn env) n (of_nat (length (frames @ [f]))) st1 = (None, st')"
    using rest by (simp add: add.commute)
  from Suc.IH [OF this f(1) _ f(2,3)] show ?case using Suc.prems(3) f(4) by simp
qed

section \<open>The whole program\<close>

definition opened_log :: "sender_env \<Rightarrow> sender_options \<Rightarrow> text_stream" where
  "opened_log env opts =
     (if so_timing_log opts \<noteq> [] then write_line sender_timing_header (open_stream True (se_timing_device env) unopened_stream)
      else unopened_stream)"

lemma started_sending:
  assumes "sender_start env opts = Inr st"
  shows "figures_noted env opts 0 (opened_log env opts) st" "numbers_noted [] st"
    "so_timing_log opts \<noteq> [] \<Longrightarrow> se_timing_opens env"
    "\<exists>metrics_file. se_metrics_file env = Some metrics_file \<and> pi_metrics (sg_io st) = metrics_file @ [metrics_header]"
proof -
  obtain log_file metrics_file where files: "se_directories env" "se_log_file env = Some log_file" "se_metrics_file env = Some metrics_file"
    using assms by (auto simp: sender_start_def split: bool.splits option.splits)
  then have opens: "so_timing_log opts \<noteq> [] \<Longrightarrow> se_timing_opens env"
    using assms by (auto simp: sender_start_def open_stream_def Let_def split: if_splits)
  have "sender_connect env opts (opened_log env opts) (new_process_io log_file (write_metrics_header metrics_file)) = Inr st"
    using assms files opens by (auto simp: sender_start_def opened_log_def open_stream_def Let_def split: if_splits)
  then obtain sender m where "new_sending env opts sender (opened_log env opts)
      (log_info m (new_process_io log_file (write_metrics_header metrics_file))) = Inr st"
    by (auto simp: sender_connect_def Let_def split: prod.splits if_splits sum.splits)
  then have "figures_noted env opts 0 (opened_log env opts) st \<and> numbers_noted [] st
    \<and> pi_metrics (sg_io st) = write_metrics_header metrics_file"
    by (auto simp: new_sending_def figures_noted_def numbers_noted_def latency_run_def log_info_def new_process_io_def Let_def
        split: option.splits if_splits)
  then show "figures_noted env opts 0 (opened_log env opts) st" "numbers_noted [] st"
    "\<exists>metrics_file. se_metrics_file env = Some metrics_file \<and> pi_metrics (sg_io st) = metrics_file @ [metrics_header]"
    using files by (simp_all add: write_metrics_header_def)
  show "so_timing_log opts \<noteq> [] \<Longrightarrow> se_timing_opens env" by (rule opens)
qed

lemma finish_metrics:
  "sender_finish show_double now env opts st = (0, st') \<Longrightarrow>
    pi_metrics (sg_io st') = pi_metrics (sg_io st) @ [metrics_line show_double now (sender_snapshot opts st)]"
  by (auto simp: sender_finish_def append_metrics_def sender_snapshot_def log_info_def to_stdout_def Let_def
      split: prod.splits if_splits)

lemma noted_snapshot:
  assumes "figures_noted env opts (length frames) timing st" "numbers_noted frames st" "sender_inv env opts frames st"
  shows "sender_snapshot opts st = sender_report env opts frames"
  using assms by (simp add: sender_snapshot_def sender_report_def figures_noted_def numbers_noted_def sender_inv_def Let_def)

lemma loop_noted:
  assumes "parse_sender_options args = Inr opts" "honest_stream 0 (se_answers env)" "sender_start env opts = Inr st"
    and "send_frames opts (se_schedule_start env) (se_turn env) (unat (so_frame_count opts)) 0 st = (None, st1)"
  obtains frames where "length frames = unat (so_frame_count opts)" "sender_inv env opts frames st1"
    "figures_noted env opts (length frames) (opened_log env opts) st1" "numbers_noted frames st1"
    "pi_metrics (sg_io st1) = pi_metrics (sg_io st)"
proof -
  have rate: "0 < so_rate_hz opts" "so_rate_hz opts \<le> kMaxSampleRateHz"
    using parse_sender_options_range [OF assms(1)] by (auto simp: word_less_nat_alt word_le_nat_alt)
  have "\<exists>frames. length frames = length ([] :: bytes list) + unat (so_frame_count opts) \<and> sender_inv env opts frames st1
      \<and> figures_noted env opts (length frames) (opened_log env opts) st1 \<and> numbers_noted frames st1
      \<and> pi_metrics (sg_io st1) = pi_metrics (sg_io st)"
    using send_frames_noted [of opts env "unat (so_frame_count opts)" "[]" st st1 "opened_log env opts"] assms(4)
      sender_start_inv [OF assms(3,2)] rate started_sending(1,2) [OF assms(3)] unat_u64_less [of "so_frame_count opts"]
    by simp
  then show thesis using that by auto
qed

section \<open>Properties\<close>

text \<open>
  C16: the sender's report is exact.  After a run that returns 0 the metrics file holds what it held
  before, the header, and one line that is the reference's over the frames sent and the clock readings
  of all turns: the ids of the first and the last frame, their number, average, maximum and percentile
  of the periods, the lateness of every frame against its due time, how often it was above the deadline,
  and the times to encode, to send and in all.
\<close>

theorem sender_report_exact:
  assumes "parse_sender_options args = Inr opts" and "honest_stream 0 (se_answers env)"
    and "sender_main show_double now env args = (Returned 0 pio, wire, fs)"
  shows "\<exists>frames metrics_file. wire = concat frames \<and> length frames = unat (so_frame_count opts)
    \<and> se_metrics_file env = Some metrics_file
    \<and> pi_metrics pio = metrics_file @ [metrics_header, metrics_line show_double now (sender_report env opts frames)]"
proof -
  obtain st where start: "sender_start env opts = Inr st"
    using assms(1,3) by (auto simp: sender_main_def sender_start_def sender_connect_def Let_def
        split: sum.splits prod.splits bool.splits option.splits if_splits)
  have rate: "0 < so_rate_hz opts" "so_rate_hz opts \<le> kMaxSampleRateHz"
    using parse_sender_options_range [OF assms(1)] by (auto simp: word_less_nat_alt word_le_nat_alt)
  obtain res st1 where run: "send_frames opts (se_schedule_start env) (se_turn env) (unat (so_frame_count opts)) 0 st = (res, st1)"
    by (metis surj_pair)
  then have "\<exists>c. c \<in> {2, 9, 10} \<and> res = Some c" if "res \<noteq> None"
    using that send_frames_spec [of opts "se_schedule_start env" env "unat (so_frame_count opts)" "[]" st res st1]
      sender_start_inv [OF start assms(2)] rate unat_u64_less [of "so_frame_count opts"] by auto
  then have loop: "send_frames opts (se_schedule_start env) (se_turn env) (unat (so_frame_count opts)) 0 st = (None, st1)"
    using assms(1,3) start run by (cases res) (auto simp: sender_main_def)
  obtain st2 where fin: "sender_finish show_double now env opts st1 = (0, st2)" "pio = sg_io st2" "wire = sg_wire st2"
    using assms(1,3) start loop by (auto simp: sender_main_def split: prod.splits)
  obtain frames where frames: "length frames = unat (so_frame_count opts)" "sender_inv env opts frames st1"
    "figures_noted env opts (length frames) (opened_log env opts) st1" "numbers_noted frames st1"
    "pi_metrics (sg_io st1) = pi_metrics (sg_io st)"
    by (rule loop_noted [OF assms(1,2) start loop])
  have "wire = concat frames" using sender_finish_spec [OF fin(1) frames(2)] frames(2) fin(3) by (simp add: sender_inv_def)
  moreover have "pi_metrics pio = pi_metrics (sg_io st) @ [metrics_line show_double now (sender_report env opts frames)]"
    using finish_metrics [OF fin(1)] noted_snapshot [OF frames(3,4,2)] frames(5) fin(2) by simp
  ultimately show ?thesis using frames(1) started_sending(4) [OF start] by auto
qed



section \<open>Instances\<close>

theorem sender_report_exact_witness:
  "\<exists>pio wire f. sender_main (\<lambda>_. []) [] quiet_sender_env (sender_command_line one_send_options) = (Returned 0 pio, wire, [])
     \<and> wire = f
     \<and> pi_metrics pio = [metrics_header, metrics_line (\<lambda>_. []) [] (sender_report quiet_sender_env one_send_options [f])]"
proof -
  obtain pio wire where run: "sender_main (\<lambda>_. []) [] quiet_sender_env (sender_command_line one_send_options)
    = (Returned 0 pio, wire, [])" using quiet_run by blast
  obtain frames where "wire = concat frames" "length frames = 1"
    "pi_metrics pio = [metrics_header, metrics_line (\<lambda>_. []) [] (sender_report quiet_sender_env one_send_options frames)]"
    using sender_report_exact [OF parse_one_send honest_quiet run]
    by (auto simp: one_send_options_def quiet_sender_env_def)
  moreover then obtain f where "frames = [f]" by (auto simp: length_Suc_conv)
  ultimately show ?thesis using run by auto
qed








end
