(* ===== verification/Legacy_T510.thy ===== *)
theory Legacy_T510
  imports Decimal Binary64
begin

text \<open>
  The importer of the old T510 recordings, \<open>lgfT510.{h,cpp}\<close> and \<open>packet_parser.cpp\<close>: packets are cut out
  of a file of 64-bit words at their headers and their samples sorted by channel.  All
  sizes are \<open>size_t\<close> and wrap.  A pointer into the file is the index of its word, and what lies in
  memory behind the file is an argument.
\<close>

unbundle bit_operations_syntax

section \<open>\<open>lgfT510.h\<close>\<close>

definition HEADER_LEN :: u64 where "HEADER_LEN = 8"
definition ZHEN_LEN :: u64 where "ZHEN_LEN = (512 * 1024) div 8"

definition STARTWORD1 :: u64 where "STARTWORD1 = 0xFFEEDDCCBBAA9988"
definition STARTWORD2 :: u64 where "STARTWORD2 = 0x7766554433221100"
definition SYNC_WORD :: u64 where "SYNC_WORD = 0xFFFFFFFFFFFFFFFF"
definition SYNC_WORD_ALT :: u64 where "SYNC_WORD_ALT = 0xFFFFFFFF00000000"
definition STOPWORD1 :: u64 where "STOPWORD1 = 0x0011223344556677"
definition STOPWORD2 :: u64 where "STOPWORD2 = 0x8899AABBCCDDEEFF"

record packet =
  pk_package_id :: u64
  pk_data_id :: u64
  pk_data_ptr :: u64
  pk_data_len :: u64

text \<open>The result, an \<open>int32_t\<close>, as a number; the subtraction is done in 64 bits.\<close>

definition convert_uint32_to_int32 :: "u32 \<Rightarrow> int" where
  "convert_uint32_to_int32 x = (if x AND 0x80000000 \<noteq> 0 then - (0x100000000 - uint x) else uint x)"

section \<open>\<open>lgfT510.cpp\<close>\<close>

type_synonym memory = "u64 \<Rightarrow> u64"

definition is_valid_header :: "memory \<Rightarrow> u64 \<Rightarrow> u64 \<Rightarrow> bool" where
  "is_valid_header buf i total_len \<longleftrightarrow>
     (if total_len < i + HEADER_LEN then False
      else buf i = STARTWORD2 \<and> buf (i + 1) = STARTWORD1 \<and>
           (buf (i + 3) = SYNC_WORD \<or> buf (i + 3) = SYNC_WORD_ALT) \<and>
           buf (i + 5) = SYNC_WORD \<and> buf (i + 6) = STOPWORD2 \<and> buf (i + 7) = STOPWORD1)"

definition parse_packet :: "memory \<Rightarrow> u64 \<Rightarrow> u64 \<Rightarrow> packet" where
  "parse_packet buf i num =
     \<lparr>pk_package_id = buf (i + 2), pk_data_id = buf (i + 4), pk_data_ptr = i + HEADER_LEN, pk_data_len = num\<rparr>"

text \<open>\<open>PACKET_LEN\<close> is computed in 32 bits.\<close>

definition packet_len :: "u32 \<Rightarrow> u64" where
  "packet_len DATA_LEN = ucast (8 + DATA_LEN)"

definition search_bound :: "u64 \<Rightarrow> u32 \<Rightarrow> u64 \<Rightarrow> u64" where
  "search_bound total_len DATA_LEN i = total_len - packet_len DATA_LEN - i - HEADER_LEN"

text \<open>The inner loop: the distance to the next header.\<close>

function find_header :: "memory \<Rightarrow> u64 \<Rightarrow> u64 \<Rightarrow> u64 \<Rightarrow> u64 \<Rightarrow> u64" where
  "find_header buf total_len i max_j j =
     (if j < max_j
      then if is_valid_header buf (i + j + HEADER_LEN) total_len then j else find_header buf total_len i max_j (j + 1)
      else j)"
  by pat_completeness auto
termination
  by (relation "measure (\<lambda>(buf, total_len, i, max_j, j). unat max_j - unat j)")
    (auto simp: word_Suc_less word_less_nat_alt)

declare find_header.simps [simp del]

text \<open>The mark in front of a line about lost packets, two characters in UTF-8.\<close>

definition lost_mark :: string where
  "lost_mark = ''['' @ map char_of [0xE4, 0xB8, 0xA2, 0xE5, 0x8C, 0x85 :: nat] @ '']''"

text \<open>The packets found so far, the last id if there is one, and the lines printed.\<close>

record t510_scan =
  sc_packets :: "packet list"
  sc_last_id :: "u64 option"
  sc_printed :: "string list"

definition note_packet :: "packet \<Rightarrow> t510_scan \<Rightarrow> t510_scan" where
  "note_packet pkt s =
     \<lparr>sc_packets = sc_packets s @ [pkt], sc_last_id = Some (pk_package_id pkt),
      sc_printed = (case sc_last_id s of
        Some last_id \<Rightarrow>
          if pk_package_id pkt \<noteq> last_id + 1
          then sc_printed s @ [lost_mark @ '' expected '' @ to_string (unat (last_id + 1)) @ '', got '' @ to_string (unat (pk_package_id pkt))]
          else sc_printed s
      | None \<Rightarrow> sc_printed s)\<rparr>"

text \<open>The outer loop; \<open>None\<close> is a loop that does not end.\<close>

partial_function (option) scan_loop :: "memory \<Rightarrow> u64 \<Rightarrow> u32 \<Rightarrow> u64 \<Rightarrow> t510_scan \<Rightarrow> t510_scan option" where
  "scan_loop buf total_len DATA_LEN i s =
     (if i < total_len - packet_len DATA_LEN
      then if is_valid_header buf i total_len
        then let j = find_header buf total_len i (search_bound total_len DATA_LEN i) 0
             in if ucast DATA_LEN \<le> j
                then scan_loop buf total_len DATA_LEN (i + (HEADER_LEN + j)) (note_packet (parse_packet buf i j) s)
                else scan_loop buf total_len DATA_LEN (i + (HEADER_LEN + j)) s
        else scan_loop buf total_len DATA_LEN (i + 1) s
      else Some s)"

definition parse_stream :: "memory \<Rightarrow> u64 \<Rightarrow> u32 \<Rightarrow> t510_scan option" where
  "parse_stream uint64_list total_len DATA_LEN =
     scan_loop uint64_list total_len DATA_LEN 0 \<lparr>sc_packets = [], sc_last_id = None, sc_printed = []\<rparr>"

section \<open>\<open>packet_parser.cpp\<close>\<close>

definition ch_N :: nat where "ch_N = 64"
definition pa_N :: nat where "pa_N = 2 * ch_N"
definition D_NUM :: nat where "D_NUM = 1024 div ch_N"
definition DATA_LEN :: u32 where "DATA_LEN = 1024"

text \<open>\<open>convert_packet\<close>: each word gives its low and its high half.\<close>

definition convert_packet :: "memory \<Rightarrow> u64 \<Rightarrow> nat \<Rightarrow> int list" where
  "convert_packet buf src len =
     fold (\<lambda>i dst. let val = buf (src + of_nat i);
                     a = (ucast (val AND 0xFFFFFFFF) :: u32);
                     b = (ucast (drop_bit 32 val AND 0xFFFFFFFF) :: u32)
                 in dst[2 * i := convert_uint32_to_int32 a, 2 * i + 1 := convert_uint32_to_int32 b])
       [0..<len] (replicate (len * 2) 0)"

text \<open>\<open>(float) x\<close>: 24 significant bits, ties to even.\<close>

definition float_of_int32 :: "int \<Rightarrow> rat" where
  "float_of_int32 x =
     (let a = rat_of_int \<bar>x\<bar>; ulp = 2 powi (binade a - 23);
          r = (if x = 0 then 0 else of_int (round_half_even (a / ulp)) * ulp)
      in if x < 0 then - r else r)"

text \<open>The two inner loops over a packet, and the loop over the packets.\<close>

definition place_packet :: "memory \<Rightarrow> nat \<Rightarrow> nat \<Rightarrow> packet \<Rightarrow> (rat \<times> rat) list \<Rightarrow> (rat \<times> rat) list" where
  "place_packet buf N i pkt ch_data =
     (let tmp = convert_packet buf (pk_data_ptr pkt) (unat (pk_data_len pkt))
      in fold (\<lambda>j. fold (\<lambda>ch ch_data.
             let base = pa_N * j; re = tmp ! (base + 2 * ch); im = tmp ! (base + 2 * ch + 1);
                 idx = ch * N * D_NUM + D_NUM * i + j
             in ch_data[idx := (float_of_int32 re, float_of_int32 im)]) [0..<ch_N]) [0..<D_NUM] ch_data)"

definition place_packets :: "memory \<Rightarrow> packet list \<Rightarrow> (rat \<times> rat) list" where
  "place_packets buf packets =
     (let N = length packets
      in fold (\<lambda>i. place_packet buf N i (packets ! i)) [0..<N] (replicate (ch_N * N * D_NUM) (0, 0)))"

text \<open>
  How the importer ends: with code 1, or with the names of the two files, the channel data and the
  ids written to them, and the lines about lost packets.
\<close>

datatype t510_outcome =
    T510_failed
  | T510_done (t510_names: "string \<times> string") (t510_channels: "(rat \<times> rat) list") (t510_ids: "u64 list")
      (t510_printed: "string list")

text \<open>\<open>snprintf\<close> into buffers of 512 bytes.\<close>

definition output_files :: "string \<Rightarrow> string \<times> string" where
  "output_files output_prefix = (take 511 (output_prefix @ ''_complex.bin''), take 511 (output_prefix @ ''_id.bin''))"

text \<open>
  \<open>main\<close> on a mapped file: its words, how many of them the file has, and \<open>None\<close> if it cannot be opened
  or mapped.
\<close>

definition t510_main :: "(memory \<times> u64) option \<Rightarrow> string list \<Rightarrow> t510_outcome option" where
  "t510_main mapping args =
     (if length args \<noteq> 2 then Some T510_failed
      else case mapping of
        None \<Rightarrow> Some T510_failed
      | Some (data, u64_count) \<Rightarrow>
          let skip = 16 * ZHEN_LEN; buf = (\<lambda>i. data (skip + i))
          in map_option (\<lambda>s. T510_done (output_files (args ! 1)) (place_packets buf (sc_packets s)) (map pk_package_id (sc_packets s)) (sc_printed s))
               (parse_stream buf (u64_count - skip) DATA_LEN))"

section \<open>Samples\<close>

lemma bit_31_iff: "(x :: u32) AND 0x80000000 \<noteq> 0 \<longleftrightarrow> 2 ^ 31 \<le> uint x"
proof -
  have "x AND 0x80000000 \<noteq> 0 \<longleftrightarrow> bit x 31"
    using bit_iff_and_push_bit_not_eq_0 [of x 31] by simp
  also have "\<dots> \<longleftrightarrow> bit (uint x) 31" by (simp only: bit_uint_iff) simp
  also have "\<dots> \<longleftrightarrow> odd (uint x div 2 ^ 31)" by (rule bit_iff_odd)
  also have "\<dots> \<longleftrightarrow> 2 ^ 31 \<le> uint x"
  proof -
    have "uint x < 2 ^ 32" using uint_bounded [of x] by simp
    then show ?thesis
    proof (cases "2 ^ 31 \<le> uint x")
      case True
      then have "uint x div 2 ^ 31 = 1" using \<open>uint x < 2 ^ 32\<close> by (intro int_div_pos_eq [of _ _ _ "uint x - 2 ^ 31"]) simp_all
      then show ?thesis using True by simp
    next
      case False
      then have "uint x div 2 ^ 31 = 0" by (intro div_pos_pos_trivial) simp_all
      then show ?thesis using False by simp
    qed
  qed
  finally show ?thesis .
qed

lemma convert_is_signed: "convert_uint32_to_int32 x = sint x"
proof -
  let ?s = "convert_uint32_to_int32 x"
  have u: "0 \<le> uint x" "uint x < 2 ^ 32" using uint_bounded [of x] by simp_all
  have "- (2 ^ 31) \<le> ?s \<and> ?s < 2 ^ 31"
  proof (cases "2 ^ 31 \<le> uint x")
    case True
    then have "?s = uint x - 2 ^ 32" by (simp add: convert_uint32_to_int32_def bit_31_iff)
    then show ?thesis using True u by simp
  next
    case False
    then have "?s = uint x" by (simp add: convert_uint32_to_int32_def bit_31_iff)
    then show ?thesis using False u by (simp add: order_trans [of _ 0])
  qed
  then have "signed_take_bit 31 ?s = ?s" by (intro signed_take_bit_int_eq_self) simp_all
  moreover have "word_of_int ?s = x" by (simp add: convert_uint32_to_int32_def)
  moreover have "sint (word_of_int ?s :: u32) = signed_take_bit 31 ?s" by (simp add: signed_of_int)
  ultimately show ?thesis by simp
qed

section \<open>Headers\<close>

text \<open>Headers do not overlap: no word of a header can begin another one.\<close>

lemma headers_apart:
  assumes "is_valid_header buf i n" "is_valid_header buf (i + k) n" "0 < k" "k < 8"
  shows False
proof -
  have "k = 1 \<or> k = 2 \<or> k = 3 \<or> k = 4 \<or> k = 5 \<or> k = 6 \<or> k = 7"
  proof -
    have "unat k = 1 \<or> unat k = 2 \<or> unat k = 3 \<or> unat k = 4 \<or> unat k = 5 \<or> unat k = 6 \<or> unat k = 7"
      using assms(3,4) by (auto simp: word_less_nat_alt)
    then show ?thesis by (simp add: word_unat_eq_iff)
  qed
  then show False
    using assms(1,2)
    by (elim disjE)
      (simp_all add: is_valid_header_def STARTWORD1_def STARTWORD2_def SYNC_WORD_def SYNC_WORD_ALT_def
        STOPWORD1_def STOPWORD2_def add.assoc split: if_splits)
qed

text \<open>The first header from \<open>a\<close> on, or the end of the search.\<close>

definition first_header :: "(nat \<Rightarrow> bool) \<Rightarrow> nat \<Rightarrow> nat \<Rightarrow> nat" where
  "first_header hdr a b = hd (filter hdr [a..<b] @ [b])"

lemma first_header_step:
  "a < b \<Longrightarrow> first_header hdr a b = (if hdr a then a else first_header hdr (Suc a) b)"
  by (simp add: first_header_def upt_conv_Cons)

lemma first_header_bounds: "a \<le> b \<Longrightarrow> a \<le> first_header hdr a b \<and> first_header hdr a b \<le> b"
proof (induction "b - a" arbitrary: a)
  case (Suc d)
  then have "a < b" by simp
  moreover from this have "Suc a \<le> first_header hdr (Suc a) b \<and> first_header hdr (Suc a) b \<le> b"
    using Suc.hyps by simp
  ultimately show ?case by (auto simp: first_header_step)
qed (simp add: first_header_def)

lemma first_header_filter:
  "a \<le> b \<Longrightarrow> filter hdr [first_header hdr a b..<b] = filter hdr [a..<b]"
proof (induction "b - a" arbitrary: a)
  case (Suc d)
  then have "a < b" by simp
  then show ?case using Suc.hyps(1) [of "Suc a"] Suc.hyps(2) by (auto simp: first_header_step upt_conv_Cons)
qed (simp add: first_header_def)

definition header_at :: "memory \<Rightarrow> nat \<Rightarrow> nat \<Rightarrow> bool" where
  "header_at buf words h \<longleftrightarrow> is_valid_header buf (of_nat h) (of_nat words)"

lemma find_header_first:
  assumes "j \<le> m" "i + 8 + m < 2 ^ 64"
  shows "find_header buf (of_nat words) (of_nat i) (of_nat m) (of_nat j)
    = of_nat (first_header (header_at buf words) (i + 8 + j) (i + 8 + m) - (i + 8))"
  using assms(1)
proof (induction "m - j" arbitrary: j)
  case 0
  then show ?case by (subst find_header.simps) (simp add: first_header_def)
next
  case (Suc d)
  then have less: "j < m" by simp
  then have lt: "((of_nat j :: u64) < of_nat m) = True" using assms(2) by (simp add: word_less_nat_alt word_less_of_nat)
  have idx: "of_nat i + of_nat j + HEADER_LEN = (of_nat (i + 8 + j) :: u64)" by (simp add: HEADER_LEN_def)
  have nxt: "of_nat j + 1 = (of_nat (Suc j) :: u64)" by simp
  have "find_header buf (of_nat words) (of_nat i) (of_nat m) (of_nat j)
      = (if header_at buf words (i + 8 + j) then of_nat j
         else find_header buf (of_nat words) (of_nat i) (of_nat m) (of_nat (Suc j)))"
    by (subst find_header.simps) (simp only: lt idx nxt header_at_def if_True)
  then show ?case
    using Suc.hyps(1) [of "Suc j"] Suc.hyps(2) less by (simp add: first_header_step)
qed

section \<open>What the scan finds\<close>

text \<open>The packets between the headers \<open>hs\<close>, the last one ending at \<open>limit\<close>.\<close>

fun cut_packets :: "memory \<Rightarrow> nat \<Rightarrow> nat \<Rightarrow> nat list \<Rightarrow> packet list" where
  "cut_packets buf data_len limit [] = []"
| "cut_packets buf data_len limit (h # hs) =
     (let len = hd (hs @ [limit]) - (h + 8)
      in if data_len \<le> len then parse_packet buf (of_nat h) (of_nat len) # cut_packets buf data_len limit hs
         else cut_packets buf data_len limit hs)"

definition headers_before :: "memory \<Rightarrow> nat \<Rightarrow> nat \<Rightarrow> nat \<Rightarrow> nat list" where
  "headers_before buf words i limit = filter (header_at buf words) [i..<limit]"

lemma headers_before_header:
  assumes "header_at buf words i" "i + 8 \<le> limit"
  shows "headers_before buf words i limit = i # headers_before buf words (i + 8) limit"
proof -
  have "[i..<limit] = i # [Suc i..<i + 8] @ [i + 8..<limit]"
    using assms(2) upt_add_eq_append [of "Suc i" "i + 8" "limit - (i + 8)"] by (simp add: upt_conv_Cons)
  moreover have "filter (header_at buf words) [Suc i..<i + 8] = []"
  proof (rule filter_False, rule ballI)
    fix h assume "h \<in> set [Suc i..<i + 8]"
    then obtain k where k: "h = i + k" "0 < k" "k < 8" by (auto dest: less_imp_add_positive simp: less_eq_Suc_le intro: that [of "h - i"])
    then have "0 < (of_nat k :: u64)" "(of_nat k :: u64) < 8"
      by (simp_all add: word_less_nat_alt word_less_of_nat)
    then show "\<not> header_at buf words h"
      using headers_apart [of buf "of_nat i" "of_nat words" "of_nat k"] assms(1) by (auto simp: header_at_def k(1))
  qed
  ultimately show ?thesis using assms(1) by (simp add: headers_before_def)
qed

lemma headers_before_none: "\<not> header_at buf words i \<Longrightarrow> i < limit \<Longrightarrow>
    headers_before buf words i limit = headers_before buf words (i + 1) limit"
  by (simp add: headers_before_def upt_conv_Cons)

lemma packet_len_nat: "8 + unat D < 2 ^ 32 \<Longrightarrow> packet_len D = of_nat (8 + unat D)"
  by (simp add: packet_len_def word_unat_eq_iff unsigned_ucast_eq take_bit_nat_eq_self unat_word_ariths word_less_of_nat)

lemma ucast_le_iff: "n < 2 ^ 64 \<Longrightarrow> (ucast (D :: u32) :: u64) \<le> of_nat n \<longleftrightarrow> unat D \<le> n"
  using unat_less_exp [of D]
  by (simp add: word_le_nat_alt unsigned_ucast_eq take_bit_nat_eq_self word_less_of_nat)

text \<open>One turn of the outer loop, in terms of the headers.\<close>

lemma scan_loop_turn:
  assumes "8 + unat D < 2 ^ 32" "words < 2 ^ 64" "8 + unat D \<le> words" "i < words - (8 + unat D)"
  defines "limit \<equiv> words - (8 + unat D)"
  shows "\<not> header_at buf words i \<Longrightarrow> scan_loop buf (of_nat words) D (of_nat i) s
      = scan_loop buf (of_nat words) D (of_nat (i + 1)) s"
    "header_at buf words i \<Longrightarrow> i + 8 \<le> limit \<Longrightarrow> h = first_header (header_at buf words) (i + 8) limit \<Longrightarrow>
      scan_loop buf (of_nat words) D (of_nat i) s = scan_loop buf (of_nat words) D (of_nat h)
        (if unat D \<le> h - (i + 8) then note_packet (parse_packet buf (of_nat i) (of_nat (h - (i + 8)))) s else s)"
proof -
  have bound: "of_nat words - packet_len D = (of_nat limit :: u64)"
    using assms(3) by (simp only: packet_len_nat [OF assms(1)] limit_def of_nat_diff)
  have range: "i < limit" "limit < 2 ^ 64" using assms(2,4) by (simp_all add: limit_def)
  then have less: "((of_nat i :: u64) < of_nat limit) = True" by (simp add: word_less_nat_alt word_less_of_nat)
  show "scan_loop buf (of_nat words) D (of_nat i) s = scan_loop buf (of_nat words) D (of_nat (i + 1)) s"
    if "\<not> header_at buf words i"
    using that by (subst scan_loop.simps) (simp add: bound less header_at_def add.commute [of "1 :: u64"])
  assume hdr: "header_at buf words i" and room: "i + 8 \<le> limit" and h: "h = first_header (header_at buf words) (i + 8) limit"
  let ?m = "limit - (i + 8)"
  have "search_bound (of_nat words) D (of_nat i) = of_nat limit - of_nat (i + 8)"
    by (simp add: search_bound_def bound HEADER_LEN_def)
  then have "search_bound (of_nat words) D (of_nat i) = of_nat ?m" using room by (simp only: of_nat_diff)
  moreover have "find_header buf (of_nat words) (of_nat i) (of_nat ?m) (of_nat 0) = of_nat (h - (i + 8))"
    using find_header_first [of 0 ?m i buf words] room range by (simp add: h)
  ultimately have j: "find_header buf (of_nat words) (of_nat i) (search_bound (of_nat words) D (of_nat i)) 0 = of_nat (h - (i + 8))"
    by simp
  have h_bounds: "i + 8 \<le> h" "h \<le> limit" using first_header_bounds [OF room] by (simp_all add: h)
  then have "of_nat i + (HEADER_LEN + of_nat (h - (i + 8))) = (of_nat (i + 8 + (h - (i + 8))) :: u64)"
    by (simp only: HEADER_LEN_def of_nat_add of_nat_numeral add.assoc)
  then have next_i: "of_nat i + (HEADER_LEN + of_nat (h - (i + 8))) = (of_nat h :: u64)" using h_bounds by simp
  have small: "h - (i + 8) < 2 ^ 64" using h_bounds range by simp
  show "scan_loop buf (of_nat words) D (of_nat i) s = scan_loop buf (of_nat words) D (of_nat h)
        (if unat D \<le> h - (i + 8) then note_packet (parse_packet buf (of_nat i) (of_nat (h - (i + 8)))) s else s)"
    using hdr by (subst scan_loop.simps) (simp add: bound less header_at_def j next_i ucast_le_iff [OF small] Let_def)
qed

lemma scan_loop_cuts:
  assumes "8 + unat D < 2 ^ 32" "words < 2 ^ 64" "8 + unat D \<le> words"
  defines "limit \<equiv> words - (8 + unat D)"
  shows "i \<le> limit \<Longrightarrow> \<forall>h\<in>set (headers_before buf words i limit). h + 8 \<le> limit \<Longrightarrow>
    scan_loop buf (of_nat words) D (of_nat i) s
      = Some (fold note_packet (cut_packets buf (unat D) limit (headers_before buf words i limit)) s)"
proof (induction "limit - i" arbitrary: i s rule: less_induct)
  case less
  show ?case
  proof (cases "i < limit")
    case False
    then have "i = limit" using less.prems(1) by simp
    moreover have "of_nat words - packet_len D = (of_nat limit :: u64)"
      using assms(3) by (simp only: packet_len_nat [OF assms(1)] limit_def of_nat_diff)
    ultimately show ?thesis by (subst scan_loop.simps) (simp add: headers_before_def)
  next
    case True
    note turn = scan_loop_turn [OF assms(1-3) True [unfolded limit_def], of buf, folded limit_def]
    show ?thesis
    proof (cases "header_at buf words i")
      case False
      then show ?thesis
        using turn(1) [OF False] headers_before_none [OF False True] less.hyps [of "i + 1"] less.prems True by simp
    next
      case hdr: True
      then have "i \<in> set (headers_before buf words i limit)" using True by (simp add: headers_before_def)
      then have room: "i + 8 \<le> limit" using less.prems(2) by blast
      define h where "h = first_header (header_at buf words) (i + 8) limit"
      note split = headers_before_header [OF hdr room]
      have h: "i + 8 \<le> h" "h \<le> limit" using first_header_bounds [OF room] by (simp_all add: h_def)
      have rest: "headers_before buf words h limit = headers_before buf words (i + 8) limit"
        using first_header_filter [OF room] by (simp add: headers_before_def h_def)
      have first: "hd (headers_before buf words (i + 8) limit @ [limit]) = h"
        by (simp add: h_def first_header_def headers_before_def)
      have "scan_loop buf (of_nat words) D (of_nat h) s'
          = Some (fold note_packet (cut_packets buf (unat D) limit (headers_before buf words (i + 8) limit)) s')" for s'
        using less.hyps [of h s'] h less.prems(2) True unfolding rest split by auto
      then show ?thesis
        unfolding turn(2) [OF hdr room h_def] split by (simp add: first Let_def)
    qed
  qed
qed

section \<open>The lines about lost packets\<close>

definition lost_lines :: "u64 list \<Rightarrow> string list" where
  "lost_lines ids =
     map (\<lambda>(a, b). lost_mark @ '' expected '' @ to_string (unat (a + 1)) @ '', got '' @ to_string (unat b))
       (filter (\<lambda>(a, b). b \<noteq> a + 1) (zip ids (tl ids)))"

lemma note_packets:
  "fold note_packet packets \<lparr>sc_packets = [], sc_last_id = None, sc_printed = []\<rparr>
    = \<lparr>sc_packets = packets, sc_last_id = (if packets = [] then None else Some (pk_package_id (last packets))),
       sc_printed = lost_lines (map pk_package_id packets)\<rparr>"
proof (induction packets rule: rev_induct)
  case (snoc p ps)
  have "zip (xs @ [x]) (tl (xs @ [x])) = (if xs = [] then [] else zip xs (tl xs) @ [(last xs, x)])" for xs :: "u64 list" and x
    by (induction xs) (auto simp: neq_Nil_conv)
  then show ?case using snoc by (simp add: note_packet_def lost_lines_def last_map)
qed (simp add: lost_lines_def)

section \<open>Recordings with packets of one length\<close>

lemma headers_of_regular:
  assumes "\<And>h. h < m * p \<Longrightarrow> header_at buf words h \<longleftrightarrow> p dvd h" "0 < p"
  shows "headers_before buf words 0 (m * p) = map (\<lambda>k. k * p) [0..<m]"
proof -
  have "filter (\<lambda>h. p dvd h) [0..<m * p] = map (\<lambda>k. k * p) [0..<m]" for m
  proof (induction m)
    case (Suc m)
    have "[0..<Suc m * p] = [0..<m * p] @ m * p # [Suc (m * p)..<m * p + p]"
      using upt_add_eq_append [of 0 "m * p" p] assms(2) by (simp add: add.commute upt_conv_Cons)
    moreover have "filter (\<lambda>h. p dvd h) [Suc (m * p)..<m * p + p] = []"
    proof (rule filter_False, rule ballI)
      fix h assume h: "h \<in> set [Suc (m * p)..<m * p + p]"
      show "\<not> p dvd h"
      proof
        assume "p dvd h"
        then obtain q where "h = p * q" by (rule dvdE)
        moreover have "p * m < h" "h < p * m + p" using h unfolding mult.commute [of m p] by (simp_all add: Suc_le_eq)
        ultimately have "p * m < p * q" "p * q < p * Suc m" by (simp_all only: mult_Suc_right add.commute)
        then show False by (simp only: mult_less_cancel1 less_Suc_eq_le) simp
      qed
    qed
    ultimately show ?case using Suc by simp
  qed simp
  moreover have "headers_before buf words 0 (m * p) = filter (\<lambda>h. p dvd h) [0..<m * p]"
    unfolding headers_before_def by (rule filter_cong) (simp_all add: assms(1))
  ultimately show ?thesis by simp
qed

lemma cut_regular:
  assumes "p = 8 + d"
  shows "a \<le> m \<Longrightarrow> cut_packets buf d (m * p) (map (\<lambda>k. k * p) [a..<m])
    = map (\<lambda>k. parse_packet buf (of_nat (k * p)) (of_nat d)) [a..<m]"
proof (induction "m - a" arbitrary: a)
  case (Suc n)
  then have less: "a < m" by simp
  have "hd (map (\<lambda>k. k * p) [Suc a..<m] @ [m * p]) = Suc a * p"
    using less by (cases "Suc a = m") (auto simp: upt_conv_Cons)
  then show ?case
    using Suc.hyps(1) [of "Suc a"] Suc.hyps(2) less by (simp add: upt_conv_Cons Let_def assms del: mult_Suc)
      (simp add: algebra_simps)
qed simp

section \<open>A scan that does not end\<close>

lemma find_header_stops:
  "j \<le> j0 \<Longrightarrow> j0 < max_j \<Longrightarrow> is_valid_header buf (i + j0 + HEADER_LEN) n \<Longrightarrow>
    is_valid_header buf (i + find_header buf n i max_j j + HEADER_LEN) n"
proof (induction buf n i max_j j rule: find_header.induct)
  case (1 buf n i max_j j)
  show ?case
  proof (cases "is_valid_header buf (i + j + HEADER_LEN) n")
    case True
    then show ?thesis using "1.prems" by (subst find_header.simps) simp
  next
    case False
    then have "j \<noteq> j0" using "1.prems" by auto
    then have "j + 1 \<le> j0" "j < max_j" using "1.prems" by (auto simp: inc_le)
    then show ?thesis using "1.IH" [OF _ False] "1.prems" False by (subst find_header.simps) simp
  qed
qed

lemma scan_never_ends:
  assumes D: "8 + unat D < 2 ^ 32" and words: "words < 2 ^ 64" "8 + unat D \<le> words"
    and h: "header_at buf words h" "words < h + 8 + unat D + 8" "h + 8 + unat D < words"
    and last: "\<And>x. of_nat h < x \<Longrightarrow> \<not> is_valid_header buf x (of_nat words)"
    and i: "i \<le> of_nat h"
  shows "scan_loop buf (of_nat words) D i s = None"
proof -
  let ?n = "of_nat words :: u64" and ?limit = "words - (8 + unat D)"
  have bound: "?n - packet_len D = of_nat ?limit" by (simp only: packet_len_nat [OF D] of_nat_diff [OF words(2)])
  obtain c where limit: "?limit = h + c" and c: "0 < c" "c < 8" and small: "h + c < 2 ^ 64"
  proof (rule that [of "?limit - h"])
    show "?limit = h + (?limit - h)" "0 < ?limit - h" "?limit - h < 8" "h + (?limit - h) < 2 ^ 64" using h words by arith+
  qed
  have far: "of_nat h - x - HEADER_LEN < of_nat (h + c) - x - HEADER_LEN"
    if x: "x \<le> of_nat h" "is_valid_header buf x ?n" for x
  proof (cases "x = of_nat h")
    case True
    have "c = 1 \<or> c = 2 \<or> c = 3 \<or> c = 4 \<or> c = 5 \<or> c = 6 \<or> c = 7" using c by arith
    moreover have "of_nat (h + c) - x = (of_nat c :: u64)" by (simp add: True)
    ultimately show ?thesis by (elim disjE)
      (simp_all add: True HEADER_LEN_def word_less_nat_alt unsigned_minus_1_eq_mask mask_eq_exp_minus_1)
  next
    case False
    define a where "a = unat x"
    have x_a: "x = of_nat a" by (simp add: a_def)
    have "x < of_nat h" using x(1) False by simp
    then have "a < h" using small by (simp add: a_def word_less_nat_alt word_less_of_nat)
    then obtain k where k: "h = a + k" "0 < k" using less_imp_add_positive by blast
    have "8 \<le> k"
    proof (rule ccontr)
      assume "\<not> 8 \<le> k"
      then have "0 < (of_nat k :: u64)" "(of_nat k :: u64) < 8" using k(2) by (simp_all add: word_less_nat_alt word_less_of_nat)
      moreover have "is_valid_header buf (x + of_nat k) ?n" using h(1) by (simp add: header_at_def x_a k(1))
      ultimately show False using headers_apart [OF x(2)] by blast
    qed
    then obtain d where d: "k = 8 + d" by (rule le_Suc_ex [THEN exE])
    have "of_nat h - x - HEADER_LEN = (of_nat d :: u64)" "of_nat (h + c) - x - HEADER_LEN = (of_nat (d + c) :: u64)"
      by (simp_all add: x_a k(1) d HEADER_LEN_def)
    moreover have "(of_nat d :: u64) < of_nat (d + c)"
      using small c by (simp add: word_less_nat_alt word_less_of_nat k(1) d del: of_nat_add)
    ultimately show ?thesis by (simp only:)
  qed
  have stays: "x + (HEADER_LEN + find_header buf ?n x (search_bound ?n D x) 0) \<le> of_nat h"
    if x: "x \<le> of_nat h" "is_valid_header buf x ?n" for x
  proof -
    have "is_valid_header buf (x + (of_nat h - x - HEADER_LEN) + HEADER_LEN) ?n" using h(1) by (simp add: header_at_def)
    from find_header_stops [OF _ far [OF x] this, of 0]
    have "is_valid_header buf (x + find_header buf ?n x (search_bound ?n D x) 0 + HEADER_LEN) ?n"
      by (simp add: search_bound_def bound limit del: of_nat_add)
    then have "\<not> of_nat h < x + find_header buf ?n x (search_bound ?n D x) 0 + HEADER_LEN" using last by blast
    then show ?thesis by (simp add: add.assoc add.commute [of HEADER_LEN])
  qed
  have "\<not> (buf = buf \<and> ?n = ?n \<and> D = D \<and> i \<le> of_nat h)" if "scan_loop buf ?n D i s = Some y" for y
  proof (rule scan_loop.raw_induct [where P = "\<lambda>buf' n D' x s y. \<not> (buf' = buf \<and> n = ?n \<and> D' = D \<and> x \<le> of_nat h)",
        OF _ that], rule notI)
    fix f buf' n D' x s y
    assume IH: "\<And>buf' n D' x s y. f buf' n D' x s = Some y \<Longrightarrow> \<not> (buf' = buf \<and> n = ?n \<and> D' = D \<and> x \<le> of_nat h)"
      and same: "buf' = buf \<and> n = ?n \<and> D' = D \<and> x \<le> of_nat h"
      and turn: "(if x < n - packet_len D'
        then if is_valid_header buf' x n
          then let j = find_header buf' n x (search_bound n D' x) 0
               in if ucast D' \<le> j then f buf' n D' (x + (HEADER_LEN + j)) (note_packet (parse_packet buf' x j) s)
                  else f buf' n D' (x + (HEADER_LEN + j)) s
          else f buf' n D' (x + 1) s
        else Some s) = Some y"
    have again: "f buf ?n D x' s' \<noteq> Some y" if "x' \<le> of_nat h" for x' s' using IH that by blast
    have "unat x < h + c" using same c small by (simp add: word_le_nat_alt word_less_of_nat)
    then have "x < of_nat (h + c)" using small by (simp add: word_less_nat_alt word_less_of_nat del: of_nat_add)
    then have going: "x < ?n - packet_len D" by (simp only: bound limit)
    show False
    proof (cases "is_valid_header buf x ?n")
      case True
      then show False using turn same going again [OF stays [of x]] by (simp add: Let_def split: if_splits)
    next
      case False
      then have "x \<noteq> of_nat h" using h(1) by (auto simp: header_at_def)
      then have "x < of_nat h" using same by (auto simp: order.order_iff_strict)
      then have "x + 1 \<le> of_nat h" using word_Suc_less by blast
      then show False using turn same going False again by simp
    qed
  qed
  then show ?thesis using i by (cases "scan_loop buf ?n D i s") auto
qed

section \<open>The channels\<close>

lemma fold_updates_nth:
  assumes "distinct (map f ks)" "k \<in> set ks" "f k < length xs"
  shows "fold (\<lambda>k xs. xs[f k := g k]) ks xs ! f k = g k"
  using assms
proof (induction ks arbitrary: xs)
  case (Cons a ks)
  show ?case
  proof (cases "k \<in> set ks")
    case True
    then show ?thesis using Cons by simp
  next
    case False
    have other: "fold (\<lambda>k xs. xs[f k := g k]) ks ys ! n = ys ! n" if "n \<notin> f ` set ks" for ys n
      using that by (induction ks arbitrary: ys) auto
    from False have "k = a" "f k \<notin> f ` set ks" using Cons.prems by auto
    then show ?thesis using Cons.prems(3) by (simp add: other)
  qed
qed simp

lemma length_fold_updates [simp]: "length (fold (\<lambda>k xs. xs[f k := g k]) ks xs) = length xs"
  by (induction ks arbitrary: xs) auto

lemma length_convert_packet [simp]: "length (convert_packet buf src len) = 2 * len"
proof -
  have "length (fold (\<lambda>i (dst :: int list). let val = buf (src + of_nat i);
                     a = (ucast (val AND 0xFFFFFFFF) :: u32);
                     b = (ucast (drop_bit 32 val AND 0xFFFFFFFF) :: u32)
                 in dst[2 * i := convert_uint32_to_int32 a, 2 * i + 1 := convert_uint32_to_int32 b]) is dst) = length dst"
    for "is" dst
    by (induction "is" arbitrary: dst) (simp_all add: Let_def)
  then show ?thesis by (simp add: convert_packet_def mult.commute)
qed

text \<open>The halves of a word, as signed numbers.\<close>

definition low_half :: "u64 \<Rightarrow> int" where "low_half w = sint (ucast w :: u32)"
definition high_half :: "u64 \<Rightarrow> int" where "high_half w = sint (ucast (drop_bit 32 w) :: u32)"

lemma pairs_nth:
  "length (concat (map (\<lambda>i. [f i, g i]) [0..<n])) = 2 * n"
  "k < n \<Longrightarrow> concat (map (\<lambda>i. [f i, g i]) [0..<n]) ! (2 * k) = f k"
  "k < n \<Longrightarrow> concat (map (\<lambda>i. [f i, g i]) [0..<n]) ! (2 * k + 1) = g k"
proof -
  show len: "length (concat (map (\<lambda>i. [f i, g i]) [0..<n])) = 2 * n" for n by (induction n) simp_all
  show "k < n \<Longrightarrow> concat (map (\<lambda>i. [f i, g i]) [0..<n]) ! (2 * k) = f k"
    by (induction n) (auto simp: nth_append len less_Suc_eq)
  show "k < n \<Longrightarrow> concat (map (\<lambda>i. [f i, g i]) [0..<n]) ! (2 * k + 1) = g k"
    by (induction n) (auto simp: nth_append len less_Suc_eq)
qed

lemma convert_packet_nth:
  assumes "k < len"
  shows "convert_packet buf src len ! (2 * k) = low_half (buf (src + of_nat k))
     \<and> convert_packet buf src len ! (2 * k + 1) = high_half (buf (src + of_nat k))"
proof -
  let ?word = "\<lambda>i. buf (src + of_nat i)"
  have mask: "(ucast (w AND 0xFFFFFFFF) :: u32) = ucast w" for w :: u64
  proof -
    have low: "(0xFFFFFFFF :: u64) = mask 32" by (simp add: mask_eq_exp_minus_1)
    show ?thesis unfolding low by (rule bit_word_eqI) (auto simp: bit_simps)
  qed
  have "fold (\<lambda>i (dst :: int list). let val = ?word i;
                     a = (ucast (val AND 0xFFFFFFFF) :: u32);
                     b = (ucast (drop_bit 32 val AND 0xFFFFFFFF) :: u32)
                 in dst[2 * i := convert_uint32_to_int32 a, 2 * i + 1 := convert_uint32_to_int32 b]) [0..<n] dst
      = concat (map (\<lambda>i. [low_half (?word i), high_half (?word i)]) [0..<n]) @ drop (2 * n) dst"
    if "2 * n \<le> length dst" for n dst
    using that
  proof (induction n)
    case (Suc n)
    have "drop (2 * n) dst = dst ! (2 * n) # drop (Suc (2 * n)) dst"
      "drop (Suc (2 * n)) dst = dst ! Suc (2 * n) # drop (2 * Suc n) dst"
      using Suc.prems Cons_nth_drop_Suc [of "2 * n" dst] Cons_nth_drop_Suc [of "Suc (2 * n)" dst] by simp_all
    then show ?case
      using Suc by (simp add: Let_def pairs_nth(1) mask convert_is_signed low_half_def high_half_def list_update_append)
  qed simp
  from this [of len "replicate (len * 2) 0"]
  have all: "convert_packet buf src len = concat (map (\<lambda>i. [low_half (?word i), high_half (?word i)]) [0..<len])"
    by (simp add: convert_packet_def)
  show ?thesis using assms unfolding all by (simp only: pairs_nth)
qed

text \<open>The two inner loops as one, over the pairs of \<open>j\<close> and \<open>ch\<close>; then all three.\<close>

definition channel_index :: "nat \<Rightarrow> nat \<times> nat \<times> nat \<Rightarrow> nat" where
  "channel_index N = (\<lambda>(i, j, ch). ch * N * 16 + 16 * i + j)"

definition channel_sample :: "memory \<Rightarrow> packet list \<Rightarrow> nat \<times> nat \<times> nat \<Rightarrow> rat \<times> rat" where
  "channel_sample buf packets = (\<lambda>(i, j, ch).
     let word = buf (pk_data_ptr (packets ! i) + of_nat (64 * j + ch))
     in (float_of_int32 (low_half word), float_of_int32 (high_half word)))"

definition places :: "nat \<Rightarrow> (nat \<times> nat \<times> nat) list" where
  "places N = concat (map (\<lambda>i. concat (map (\<lambda>j. map (\<lambda>ch. (i, j, ch)) [0..<64]) [0..<16])) [0..<N])"

lemma fold_concat_map: "fold f (concat (map g xs)) = fold (\<lambda>x. fold f (g x)) xs"
  by (induction xs) (simp_all add: fun_eq_iff)

lemma place_packet_places:
  assumes "1024 \<le> unat (pk_data_len (packets ! i))"
  shows "place_packet buf N i (packets ! i) chans
    = fold (\<lambda>k xs. xs[channel_index N k := channel_sample buf packets k])
        (concat (map (\<lambda>j. map (\<lambda>ch. (i, j, ch)) [0..<64]) [0..<16])) chans"
proof -
  let ?pkt = "packets ! i"
  let ?tmp = "convert_packet buf (pk_data_ptr ?pkt) (unat (pk_data_len ?pkt))"
  have sample: "(float_of_int32 (?tmp ! (128 * j + 2 * ch)), float_of_int32 (?tmp ! Suc (128 * j + 2 * ch)))
      = channel_sample buf packets (i, j, ch)" if "j < 16" "ch < 64" for j ch
  proof -
    have "64 * j + ch < unat (pk_data_len ?pkt)" using assms that by simp
    from convert_packet_nth [OF this, of buf "pk_data_ptr ?pkt"]
    show ?thesis by (simp add: channel_sample_def Let_def)
  qed
  have sizes: "pa_N = 128" "ch_N = 64" "D_NUM = 16" by (simp_all add: pa_N_def ch_N_def D_NUM_def)
  have turn: "(let base = 128 * j; re = ?tmp ! (base + 2 * ch); im = ?tmp ! (base + 2 * ch + 1); idx = ch * N * 16 + 16 * i + j
       in xs[idx := (float_of_int32 re, float_of_int32 im)])
    = xs[channel_index N (i, j, ch) := channel_sample buf packets (i, j, ch)]" if "j < 16" "ch < 64" for j ch xs
    using sample [OF that] by (simp add: Let_def channel_index_def)
  show ?thesis
    unfolding place_packet_def sizes Let_def [of "convert_packet _ _ _"] fold_concat_map fold_map o_def
    by (intro fold_cong ext refl) (simp only: turn set_upt atLeastLessThan_iff)
qed

lemma places_simps:
  "set (places N) = {(i, j, ch). i < N \<and> j < 16 \<and> ch < 64}" "distinct (places N)"
proof -
  show "set (places N) = {(i, j, ch). i < N \<and> j < 16 \<and> ch < 64}" by (force simp: places_def)
  have rows: "distinct (concat (map (\<lambda>j. map (\<lambda>ch. (i, j, ch)) [0..<64]) [0..<n]))" for i :: nat and n :: nat
    by (induction n) (auto simp: distinct_map inj_on_def)
  show "distinct (places N)"
    unfolding places_def using rows by (induction N) auto
qed

lemma channel_index_less:
  assumes "i < N" "j < 16" "ch < 64"
  shows "channel_index N (i, j, ch) < 64 * N * 16"
proof -
  have "16 * i + j < N * 16" using assms(1,2) by linarith
  moreover have "Suc ch * (N * 16) \<le> 64 * (N * 16)" using assms(3) by (intro mult_le_mono1) simp
  then have "ch * (N * 16) + N * 16 \<le> 64 * (N * 16)" by (simp only: mult_Suc add.commute)
  ultimately have "ch * (N * 16) + (16 * i + j) < 64 * (N * 16)" by linarith
  then show ?thesis by (simp only: channel_index_def prod.case mult.assoc add.assoc)
qed

lemma channel_index_inj: "inj_on (channel_index N) (set (places N))"
proof (rule inj_onI)
  fix k k' assume k: "k \<in> set (places N)" "k' \<in> set (places N)" and eq: "channel_index N k = channel_index N k'"
  obtain i j ch i' j' ch' where ks: "k = (i, j, ch)" "k' = (i', j', ch')" by (metis prod_cases3)
  have range: "i < N" "j < 16" "i' < N" "j' < 16" using k by (simp_all add: places_simps ks)
  have low: "16 * i + j < N * 16" "16 * i' + j' < N * 16" using range by linarith+
  have same: "ch * (N * 16) + (16 * i + j) = ch' * (N * 16) + (16 * i' + j')"
    using eq by (simp add: ks channel_index_def mult.assoc add.assoc)
  have split: "(c * M + r) div M = c \<and> (c * M + r) mod M = r" if "r < M" for c r M :: nat
    using that by (simp add: div_mult_self3)
  have "ch = ch'" using split [OF low(1), of ch] split [OF low(2), of ch'] unfolding same by simp
  moreover have block: "16 * i + j = 16 * i' + j'" using split [OF low(1), of ch] split [OF low(2), of ch'] unfolding same by simp
  have "i * 16 + j = i' * 16 + j'" using block by simp
  then have "i = i'" "j = j'" using split [OF range(2), of i] split [OF range(4), of i'] by simp_all
  ultimately show "k = k'" by (simp add: ks)
qed

text \<open>Sample \<open>j\<close> of channel \<open>ch\<close> of packet \<open>i\<close> lands at its place, and no other sample does.\<close>

lemma place_packets_nth:
  assumes "\<forall>p\<in>set packets. 1024 \<le> unat (pk_data_len p)"
  shows "length (place_packets buf packets) = 64 * length packets * 16"
    "i < length packets \<Longrightarrow> j < 16 \<Longrightarrow> ch < 64 \<Longrightarrow>
      place_packets buf packets ! channel_index (length packets) (i, j, ch) = channel_sample buf packets (i, j, ch)"
proof -
  let ?N = "length packets"
  have all: "place_packets buf packets
      = fold (\<lambda>k xs. xs[channel_index ?N k := channel_sample buf packets k]) (places ?N) (replicate (64 * ?N * 16) (0, 0))"
    unfolding place_packets_def Let_def places_def fold_concat_map [of _ _ "[0..<length packets]"] ch_N_def D_NUM_def
    using assms by (intro fold_cong ext) (simp_all add: place_packet_places)
  show "length (place_packets buf packets) = 64 * ?N * 16" unfolding all by simp
  assume "i < ?N" "j < 16" "ch < 64"
  moreover have "distinct (map (channel_index ?N) (places ?N))"
    using channel_index_inj places_simps(2) by (simp add: distinct_map)
  ultimately show "place_packets buf packets ! channel_index ?N (i, j, ch) = channel_sample buf packets (i, j, ch)"
    unfolding all by (intro fold_updates_nth) (simp_all add: places_simps channel_index_less [of i "length packets" j ch, simplified])
qed

section \<open>Properties\<close>

text \<open>
  C32: \<open>parse_stream\<close> finds what a plain search for headers finds.  When no
  header starts in the last eight words before \<open>total_len - PACKET_LEN\<close>, the scan ends, its packets are the
  stretches between one header and the next that hold at least \<open>DATA_LEN\<close> words, in order and with the
  ids in their headers, and it prints one line for every id that does not follow its predecessor.
\<close>

theorem parse_stream_cuts:
  assumes "8 + unat D < 2 ^ 32" and "words < 2 ^ 64" and "8 + unat D \<le> words"
    and "\<forall>h. header_at buf words h \<and> h < words - (8 + unat D) \<longrightarrow> h + 8 \<le> words - (8 + unat D)"
  shows "let limit = words - (8 + unat D);
      packets = cut_packets buf (unat D) limit (headers_before buf words 0 limit); ids = map pk_package_id packets
    in parse_stream buf (of_nat words) D
      = Some \<lparr>sc_packets = packets, sc_last_id = (if packets = [] then None else Some (last ids)), sc_printed = lost_lines ids\<rparr>"
  using scan_loop_cuts [OF assms(1-3), of 0 buf] assms(4)
  by (simp add: parse_stream_def note_packets headers_before_def last_map Let_def)

lemma parse_regular:
  assumes "0 < n" "n * 1032 < 2 ^ 64" "\<forall>h < n * 1032. header_at buf (n * 1032) h \<longleftrightarrow> 1032 dvd h"
  defines "packets \<equiv> map (\<lambda>k. parse_packet buf (of_nat (k * 1032)) 1024) [0..<n - 1]"
  shows "parse_stream buf (of_nat (n * 1032)) DATA_LEN
    = Some \<lparr>sc_packets = packets, sc_last_id = (if packets = [] then None else Some (pk_package_id (last packets))),
        sc_printed = lost_lines (map pk_package_id packets)\<rparr>"
proof -
  have D: "unat DATA_LEN = 1024" by (simp add: DATA_LEN_def)
  have limit: "n * 1032 - (8 + 1024) = (n - 1) * 1032" using assms(1) by (simp add: diff_mult_distrib)
  have hs: "headers_before buf (n * 1032) 0 ((n - 1) * 1032) = map (\<lambda>k. k * 1032) [0..<n - 1]"
    using assms(3) by (intro headers_of_regular) auto
  have room: "\<forall>h\<in>set (headers_before buf (n * 1032) 0 ((n - 1) * 1032)). h + 8 \<le> (n - 1) * 1032"
    unfolding hs by auto
  have "cut_packets buf 1024 ((n - 1) * 1032) (map (\<lambda>k. k * 1032) [0..<n - 1]) = packets"
    using cut_regular [of 1032 1024 0 "n - 1" buf] by (simp add: packets_def)
  then have "scan_loop buf (of_nat (n * 1032)) DATA_LEN (of_nat 0) s = Some (fold note_packet packets s)" for s
    using scan_loop_cuts [of DATA_LEN "n * 1032" 0 buf s] assms(1,2) room unfolding D limit hs by simp
  from this [of "\<lparr>sc_packets = [], sc_last_id = None, sc_printed = []\<rparr>"]
  show ?thesis by (simp only: semiring_1_class.of_nat_0 parse_stream_def note_packets)
qed

text \<open>
  C31: a recording of \<open>n\<close> packets of 1032 words is imported but for its last packet.
  Behind the 8 MiB that are skipped, the words at which headers stand are the multiples of 1032; then
  the importer ends with the channels and ids of the first \<open>n - 1\<close> packets: word \<open>64 j + ch\<close> of packet
  \<open>i\<close> is sample \<open>16 i + j\<close> of channel \<open>ch\<close>, its low half the real and its high half the imaginary part as
  signed numbers, and a line is printed for every gap in the ids.
\<close>

theorem regular_recording:
  fixes data :: memory
  assumes "0 < n" and "1048576 + n * 1032 < 2 ^ 64"
    and "\<forall>h < n * 1032. header_at (\<lambda>i. data (1048576 + i)) (n * 1032) h \<longleftrightarrow> 1032 dvd h"
  shows "let ids = map (\<lambda>i. data (1048576 + of_nat (i * 1032 + 2))) [0..<n - 1];
      word = (\<lambda>i j ch. data (1048576 + of_nat (i * 1032 + 8 + (64 * j + ch))))
    in \<exists>chans. t510_main (Some (data, of_nat (1048576 + n * 1032))) [input, prefix] = Some (T510_done (output_files prefix) chans ids (lost_lines ids))
      \<and> length chans = 64 * (n - 1) * 16
      \<and> (\<forall>i < n - 1. \<forall>j < 16. \<forall>ch < 64. chans ! (ch * (n - 1) * 16 + 16 * i + j)
            = (float_of_int32 (low_half (word i j ch)), float_of_int32 (high_half (word i j ch))))"
proof -
  let ?buf = "\<lambda>i. data (1048576 + i)"
  define packets where "packets = map (\<lambda>k. parse_packet ?buf (of_nat (k * 1032)) 1024) [0..<n - 1]"
  have skip: "16 * ZHEN_LEN = 1048576" by (simp add: ZHEN_LEN_def)
  have count: "of_nat (1048576 + n * 1032) - 1048576 = (of_nat (n * 1032) :: u64)" by simp
  have small: "n * 1032 < 2 ^ 64" using assms(2) by simp
  have run: "t510_main (Some (data, of_nat (1048576 + n * 1032))) [input, prefix]
      = Some (T510_done (output_files prefix) (place_packets ?buf packets) (map pk_package_id packets) (lost_lines (map pk_package_id packets)))"
    using parse_regular [OF assms(1) small assms(3)]
    by (simp only: t510_main_def skip count Let_def) (simp add: packets_def)
  have ids: "map pk_package_id packets = map (\<lambda>i. data (1048576 + of_nat (i * 1032 + 2))) [0..<n - 1]"
    by (simp add: packets_def parse_packet_def add.assoc)
  have N: "length packets = n - 1" by (simp add: packets_def)
  have full: "\<forall>p\<in>set packets. 1024 \<le> unat (pk_data_len p)" by (auto simp: packets_def parse_packet_def)
  have at: "channel_sample ?buf packets (i, j, ch)
      = (float_of_int32 (low_half (data (1048576 + of_nat (i * 1032 + 8 + (64 * j + ch))))),
         float_of_int32 (high_half (data (1048576 + of_nat (i * 1032 + 8 + (64 * j + ch))))))" if "i < n - 1" for i j ch
    using that by (simp add: channel_sample_def packets_def parse_packet_def HEADER_LEN_def Let_def add.assoc)
  have "place_packets ?buf packets ! (ch * (n - 1) * 16 + 16 * i + j) = channel_sample ?buf packets (i, j, ch)"
    if "i < n - 1" "j < 16" "ch < 64" for i j ch
    using place_packets_nth(2) [OF full, of i j ch ?buf] that by (simp add: N channel_index_def)
  then show ?thesis
    unfolding run ids Let_def using place_packets_nth(1) [OF full, of ?buf] at by (auto simp: N)
qed

text \<open>
  C33: a recording with one to seven stray words at its end is never imported.
  If the last header is followed by 1024 words of samples and \<open>c\<close> more with \<open>0 < c < 8\<close>, the length of the
  search, \<open>total_len - PACKET_LEN - i - HEADER_LEN\<close>, wraps below zero; the search index wraps around, too,
  and comes to the first header again.  The importer does not end, whatever comes before the last
  header.  Of the indices behind that header only those within the file and the eight before zero,
  which wrap to words of the part skipped, can pass the length test of \<open>is_valid_header\<close>.
\<close>

theorem trailing_words_never_end:
  fixes data :: memory
  assumes "1048576 + (h + 1032 + c) < 2 ^ 64" and "0 < c" and "c < 8"
    and "header_at (\<lambda>i. data (1048576 + i)) (h + 1032 + c) h"
    and "\<forall>x > of_nat h. \<not> is_valid_header (\<lambda>i. data (1048576 + i)) x (of_nat (h + 1032 + c))"
  shows "t510_main (Some (data, of_nat (1048576 + (h + 1032 + c)))) [input, prefix] = None"
proof -
  let ?buf = "\<lambda>i. data (1048576 + i)"
  have skip: "16 * ZHEN_LEN = 1048576" by (simp add: ZHEN_LEN_def)
  have count: "of_nat (1048576 + (h + 1032 + c)) - 1048576 = (of_nat (h + 1032 + c) :: u64)" by simp
  have args: "length [input, prefix] = 2" by simp
  have D: "unat DATA_LEN = 1024" by (simp add: DATA_LEN_def)
  have "scan_loop ?buf (of_nat (h + 1032 + c)) DATA_LEN 0 s = None" for s
  proof (rule scan_never_ends)
    show "8 + unat DATA_LEN < 2 ^ 32" by (simp add: D)
    show "h + 1032 + c < h + 8 + unat DATA_LEN + 8" "h + 8 + unat DATA_LEN < h + 1032 + c"
      using assms(2,3) unfolding D by arith+
    show "\<not> is_valid_header ?buf x (of_nat (h + 1032 + c))" if "of_nat h < x" for x using assms(5) that by blast
  qed (use assms(1,4) in \<open>simp_all add: D\<close>)
  then have "parse_stream ?buf (of_nat (h + 1032 + c)) DATA_LEN = None" by (simp only: parse_stream_def)
  then show ?thesis
    by (simp only: t510_main_def skip count args Let_def option.case option.map prod.case not_True_eq_False simp_thms if_False)
qed

section \<open>Instances\<close>

text \<open>A recording with a header every \<open>p\<close> words; every other word is its own index.\<close>

definition sample_recording :: "nat \<Rightarrow> memory" where
  "sample_recording p i =
     (let k = unat i mod p
      in if k = 0 then STARTWORD2 else if k = 1 then STARTWORD1 else if k = 3 \<or> k = 5 then SYNC_WORD
         else if k = 6 then STOPWORD2 else if k = 7 then STOPWORD1 else i)"

lemma sample_headers:
  assumes "8 \<le> p" "words < 2 ^ 32" "h < words"
  shows "header_at (sample_recording p) words h \<longleftrightarrow> h + 8 \<le> words \<and> p dvd h"
proof -
  have at: "sample_recording p (of_nat (h + k)) = (let m = (h + k) mod p
      in if m = 0 then STARTWORD2 else if m = 1 then STARTWORD1 else if m = 3 \<or> m = 5 then SYNC_WORD
         else if m = 6 then STOPWORD2 else if m = 7 then STOPWORD1 else of_nat (h + k))" if "k < 8" for k
    using that assms(2,3) by (simp add: sample_recording_def word_less_of_nat del: of_nat_add)
  have len: "(of_nat words :: u64) < of_nat h + HEADER_LEN \<longleftrightarrow> \<not> h + 8 \<le> words"
  proof -
    have "of_nat h + HEADER_LEN = (of_nat (h + 8) :: u64)" by (simp add: HEADER_LEN_def)
    then show ?thesis using assms(2,3) by (simp add: word_less_nat_alt word_less_of_nat not_le del: of_nat_add)
  qed
  have plus: "of_nat h + 1 = (of_nat (h + 1) :: u64)" "of_nat h + 3 = (of_nat (h + 3) :: u64)" "of_nat h + 5 = (of_nat (h + 5) :: u64)"
    "of_nat h + 6 = (of_nat (h + 6) :: u64)" "of_nat h + 7 = (of_nat (h + 7) :: u64)" by simp_all
  show ?thesis
  proof (cases "p dvd h")
    case True
    then have "(h + k) mod p = k" if "k < 8" for k using that assms(1) by (auto elim!: dvdE)
    then have words: "sample_recording p (of_nat h) = STARTWORD2" "sample_recording p (of_nat (h + 1)) = STARTWORD1"
      "sample_recording p (of_nat (h + 3)) = SYNC_WORD" "sample_recording p (of_nat (h + 5)) = SYNC_WORD"
      "sample_recording p (of_nat (h + 6)) = STOPWORD2" "sample_recording p (of_nat (h + 7)) = STOPWORD1"
      using at [of 0] at [of 1] at [of 3] at [of 5] at [of 6] at [of 7] True
      by (simp_all del: of_nat_add of_nat_Suc add_Suc_right add_2_eq_Suc')
    show ?thesis
      using True by (simp only: header_at_def is_valid_header_def len plus words if_False if_True simp_thms) simp
  next
    case False
    have "(of_nat h :: u64) \<noteq> STARTWORD2"
    proof
      assume "(of_nat h :: u64) = STARTWORD2"
      then have "unat (of_nat h :: u64) = unat STARTWORD2" by simp
      then show False using assms(2,3) by (simp add: word_less_of_nat STARTWORD2_def)
    qed
    then have "sample_recording p (of_nat h) \<noteq> STARTWORD2"
      using at [of 0] False
      by (simp add: Let_def dvd_eq_mod_eq_0 STARTWORD1_def STARTWORD2_def SYNC_WORD_def STOPWORD1_def STOPWORD2_def)
    then show ?thesis using False by (simp add: header_at_def is_valid_header_def)
  qed
qed

theorem parse_stream_cuts_witness:
  "\<exists>s. parse_stream (sample_recording 10) 30 2 = Some s \<and> map pk_package_id (sc_packets s) = [2, 12]
     \<and> map pk_data_len (sc_packets s) = [2, 2] \<and> length (sc_printed s) = 1"
proof -
  have hs: "headers_before (sample_recording 10) 30 0 20 = [0, 10]"
    using headers_of_regular [of 2 10 "sample_recording 10" 30] by (auto simp: sample_headers upt_rec elim!: dvdE)
  have "sample_recording 10 2 = 2" "sample_recording 10 12 = 12"
    by (simp_all add: sample_recording_def)
  moreover have "\<forall>h. header_at (sample_recording 10) 30 h \<and> h < 30 - (8 + unat (2 :: u32)) \<longrightarrow> h + 8 \<le> 30 - (8 + unat (2 :: u32))"
    by (auto simp: sample_headers elim!: dvdE)
  ultimately show ?thesis
    using parse_stream_cuts [of 2 30 "sample_recording 10"]
    by (simp add: hs parse_packet_def lost_lines_def)
qed

theorem regular_recording_witness:
  "\<exists>chans. t510_main (Some (\<lambda>a. sample_recording 1032 (a - 1048576), 1050640)) [''s21.bin'', ''s21''] = Some (T510_done (''s21_complex.bin'', ''s21_id.bin'') chans [2] [])
     \<and> length chans = 1024 \<and> chans ! 17 = (float_of_int32 73, 0)"
proof -
  let ?data = "\<lambda>a. sample_recording 1032 (a - 1048576)"
  have "\<forall>h < 2 * 1032. header_at (sample_recording 1032) (2 * 1032) h \<longleftrightarrow> 1032 dvd h"
    by (auto simp: sample_headers elim!: dvdE)
  from regular_recording [of 2 ?data "''s21.bin''" "''s21''"] this
  obtain chans where chans:
    "t510_main (Some (?data, 1050640)) [''s21.bin'', ''s21''] = Some (T510_done (output_files ''s21'') chans [?data 1048578] (lost_lines [?data 1048578]))"
    "length chans = 1024" "chans ! (1 * 1 * 16 + 16 * 0 + 1) = (float_of_int32 (low_half (?data (1048576 + of_nat 73))),
        float_of_int32 (high_half (?data (1048576 + of_nat 73))))"
    by (auto simp add: Let_def simp del: One_nat_def dest!: spec [of _ "0 :: nat"] spec [of _ "1 :: nat"])
  moreover have "?data 1048578 = 2" "?data (1048576 + of_nat 73) = 73" by (simp_all add: sample_recording_def)
  moreover have "float_of_int32 (high_half 73) = 0" "low_half 73 = 73"
    by (simp_all add: float_of_int32_def high_half_def low_half_def)
  ultimately show ?thesis by (simp add: lost_lines_def output_files_def)
qed

definition stray_recording :: memory where
  "stray_recording a = (if 1048576 \<le> a \<and> a < 1049609 then sample_recording 2000 (a - 1048576) else 0)"

lemma stray_recording_start: "stray_recording (1048576 + x) = STARTWORD2 \<Longrightarrow> x = 0"
proof -
  assume start: "stray_recording (1048576 + x) = STARTWORD2"
  then have range: "1048576 \<le> 1048576 + x \<and> 1048576 + x < 1049609"
    by (rule contrapos_pp) (simp only: stray_recording_def if_False, simp add: STARTWORD2_def)
  then have "unat ((1048576 + x) - 1048576) = unat (1048576 + x) - unat (1048576 :: u64)" by (intro unat_sub) simp
  then have small: "unat x < 1033" using range by (simp add: word_less_nat_alt) arith
  then have other: "x \<noteq> STARTWORD2" by (auto simp: STARTWORD2_def)
  have index: "unat x mod 2000 = unat x" using small by simp
  have apart: "STARTWORD1 \<noteq> STARTWORD2" "SYNC_WORD \<noteq> STARTWORD2" "STOPWORD1 \<noteq> STARTWORD2" "STOPWORD2 \<noteq> STARTWORD2"
    by (simp_all add: STARTWORD1_def STARTWORD2_def SYNC_WORD_def STOPWORD1_def STOPWORD2_def)
  have "sample_recording 2000 x = STARTWORD2" using start range by (simp add: stray_recording_def)
  then have "unat x = 0"
    by (rule contrapos_pp) (simp only: sample_recording_def Let_def index if_False, simp add: apart other)
  then show "x = 0" by (simp add: unat_eq_0)
qed

theorem trailing_words_never_end_witness:
  "t510_main (Some (stray_recording, 1049609)) [''s21.bin'', ''s21''] = None"
proof -
  have "header_at (\<lambda>i. stray_recording (1048576 + i)) 1033 0"
    by (simp add: header_at_def is_valid_header_def HEADER_LEN_def stray_recording_def sample_recording_def)
  moreover have "\<forall>x > 0. \<not> is_valid_header (\<lambda>i. stray_recording (1048576 + i)) x n" for n
    by (auto simp: is_valid_header_def dest: stray_recording_start split: if_splits)
  ultimately show ?thesis using trailing_words_never_end [of 0 1 stray_recording "''s21.bin''" "''s21''"] by simp
qed

end
