(* ===== verification/Time_Stamp.thy ===== *)
theory Time_Stamp
  imports Metrics
begin

text \<open>
  \<open>now_iso8601\<close> of \<open>common/logger.cpp\<close>, with which both programs stamp the lines of the log and of the
  metrics file: the clock's seconds since 1970 (leap seconds are not counted) as a date and a time of day in the Gregorian
  calendar, printed with \<open>put_time\<close>.  The reading of the clock is an argument and not before 1970.
\<close>

section \<open>The calendar\<close>

definition leap_year :: "nat \<Rightarrow> bool" where
  "leap_year y \<longleftrightarrow> y mod 4 = 0 \<and> (y mod 100 \<noteq> 0 \<or> y mod 400 = 0)"

definition month_lengths :: "nat \<Rightarrow> nat list" where
  "month_lengths y = [31, if leap_year y then 29 else 28, 31, 30, 31, 30, 31, 31, 30, 31, 30, 31]"

definition year_length :: "nat \<Rightarrow> nat" where
  "year_length y = (if leap_year y then 366 else 365)"

lemma sum_month_lengths: "sum_list (month_lengths y) = year_length y"
  by (simp add: month_lengths_def year_length_def)

text \<open>The year and the month in which a day falls, counted from the beginning of a year, and of a list of months.\<close>

function year_and_day :: "nat \<Rightarrow> nat \<Rightarrow> nat \<times> nat" where
  "year_and_day y d = (if d < year_length y then (y, d) else year_and_day (y + 1) (d - year_length y))"
  by auto
termination by (relation "measure snd") (auto simp: year_length_def)

declare year_and_day.simps [simp del]

fun month_and_day :: "nat list \<Rightarrow> nat \<Rightarrow> nat \<Rightarrow> nat \<times> nat" where
  "month_and_day [] m d = (m, d + 1)"
| "month_and_day (l # ls) m d = (if d < l then (m, d + 1) else month_and_day ls (m + 1) (d - l))"

text \<open>\<open>struct tm\<close>: years since 1900, months from 0, days from 1.\<close>

record tm =
  tm_sec :: nat
  tm_min :: nat
  tm_hour :: nat
  tm_mday :: nat
  tm_mon :: nat
  tm_year :: nat

definition gmtime :: "nat \<Rightarrow> tm" where
  "gmtime t =
     (let (year, yday) = year_and_day 1970 (t div 86400);
          (mon, mday) = month_and_day (month_lengths year) 0 yday;
          s = t mod 86400
      in \<lparr>tm_sec = s mod 60, tm_min = s div 60 mod 60, tm_hour = s div 3600, tm_mday = mday, tm_mon = mon,
          tm_year = year - 1900\<rparr>)"

definition two_digits :: "nat \<Rightarrow> string" where
  "two_digits n = pad_zeros 2 (to_string n)"

text \<open>\<open>put_time\<close> with the format of the program\<close>

definition put_time :: "tm \<Rightarrow> string" where
  "put_time x = to_string (tm_year x + 1900) @ ''-'' @ two_digits (tm_mon x + 1) @ ''-'' @ two_digits (tm_mday x)
     @ ''T'' @ two_digits (tm_hour x) @ '':'' @ two_digits (tm_min x) @ '':'' @ two_digits (tm_sec x) @ ''Z''"

definition now_iso8601 :: "nat \<Rightarrow> string" where
  "now_iso8601 time = put_time (gmtime time)"

section \<open>Days\<close>

lemma year_and_day_spec:
  "year_and_day y d = (y', i) \<Longrightarrow> y \<le> y' \<and> i < year_length y' \<and> d = sum_list (map year_length [y..<y']) + i"
proof (induction y d rule: year_and_day.induct)
  case (1 y d)
  show ?case
  proof (cases "d < year_length y")
    case True
    then show ?thesis using "1.prems" by (simp add: year_and_day.simps [of y d])
  next
    case False
    then have "y + 1 \<le> y' \<and> i < year_length y' \<and> d - year_length y = sum_list (map year_length [y + 1..<y']) + i"
      using "1.IH" [OF False] "1.prems" False by (simp add: year_and_day.simps [of y d])
    moreover then have "[y..<y'] = y # [y + 1..<y']" by (simp add: upt_conv_Cons)
    ultimately show ?thesis using False by simp linarith
  qed
qed

lemma year_and_day_mono:
  "d < e \<Longrightarrow> year_and_day y d = (a, i) \<Longrightarrow> year_and_day y e = (b, j) \<Longrightarrow> a < b \<or> a = b \<and> i < j"
proof (induction y d arbitrary: e rule: year_and_day.induct)
  case (1 y d)
  show ?case
  proof (cases "d < year_length y")
    case True
    show ?thesis
    proof (cases "e < year_length y")
      case False
      have "year_and_day y e = year_and_day (y + 1) (e - year_length y)" using False by (simp add: year_and_day.simps [of y e])
      then have "year_and_day (y + 1) (e - year_length y) = (b, j)" using "1.prems"(3) by simp
      moreover have "a = y" using "1.prems"(2) True by (simp add: year_and_day.simps [of y d])
      ultimately show ?thesis using year_and_day_spec [of "y + 1" "e - year_length y" b j] by simp
    next
      case early: True
      then have "year_and_day y e = (y, e)" "year_and_day y d = (y, d)"
        using True year_and_day.simps [of y e] year_and_day.simps [of y d] by simp_all
      then show ?thesis using "1.prems" by simp
    qed
  next
    case False
    then show ?thesis
      using "1.IH" [of "e - year_length y"] "1.prems" by (simp add: year_and_day.simps [of y d] year_and_day.simps [of y e])
  qed
qed

lemma month_and_day_spec:
  "month_and_day ls m d = (m', k) \<Longrightarrow> d < sum_list ls \<Longrightarrow>
    m \<le> m' \<and> m' - m < length ls \<and> 0 < k \<and> k \<le> ls ! (m' - m) \<and> d = sum_list (take (m' - m) ls) + (k - 1)"
proof (induction ls m d rule: month_and_day.induct)
  case (2 l ls m d)
  show ?case
  proof (cases "d < l")
    case False
    then have "m + 1 \<le> m' \<and> m' - (m + 1) < length ls \<and> 0 < k \<and> k \<le> ls ! (m' - (m + 1))
        \<and> d - l = sum_list (take (m' - (m + 1)) ls) + (k - 1)"
      using "2.IH" "2.prems" by simp
    moreover from this have "m' - m = Suc (m' - (m + 1))" by linarith
    ultimately show ?thesis using False by simp linarith
  qed (use "2.prems" in auto)
qed simp

lemma month_and_day_mono:
  "d < e \<Longrightarrow> e < sum_list ls \<Longrightarrow> month_and_day ls m d = (a, i) \<Longrightarrow> month_and_day ls m e = (b, j) \<Longrightarrow>
    a < b \<or> a = b \<and> i < j"
proof (induction ls m d arbitrary: e rule: month_and_day.induct)
  case (2 l ls m d)
  show ?case
  proof (cases "d < l")
    case True
    show ?thesis
    proof (cases "e < l")
      case False
      then have "month_and_day ls (m + 1) (e - l) = (b, j)" "e - l < sum_list ls" "a = m"
        using "2.prems" True by simp_all
      then show ?thesis using month_and_day_spec [of ls "m + 1" "e - l" b j] by simp
    qed (use "2.prems" True in auto)
  next
    case False
    then show ?thesis using "2.IH" [of "e - l"] "2.prems" by auto
  qed
qed simp

section \<open>The fields\<close>

lemma gmtime_fields:
  obtains yday where "year_and_day 1970 (t div 86400) = (tm_year (gmtime t) + 1900, yday)"
    "month_and_day (month_lengths (tm_year (gmtime t) + 1900)) 0 yday = (tm_mon (gmtime t), tm_mday (gmtime t))"
    "yday < sum_list (month_lengths (tm_year (gmtime t) + 1900))"
    "tm_mon (gmtime t) < 12" "0 < tm_mday (gmtime t)" "tm_mday (gmtime t) \<le> 31" "70 \<le> tm_year (gmtime t)"
proof -
  obtain year yday where y: "year_and_day 1970 (t div 86400) = (year, yday)" by (metis surj_pair)
  obtain mon mday where m: "month_and_day (month_lengths year) 0 yday = (mon, mday)" by (metis surj_pair)
  note spec = year_and_day_spec [OF y]
  then have "yday < sum_list (month_lengths year)" by (simp add: sum_month_lengths)
  note spec' = month_and_day_spec [OF m this]
  have "mday \<le> month_lengths year ! mon" "mon < 12" using spec' by (simp_all add: month_lengths_def)
  moreover have "\<forall>l\<in>set (month_lengths year). l \<le> 31" by (simp add: month_lengths_def)
  moreover have "length (month_lengths year) = 12" by (simp add: month_lengths_def)
  ultimately have "mday \<le> 31" using nth_mem [of mon "month_lengths year"] order.trans by metis
  moreover have "gmtime t = \<lparr>tm_sec = t mod 86400 mod 60, tm_min = t mod 86400 div 60 mod 60, tm_hour = t mod 86400 div 3600,
      tm_mday = mday, tm_mon = mon, tm_year = year - 1900\<rparr>"
    unfolding gmtime_def y m Let_def prod.case ..
  ultimately have fields: "tm_year (gmtime t) + 1900 = year" "tm_mon (gmtime t) = mon" "tm_mday (gmtime t) = mday" "mday \<le> 31"
    using spec by simp_all
  show thesis
    by (rule that [of yday, unfolded fields(1-3)]) (use y m spec spec' fields \<open>mon < 12\<close> in \<open>simp_all add: sum_month_lengths\<close>)
qed

lemma gmtime_ranges: "tm_mon (gmtime t) < 12" "tm_mday (gmtime t) \<le> 31" "70 \<le> tm_year (gmtime t)"
proof -
  show "tm_mon (gmtime t) < 12" by (rule gmtime_fields [of t]) assumption
  show "tm_mday (gmtime t) \<le> 31" by (rule gmtime_fields [of t]) assumption
  show "70 \<le> tm_year (gmtime t)" by (rule gmtime_fields [of t]) assumption
qed

text \<open>Two moments, compared field by field.\<close>

definition earlier :: "tm \<Rightarrow> tm \<Rightarrow> bool" where
  "earlier x y \<longleftrightarrow>
     tm_year x < tm_year y \<or> tm_year x = tm_year y \<and> (tm_mon x < tm_mon y \<or> tm_mon x = tm_mon y \<and> (tm_mday x < tm_mday y \<or>
       tm_mday x = tm_mday y \<and> (tm_hour x < tm_hour y \<or> tm_hour x = tm_hour y \<and> (tm_min x < tm_min y \<or>
         tm_min x = tm_min y \<and> tm_sec x < tm_sec y))))"

lemma div_mod_mono: "m < n \<Longrightarrow> m div k < n div k \<or> m div k = n div k \<and> m mod k < (n mod k :: nat)"
  by (metis div_le_mono div_mult_mod_eq le_neq_implies_less less_imp_le nat_add_left_cancel_less)

lemma day_time_mono:
  assumes "s < (u :: nat)"
  shows "s div 3600 < u div 3600 \<or> s div 3600 = u div 3600 \<and> (s div 60 mod 60 < u div 60 mod 60 \<or>
    s div 60 mod 60 = u div 60 mod 60 \<and> s mod 60 < u mod 60)"
proof -
  have "x div 3600 = x div 60 div 60" for x :: nat by (simp add: div_mult2_eq [symmetric])
  then show ?thesis
    using div_mod_mono [OF assms, of 60] div_mod_mono [of "s div 60" "u div 60" 60] by auto
qed

lemma gmtime_mono:
  assumes "t < u"
  shows "earlier (gmtime t) (gmtime u)"
proof -
  obtain i where i: "year_and_day 1970 (t div 86400) = (tm_year (gmtime t) + 1900, i)"
    "month_and_day (month_lengths (tm_year (gmtime t) + 1900)) 0 i = (tm_mon (gmtime t), tm_mday (gmtime t))"
    by (rule gmtime_fields [of t])
  obtain j where j: "year_and_day 1970 (u div 86400) = (tm_year (gmtime u) + 1900, j)"
    "month_and_day (month_lengths (tm_year (gmtime u) + 1900)) 0 j = (tm_mon (gmtime u), tm_mday (gmtime u))"
    "j < sum_list (month_lengths (tm_year (gmtime u) + 1900))"
    by (rule gmtime_fields [of u])
  have times: "tm_hour (gmtime x) = x mod 86400 div 3600" "tm_min (gmtime x) = x mod 86400 div 60 mod 60"
    "tm_sec (gmtime x) = x mod 86400 mod 60" for x by (simp_all add: gmtime_def Let_def split: prod.splits)
  consider "t div 86400 < u div 86400" | "t div 86400 = u div 86400" "t mod 86400 < u mod 86400"
    using div_mod_mono [OF assms, of 86400] by blast
  then show ?thesis
  proof cases
    case 1
    from year_and_day_mono [OF 1 i(1) j(1)] show ?thesis
    proof
      assume "tm_year (gmtime t) + 1900 = tm_year (gmtime u) + 1900 \<and> i < j"
      then have "i < j" and y: "tm_year (gmtime t) = tm_year (gmtime u)" by simp_all
      from month_and_day_mono [OF \<open>i < j\<close> j(3) i(2) [unfolded y] j(2)] show ?thesis using y by (simp add: earlier_def) blast
    qed (simp add: earlier_def)
  next
    case 2
    then have "tm_year (gmtime t) = tm_year (gmtime u)" "tm_mon (gmtime t) = tm_mon (gmtime u)"
      "tm_mday (gmtime t) = tm_mday (gmtime u)" using i j by auto
    then show ?thesis using day_time_mono [OF 2(2)] by (simp add: earlier_def times)
  qed
qed

section \<open>The text\<close>

lemma two_digits_facts:
  assumes "n < 100"
  shows "length (two_digits n) = 2" "decimal_value (two_digits n) = n"
  using assms pad_zeros_length [of 2 n] by (simp_all add: two_digits_def)

lemma two_digits_less: "m < n \<Longrightarrow> n < 100 \<Longrightarrow> two_digits m @ xs < two_digits n @ ys"
  using list_less_append_right [OF _ pad_zeros_less, of 2 m n xs ys] by (simp add: two_digits_def pad_zeros_length)

lemma length_four:
  assumes "1000 \<le> n" "n < 10000"
  shows "length (to_string n) = 4"
proof -
  have "\<not> n < 10" "\<not> n div 10 < 10" "\<not> n div 10 div 10 < 10" "n div 10 div 10 div 10 < 10"
    using assms by (simp_all add: not_less less_eq_div_iff_mult_less_eq div_less_iff_less_mult div_mult2_eq [symmetric])
  then show ?thesis
    using to_string.simps [of n] to_string.simps [of "n div 10"] to_string.simps [of "n div 10 div 10"]
      to_string.simps [of "n div 10 div 10 div 10"] by simp
qed

lemma year_text_less:
  assumes "1000 \<le> m" "m < n" "n < 10000"
  shows "to_string m @ xs < to_string n @ ys"
  using digits_less [of "to_string m" "to_string n"] length_four [of m] length_four [of n] assms
  by (intro list_less_append_right) (simp_all add: to_string_digits)

text \<open>The date and time of a text are read back, and give the seconds since 1970.\<close>

definition seconds_of_stamp :: "string \<Rightarrow> nat" where
  "seconds_of_stamp cs =
     (let number = (\<lambda>pos width. decimal_value (take width (drop pos cs)));
          year = number 0 4;
          days = sum_list (map year_length [1970..<year]) + sum_list (take (number 5 2 - 1) (month_lengths year))
                   + (number 8 2 - 1)
      in ((days * 24 + number 11 2) * 60 + number 14 2) * 60 + number 17 2)"

lemma gmtime_time:
  "tm_hour (gmtime t) = t mod 86400 div 3600" "tm_min (gmtime t) = t mod 86400 div 60 mod 60"
  "tm_sec (gmtime t) = t mod 86400 mod 60"
  by (simp_all add: gmtime_def Let_def split: prod.splits)

lemma time_of_day: "(s div 3600 * 60 + s div 60 mod 60) * 60 + s mod 60 = (s :: nat)"
proof -
  have "s div 3600 = s div 60 div 60" by (simp add: div_mult2_eq [symmetric])
  then show ?thesis by (metis div_mult_mod_eq)
qed

lemma put_time_less:
  assumes "earlier x y" "70 \<le> tm_year x" "tm_year y < 8100" "tm_mon y < 12" "tm_mday y < 32" "tm_hour y < 24"
    "tm_min y < 60" "tm_sec y < 60"
  shows "put_time x < put_time y"
  using assms(1) unfolding earlier_def
proof (elim disjE conjE)
  assume "tm_year x < tm_year y"
  then show ?thesis using assms(2,3) year_text_less [of "tm_year x + 1900" "tm_year y + 1900"] by (simp add: put_time_def)
qed (use assms(4-) in \<open>simp_all add: put_time_def list_less_append_left two_digits_less\<close>)

lemma stamp_fields:
  assumes "tm_year (gmtime t) < 8100"
  shows "length (to_string (tm_year (gmtime t) + 1900)) = 4" "length (two_digits (Suc (tm_mon (gmtime t)))) = 2"
    "length (two_digits (tm_mday (gmtime t))) = 2" "length (two_digits (tm_hour (gmtime t))) = 2"
    "length (two_digits (tm_min (gmtime t))) = 2" "length (two_digits (tm_sec (gmtime t))) = 2"
proof -
  have time: "tm_hour (gmtime t) < 24" "tm_min (gmtime t) < 60" "tm_sec (gmtime t) < 60"
    by (simp_all add: gmtime_time less_mult_imp_div_less)
  show "length (to_string (tm_year (gmtime t) + 1900)) = 4" "length (two_digits (Suc (tm_mon (gmtime t)))) = 2"
    "length (two_digits (tm_mday (gmtime t))) = 2" "length (two_digits (tm_hour (gmtime t))) = 2"
    "length (two_digits (tm_min (gmtime t))) = 2" "length (two_digits (tm_sec (gmtime t))) = 2"
    using assms time length_four [of "tm_year (gmtime t) + 1900"] gmtime_ranges [of t] by (simp_all add: two_digits_facts)
qed

lemma stamp_length: "tm_year (gmtime t) < 8100 \<Longrightarrow> length (now_iso8601 t) = 20"
  by (simp add: now_iso8601_def put_time_def stamp_fields)

lemma stamp_seconds:
  assumes "tm_year (gmtime t) < 8100"
  shows "seconds_of_stamp (now_iso8601 t) = t"
proof -
  let ?x = "gmtime t"
  obtain yday where f: "year_and_day 1970 (t div 86400) = (tm_year ?x + 1900, yday)"
    "month_and_day (month_lengths (tm_year ?x + 1900)) 0 yday = (tm_mon ?x, tm_mday ?x)"
    "yday < sum_list (month_lengths (tm_year ?x + 1900))" "tm_mon ?x < 12" "tm_mday ?x \<le> 31"
    by (rule gmtime_fields [of t])
  have time: "tm_hour ?x < 24" "tm_min ?x < 60" "tm_sec ?x < 60" by (simp_all add: gmtime_time less_mult_imp_div_less)
  have days: "t div 86400 = sum_list (map year_length [1970..<tm_year ?x + 1900])
      + sum_list (take (tm_mon ?x) (month_lengths (tm_year ?x + 1900))) + (tm_mday ?x - 1)"
    using year_and_day_spec [OF f(1)] month_and_day_spec [OF f(2,3)] by simp
  have numbers: "decimal_value (to_string (tm_year ?x + 1900)) = tm_year ?x + 1900"
    "decimal_value (two_digits (Suc (tm_mon ?x))) = Suc (tm_mon ?x)" "decimal_value (two_digits (tm_mday ?x)) = tm_mday ?x"
    "decimal_value (two_digits (tm_hour ?x)) = tm_hour ?x" "decimal_value (two_digits (tm_min ?x)) = tm_min ?x"
    "decimal_value (two_digits (tm_sec ?x)) = tm_sec ?x"
    using f(4,5) time by (simp_all add: two_digits_facts)
  have "seconds_of_stamp (now_iso8601 t) = ((t div 86400 * 24 + tm_hour ?x) * 60 + tm_min ?x) * 60 + tm_sec ?x"
    unfolding days seconds_of_stamp_def now_iso8601_def put_time_def Let_def
    by (simp add: stamp_fields [OF assms] numbers)
  also have "\<dots> = t div 86400 * 86400 + ((t mod 86400 div 3600 * 60 + t mod 86400 div 60 mod 60) * 60 + t mod 86400 mod 60)"
    by (simp add: gmtime_time algebra_simps)
  also have "\<dots> = t" by (simp only: time_of_day div_mult_mod_eq)
  finally show ?thesis .
qed

lemma stamps_less:
  assumes "t < u" "tm_year (gmtime u) < 8100"
  shows "now_iso8601 t < now_iso8601 u" "tm_year (gmtime t) < 8100"
proof -
  have e: "earlier (gmtime t) (gmtime u)" by (rule gmtime_mono [OF assms(1)])
  show "tm_year (gmtime t) < 8100" using e assms(2) by (auto simp: earlier_def)
  show "now_iso8601 t < now_iso8601 u"
    using put_time_less [OF e gmtime_ranges(3) assms(2)] gmtime_ranges(1,2) [of u]
    by (simp add: now_iso8601_def gmtime_time less_mult_imp_div_less)
qed

section \<open>Properties\<close>

text \<open>
  C40: the time stamps are those of the clock and sort as the moments they stand for.  Until the end of the
  year 9999 the text has 20 characters, reading the date and the time back gives the clock's seconds,
  and of two lines of the log the one written in an earlier second is the smaller text, whatever they say.
\<close>

theorem time_stamps_ordered:
  assumes "tm_year (gmtime u) + 1900 < 10000"
  shows "length (now_iso8601 u) = 20 \<and> seconds_of_stamp (now_iso8601 u) = u
    \<and> (t < u \<longrightarrow> log_line (now_iso8601 t) level message [] < log_line (now_iso8601 u) level' message' [])"
proof -
  have year: "tm_year (gmtime u) < 8100" using assms by simp
  then show ?thesis
    using stamp_length [OF year] stamp_seconds [OF year] stamps_less [OF _ year] stamp_length [of t]
    by (auto simp: log_line_def intro: list_less_append_right)
qed

section \<open>Instances\<close>

lemma stamp_example: "gmtime 68214896 = \<lparr>tm_sec = 56, tm_min = 34, tm_hour = 12, tm_mday = 29, tm_mon = 1, tm_year = 72\<rparr>"
proof -
  have "year_and_day 1970 789 = (1972, 59)"
    by (simp add: year_and_day.simps [of 1970] year_and_day.simps [of 1971] year_and_day.simps [of 1972] year_length_def leap_year_def)
  then show ?thesis by (simp add: gmtime_def month_lengths_def leap_year_def)
qed

theorem time_stamps_ordered_witness:
  "seconds_of_stamp ''1972-02-29T12:34:56Z'' = 68214896
    \<and> log_line (now_iso8601 68214895) kWarn ''b'' [] < log_line (now_iso8601 68214896) kInfo ''a'' []"
proof -
  have "now_iso8601 68214896 = ''1972-02-29T12:34:56Z''"
    by (simp add: now_iso8601_def stamp_example put_time_def two_digits_def pad_zeros_def to_string.simps digit_char_def char_of_def bit_Suc_0_iff)
  then show ?thesis
    using time_stamps_ordered [of 68214896 68214895 kWarn "''b''" kInfo "''a''"] by (simp add: stamp_example)
qed

end
