(* ===== verification/Spec2Isabelle.thy ===== *)
theory Spec2Isabelle
  imports Replay_Chain Comparison_Chain Pipeline_Liveness Pipeline_Refinement Receiver_Report Sender_Report
    Legacy_T510 Time_Stamp
begin

text \<open>
  The single-module CMB acquisition chain: a model of its C++ code and the theorems that make it
  correct.

  A \<^bold>\<open>sender\<close> generates or replays detector frames at a fixed rate and passes them to a TCP connection;
  a \<^bold>\<open>receiver\<close> takes them from the connection, checks them, and hands them through a ring buffer to a
  worker thread, which appends them to numbered segment files.  \<open>frame_gen\<close> makes a file to replay,
  \<open>frame_compare\<close> compares two captures, and an older importer turns recordings of the previous hardware
  into channels.  A frame on the wire is 13684 bytes: a length prefix, a header of 44 bytes with its CRC,
  1704 complex samples of two 32-bit integers and the CRC of the payload.

  \<^bold>\<open>Theories and code.\<close>  Definitions have the names of the functions and types they model; where a
  name is taken, the class or program is added (\<open>add_latency\<close> is \<open>LatencyStats::add\<close>).  An object is a record
  with its members, in order, under a two-letter prefix; a method takes the object and returns it changed;
  an out parameter is an argument and a result.

    \<^item> \<open>Cmb_Prelude\<close>: the machine types (\<open>u8\<close> to \<open>u64\<close> as words), lists as spans, folds, and the named
      collections; \<open>Little_Endian\<close>: the templates \<open>put_le\<close>, \<open>get_le\<close> of \<open>common/frame.cpp\<close>; \<open>Decimal\<close>: numbers
      printed and read; \<open>Binary64\<close>: rounding to a double; \<open>Filesystem\<close>: paths and a file system of nodes.
    \<^item> \<open>Crc32\<close>, \<open>Frame\<close>, \<open>Latency_Stats\<close>, \<open>Capture_Writer\<close>, \<open>Capture_Reader\<close>, \<open>Metrics\<close> (with the logger)
      and \<open>Time_Stamp\<close> (\<open>now_iso8601\<close>): the files of \<open>common/\<close>.
    \<^item> \<open>Frame_Parser\<close>, \<open>Loss_Detector\<close>, \<open>Capture_Queue\<close>, \<open>Tcp_Receiver\<close>: the files of \<open>receiver/\<close>.
      \<open>Receiver_Options\<close>, \<open>Receiver_Main\<close> and \<open>Capture_Pipeline\<close> are \<open>receiver/main.cpp\<close>: the command line; start-up,
      the part of a turn that receives and checks a frame, and the report; the two threads.
    \<^item> \<open>Data_Simulator\<close> (with the frame encoder), \<open>Tcp_Sender\<close>: the files of \<open>sender/\<close>.  \<open>Sender_Options\<close> and
      \<open>Sender_Main\<close> are \<open>sender/main.cpp\<close>.
    \<^item> \<open>Frame_Compare\<close>, \<open>Frame_Gen\<close>: the programs of \<open>tools/frame_check/\<close>.
    \<^item> \<open>Legacy_T510\<close>: \<open>lgfT510.h\<close>, \<open>lgfT510.cpp\<close> and \<open>packet_parser.cpp\<close>, the importer of the old format (the
      directory of the old host formats).  A pointer into the mapped file is the index of a word.
    \<^item> \<open>Sockets\<close>, \<open>Text_Stream\<close>, \<open>Process_Io\<close>, \<open>Steady_Clock\<close>, \<open>Options\<close>: what several programs use of the
      system and of the standard library.
    \<^item> \<open>Pipeline_Safety\<close>, \<open>Pipeline_Runs\<close>, \<open>Pipeline_Properties\<close>, \<open>Pipeline_Liveness\<close>, \<open>Sender_Properties\<close>,
      \<open>Transmission\<close>, \<open>Replay_Chain\<close>, \<open>Comparison_Chain\<close>: lemmas and properties only; \<open>Pipeline_Refinement\<close>,
      \<open>Receiver_Report\<close>, \<open>Sender_Report\<close>: also the specifications that the receiver's threads and the reports of both
      programs are compared with (\<open>spool\<close>, \<open>observed_run\<close> and \<open>receiver_report\<close>, \<open>sender_report\<close> and \<open>timing_table\<close>),
      which are not part of the code.

  \<^bold>\<open>How the environment enters.\<close>  Whatever the operating system decides is an argument: the answers of
  the socket calls (\<open>attempt\<close>, the list of answers of \<open>::send\<close>, the pieces in which a stream arrives), of
  \<open>mkdir\<close>, \<open>open\<close> and \<open>write\<close> (\<open>write_env\<close>), the clock readings, and the order in which the two threads
  of the receiver move.  Theorems hold for all answers; documented behaviour that is used is a named
  hypothesis (\<open>honest_stream\<close>: \<open>::send\<close> takes no more bytes than it was offered; \<open>fresh_attempts\<close>: a new
  descriptor is none of those open at the time of the call, though it may be one just closed; the bytes of a
  connection arrive unchanged and in order).  A text stream (\<open>Text_Stream\<close>) collects what is written to it and
  passes it on in portions of any size to a device that takes a limited number of characters; the frames of a
  capture, each larger than the buffer of a file stream, go to the file as they are written.  Exceptions are
  \<open>Inl\<close> values, exit codes are results.

  \<^bold>\<open>The threads of the receiver.\<close>  \<open>Capture_Pipeline\<close> gives each thread a program counter; \<open>main_step\<close> and
  \<open>worker_step\<close> do one access to something shared (an index of the queue, a slot, a flag, the condition
  variable) with the local work before it, and \<open>pipeline_step\<close> lets either thread move.  The indices and flags
  are \<open>std::atomic\<close> with acquire and release, and \<open>slots_safe\<close> shows that no slot is used by both threads, so
  there is no race on a slot.  The semantics is that of interleavings: that acquire and release let a thread load
  one index before its own store to the other is seen is not modelled.  \<open>pipeline_step_spurious\<close> adds wake-ups
  without a notification; safety is shown with them, liveness without.

  \<^bold>\<open>What is shown.\<close>
    \<^item> The wire format: round trips in both directions, which bytes are accepted, that no error within 32
      consecutive bits of a frame (the lowest bit of a byte first), wherever they begin, is accepted, by a locale
      for shift registers (\<open>burst_register\<close>), and that the table-driven CRC is the bitwise one.
    \<^item> Each component against a specification of its own: the queue is a bounded FIFO, the writer and
      reader keep a list of frames, the statistics are those of the list of samples, the continuity check accounts
      for every id, the sockets reassemble a stream and leak no descriptor, the options are in range.
    \<^item> The receiver: in every reachable state the frames received are the beginning of the stream, those published are those
      stored, lost to a failed write, or waiting (\<open>pipeline_inv\<close>); what each exit code means; the threads refine
      a bounded buffer between an acceptor and a writer that can break (\<open>spool\<close>, by the locale \<open>simulation\<close>); the line of
      the metrics file is exactly that of the frames received and of the clock readings and queue depths observed on
      the way (\<open>observed_run\<close>); that a run without spurious wake-ups has a bounded number of steps, and that the
      moment of the last notification decides whether it ends with both threads joined or hangs; and two
      executions at the end of a run that go wrong (a frame is left behind; the worker sleeps for ever).
    \<^item> The sender: only acceptable frames reach the connection, and a run with code 0 has sent exactly what it was asked to
      (replayed frames also when they are saved, unless the saved segments may overwrite the input: \<open>input_undisturbed\<close>);
      its line of the metrics file and the table of its timing log are exactly those of the turns and their schedule.
    \<^item> The chain: a receiver behind such a sender blames no frame, and what it reports as stored is what was sent; a
      file made by \<open>frame_gen\<close> is replayed and captured frame by frame (\<open>Replay_Chain\<close>);
      and \<open>frame_compare\<close> on the two captures of a session finds exactly the frames that the receiver's worker has
      left behind (\<open>Comparison_Chain\<close>).
    \<^item> The tools: \<open>frame_gen\<close> writes exactly the frames asked for (with time stamps that wrap after 18446744074
      frames), \<open>frame_compare\<close> says identical exactly for equal captures, if all their files can be opened; the importer finds what a plain search for headers finds and places every sample, but
      drops the last packet and does not end on a recording with a few stray words behind it.

  \<^bold>\<open>Bounds and fuel.\<close>  No function of the model needs fuel: loops are structural on lists of answers, counters or
  files, or have a measure (\<open>merge_loop\<close>: the frames left; \<open>reader_next\<close>: the files left; \<open>find_header\<close>: the
  words left).  The scan of the importer may not end and is a partial function, with \<open>None\<close> for not
  returning.  \<open>drain\<close>, which is not part of the code, reads until the reader ends and takes more fuel
  than there are frames.  Bounds such as \<open>length ops < 2 ^ 64\<close> keep counters of 64 bits from wrapping; the million segments and the
  capacity \<open>- 1\<close> that theorems exclude are shown to go wrong.

  \<^bold>\<open>Not modelled.\<close>  The branches for Windows; the printing of the one double in a metrics line (an
  argument, as is the time stamp of a line, which \<open>now_iso8601\<close> gives); readings of the clock before 1970;
  memory exhaustion; paths that name one file in several ways (a path is its components: a slash at its end, \<open>.\<close>,
  \<open>..\<close> and links are not resolved); the importer's progress messages; concurrent changes of a file while it is read; the signal that a broken
  connection sends to the sender; the Python tools, configurations and documents.
\<close>

section \<open>From the sender to the files of the receiver\<close>

text \<open>
  C1: the two programs together.  If the sender returned 0 and the receiver, started with options that
  agree, was given the bytes the sender has passed to the connection, in whatever pieces, then the
  receiver returns 0, or 7 or 9 because its own disk is too slow or fails; never a code that blames the
  stream.  If it returns 0, the frames it has received are the sender's, byte for byte and in order; the
  frames stored are all of them but those still in the queue; and if the frames were generated, the
  report shows no gap, no repeated and no late frame.
\<close>

theorem transmission:
  assumes "parse_sender_options sargs = Inr so" and "honest_stream 0 (se_answers senv)"
    and "sender_main show_double now senv sargs = (Returned 0 pio, concat pieces, sfs)"
    and "receiver_start renv rargs = Inr rs" and "ro_capture_queue_frames (rs_options rs) \<noteq> - 1"
    and "[] \<notin> set pieces" and "programs_agree so (rs_options rs)"
    and "reachable rs pieces fs s" and "pl_main s = M_joined"
  shows "let status = exit_status (pipeline_result show_double later (rs_options rs) s)
    in (status = 0 \<or> status = 7 \<or> status = 9)
     \<and> (\<exists>frames. concat pieces = concat frames \<and> length frames = unat (so_frame_count so)
          \<and> (so_input_path so = [] \<longrightarrow> frames = generated_frames senv so (unat (so_frame_count so)))
          \<and> (so_input_path so \<noteq> [] \<and> so_save_sent_dir so = [] \<longrightarrow>
               frames = take (unat (so_frame_count so)) (input_frames senv so))
          \<and> (status = 0 \<longrightarrow> map cf_wire (received s) = frames
               \<and> frames = pl_stored s @ map cf_wire (queue_items (pl_queue s))
               \<and> (so_input_path so = [] \<longrightarrow> clean (ld_stats (aq_continuity (pl_aq s))))))"
proof -
  let ?ro = "rs_options rs" and ?n = "unat (so_frame_count so)"
  let ?status = "exit_status (pipeline_result show_double later ?ro s)"
  have rate: "0 < so_rate_hz so" "so_rate_hz so \<le> kMaxSampleRateHz" and count: "so_frame_count so \<noteq> 0"
    using parse_sender_options_range [OF assms(1)] by (auto simp: word_less_nat_alt word_le_nat_alt)
  obtain frames st where frames: "\<forall>f\<in>set frames. sendable so f" "length frames = ?n" "concat pieces = concat frames"
    and src: "source_inv senv so frames st" and saved: "saved_inv senv so frames st"
    using sender_main_spec [OF assms(1-3)] by auto
  have origin: "so_input_path so = [] \<longrightarrow> frames = generated_frames senv so ?n"
    "so_input_path so \<noteq> [] \<and> so_save_sent_dir so = [] \<longrightarrow> frames = take ?n (input_frames senv so)"
    using src saved frames(2) by (auto simp: source_inv_def saved_inv_def split: option.splits)
  note fin = session_end [OF assms(4-6,8,9), of show_double later, unfolded Let_def]
  note ends = session_of_sendable [OF assms(4-9) frames refl, of show_double later]
  have clean: "clean (ld_stats (aq_continuity (pl_aq s)))" if "?status = 0" "so_input_path so = []"
  proof -
    have "aq_continuity (pl_aq s) = observe_run (map cf_frame_id (received s))"
      using reachable_inv [OF assms(4-6,8)] by (simp add: pipeline_inv_def stream_inv_def)
    moreover have "map cf_wire (received s) = generated_frames senv so ?n" using ends(2) that(1) origin(1) that(2) by simp
    ultimately show ?thesis
      using generated_clean [OF _ _ rate, of "received s" senv ?n ?ro] count unat_u64_less [of "so_frame_count so"]
      fin by (simp add: run_stats_def unat_gt_0)
  qed
  show ?thesis
    unfolding Let_def using ends frames(2,3) origin clean fin by metis
qed

text \<open>
  What a session has stored is what a reader finds.  After a session that returned 0, in a directory
  that held no other .bin files, the reader of the receiver's capture delivers exactly the
  frames stored, with no stray bytes: all frames received but those still in the queue.
\<close>

theorem session_reads_back:
  assumes "receiver_start env args = Inr rs" and "ro_capture_queue_frames (rs_options rs) \<noteq> - 1"
    and "[] \<notin> set pieces" and "reachable rs pieces fs s" and "pl_main s = M_joined"
    and "exit_status (pipeline_result show_double now (rs_options rs) s) = 0"
    and "distinct (map fst fs)" and "is_directory (pl_fs s) capture_root"
    and "\<forall>p. in_directory capture_root p \<longrightarrow> is_regular_file fs p \<longrightarrow> path_extension p \<noteq> ''.bin''"
    and "ro_expected_frames (rs_options rs) \<le> 10 ^ 10" and "length buf = kWireFrameSize"
    and "unat (ro_expected_frames (rs_options rs)) < fuel"
  shows "\<exists>r. drain (reader_next (pl_fs s)) fuel buf (new_capture_reader (pl_fs s) capture_root) = (pl_stored s, r)
    \<and> rd_trailing_bytes r = 0
    \<and> map cf_wire (received s) = pl_stored s @ map cf_wire (queue_items (pl_queue s))"
proof -
  note files = session_files [OF assms(1-10)]
  have "length (files_frames (pl_fs s) (capture_files (pl_fs s) capture_root)) < fuel" using files(1,4) assms(12) by simp
  from rd.drain_all [OF assms(11), of "pl_fs s" "new_capture_reader (pl_fs s) capture_root" fuel,
      unfolded new_reader_rest, OF this]
  show ?thesis unfolding files(1,2) using files(3) by auto
qed

section \<open>Instances\<close>

theorem transmission_witness:
  "\<exists>rs wire s. receiver_start quiet_env (receiver_command_line one_frame_options) = Inr rs
     \<and> reachable rs [wire] [] s \<and> map cf_wire (received s) = [generated one_send_options 0 0]
     \<and> clean (ld_stats (aq_continuity (pl_aq s)))"
proof -
  obtain rs where rs: "receiver_start quiet_env (receiver_command_line one_frame_options) = Inr rs"
    and opts: "rs_options rs = one_frame_options" by (rule one_frame_session)
  obtain pio wire where run: "sender_main (\<lambda>_. []) [] quiet_sender_env (sender_command_line one_send_options)
    = (Returned 0 pio, concat [wire], [])" using quiet_run by fastforce
  have agree: "programs_agree one_send_options (rs_options rs)"
    by (simp add: opts programs_agree_def one_send_options_def one_frame_options_def default_sender_options_def
        default_receiver_options_def)
  have so: "unat (so_frame_count one_send_options) = 1" "so_input_path one_send_options = []"
    by (simp_all add: one_send_options_def default_sender_options_def)
  have gen: "generated_frames quiet_sender_env one_send_options 1 = [generated one_send_options 0 0]"
    by (simp add: generated_frames_def quiet_sender_env_def monotonic_ns_def)
  obtain frames where frames: "\<forall>f\<in>set frames. sendable one_send_options f" "length frames = 1" "wire = concat frames"
    using sender_main_spec [OF parse_one_send honest_quiet run] so by auto
  then have verdict: "frame_verdict (rs_options rs) (concat [wire]) = 0"
    using sendable_verdict [OF agree] by (cases frames) auto
  have "[] \<notin> set [wire]"
    using frames sendable_length by (cases frames) (force simp: kWireFrameSize_def)+
  note session = frame_seven(1) [OF opts] this frame_seven(3) [OF opts] verdict
  obtain s where s: "reachable rs [wire] [] s" "pl_main s = M_joined"
      "exit_status (pipeline_result (\<lambda>_. []) [] (rs_options rs) s) = 0"
    using complete_run [OF rs session] by blast
  from transmission [OF parse_one_send honest_quiet run rs session(1,2) agree s(1,2), of "[]"]
  have "map cf_wire (received s) = [generated one_send_options 0 0] \<and> clean (ld_stats (aq_continuity (pl_aq s)))"
    unfolding Let_def s(3) so gen by auto
  then show ?thesis using rs s(1) by (intro exI [of _ rs] exI [of _ wire] exI [of _ s]) simp
qed

theorem session_reads_back_witness:
  "\<exists>rs s r. receiver_start quiet_env (receiver_command_line one_frame_options) = Inr rs
     \<and> reachable rs [frame_seven] [] s \<and> length (pl_stored s) = 1
     \<and> drain (reader_next (pl_fs s)) 2 (uniform_frame 0) (new_capture_reader (pl_fs s) capture_root) = (pl_stored s, r)"
proof -
  obtain rs where rs: "receiver_start quiet_env (receiver_command_line one_frame_options) = Inr rs"
    and opts: "rs_options rs = one_frame_options" by (rule one_frame_session)
  obtain s where s: "reachable rs [frame_seven] [] s" "pl_main s = M_joined"
      "exit_status (pipeline_result (\<lambda>_. []) [] (rs_options rs) s) = 0" "length (pl_stored s) = 1"
      "is_directory (pl_fs s) capture_root"
    using complete_run [OF rs frame_seven [OF opts]] by blast
  have "\<exists>r. drain (reader_next (pl_fs s)) 2 (uniform_frame 0) (new_capture_reader (pl_fs s) capture_root) = (pl_stored s, r)
    \<and> rd_trailing_bytes r = 0
    \<and> map cf_wire (received s) = pl_stored s @ map cf_wire (queue_items (pl_queue s))"
    by (rule session_reads_back [OF rs frame_seven(1,2) [OF opts] s(1-3)])
      (simp_all add: s(5) frame_seven(3) [OF opts] is_regular_file_def)
  then show ?thesis using rs s(1,4) by blast
qed

end
